(* ===== verification/LKL_Prelude.thy ===== *)
theory LKL_Prelude
  imports Main "HOL-Library.Word" "HOL-Library.Monad_Syntax"
begin

text \<open>
  What every component of the development shares: the names of the machine types, the
  error numbers of the kernel headers, the encoding of little-endian integers in byte
  strings, and the generic facts on words, lists and options the component proofs use.

  A C function whose execution can leave the language (a read or a write outside an
  object, a null dereference) or stop the process (\<open>lkl_host_ops.panic\<close>, \<open>lkl_bug\<close>,
  \<open>BUG_ON\<close>, \<open>abort\<close>) returns an \<open>option\<close> in the model: \<open>None\<close> is such an
  execution and \<open>Some\<close> one that returns. Error codes are ordinary values of type
  \<open>int\<close>, negative as in the code.
\<close>

unbundle bit_operations_syntax

section \<open>Machine types\<close>

type_synonym u8 = "8 word"
type_synonym u16 = "16 word"
type_synonym u32 = "32 word"
type_synonym u64 = "64 word"

text \<open>A pointer is its address on a 64-bit host; the null pointer is 0.\<close>

type_synonym addr = "64 word"

section \<open>Error numbers\<close>

abbreviation (input) ENOENT :: int where "ENOENT \<equiv> 2"
abbreviation (input) EIO :: int where "EIO \<equiv> 5"
abbreviation (input) ENOMEM :: int where "ENOMEM \<equiv> 12"
abbreviation (input) EBUSY :: int where "EBUSY \<equiv> 16"
abbreviation (input) EEXIST :: int where "EEXIST \<equiv> 17"
abbreviation (input) ENXIO :: int where "ENXIO \<equiv> 6"
abbreviation (input) EFAULT :: int where "EFAULT \<equiv> 14"
abbreviation (input) ENODEV :: int where "ENODEV \<equiv> 19"
abbreviation (input) EINVAL :: int where "EINVAL \<equiv> 22"
abbreviation (input) ENOSPC :: int where "ENOSPC \<equiv> 28"
abbreviation (input) ENOSYS :: int where "ENOSYS \<equiv> 38"
abbreviation (input) ENOBUFS :: int where "ENOBUFS \<equiv> 105"

section \<open>Signed integers\<close>

text \<open>A C \<open>int\<close> is a mathematical integer in the model; conversions that can change the
  value go through the word of the C type's width and back with \<open>sint\<close>.\<close>

lemma sint_word_of_int_small:
  "- (2 ^ (LENGTH('a) - 1)) \<le> k \<Longrightarrow> k < 2 ^ (LENGTH('a) - 1) \<Longrightarrow>
   sint (word_of_int k :: 'a::len word) = k"
  by (simp only: sint_sbintrunc' signed_take_bit_int_eq_self)

section \<open>Collections of rewrite rules\<close>

named_theorems ring_index \<open>positions of free-running indices in a ring\<close>
named_theorems frame \<open>fields an operation leaves alone\<close>

section \<open>Array cells\<close>

text \<open>
  Reading and writing \<open>xs[i]\<close> where the index may be out of range: C has no result
  there, so the access is \<open>None\<close>.
\<close>

definition aget :: "'a list \<Rightarrow> nat \<Rightarrow> 'a option" where
  "aget xs i = (if i < length xs then Some (xs ! i) else None)"

definition aset :: "'a list \<Rightarrow> nat \<Rightarrow> 'a \<Rightarrow> 'a list option" where
  "aset xs i x = (if i < length xs then Some (xs[i := x]) else None)"

lemma aget_in [simp]: "i < length xs \<Longrightarrow> aget xs i = Some (xs ! i)"
  by (simp add: aget_def)

lemma aset_in [simp]: "i < length xs \<Longrightarrow> aset xs i x = Some (xs[i := x])"
  by (simp add: aset_def)

lemma aget_out [simp]: "length xs \<le> i \<Longrightarrow> aget xs i = None"
  by (simp add: aget_def)

lemma aset_out [simp]: "length xs \<le> i \<Longrightarrow> aset xs i x = None"
  by (simp add: aset_def)

lemma aget_Some_iff: "aget xs i = Some x \<longleftrightarrow> i < length xs \<and> x = xs ! i"
  by (auto simp: aget_def)

lemma aset_Some_iff: "aset xs i x = Some ys \<longleftrightarrow> i < length xs \<and> ys = xs[i := x]"
  by (auto simp: aset_def)

text \<open>An array addressed by a signed index, which may also be negative.\<close>

definition iget :: "'a list \<Rightarrow> int \<Rightarrow> 'a option" where
  "iget xs i = (if 0 \<le> i then aget xs (nat i) else None)"

lemma iget_Some_iff: "iget xs i = Some x \<longleftrightarrow> 0 \<le> i \<and> nat i < length xs \<and> x = xs ! nat i"
  by (auto simp: iget_def aget_Some_iff)

lemma iget_negative [simp]: "i < 0 \<Longrightarrow> iget xs i = None"
  by (simp add: iget_def)

lemma iget_int [simp]: "iget xs (int n) = aget xs n"
  by (simp add: iget_def)

section \<open>Power-of-two rings\<close>

text \<open>
  The rings of virtio have \<open>num = 2 ^ k\<close> cells and free-running 16-bit indices: the
  cell of index \<open>i\<close> is \<open>i & (num - 1)\<close>.
\<close>

lemma and_pow2_minus_1: "x AND (2 ^ k - 1) = take_bit k (x :: 'a::len word)"
  by (simp add: take_bit_eq_mask mask_eq_exp_minus_1)

lemma unat_pow2_word: "k < LENGTH('a) \<Longrightarrow> unat (2 ^ k :: 'a::len word) = 2 ^ k"
proof -
  assume "k < LENGTH('a)"
  then have "unat (of_nat (2 ^ k) :: 'a word) = 2 ^ k"
    by (simp only: unat_of_nat) simp
  then show ?thesis by simp
qed

lemma pow2_word_nonzero: "k < LENGTH('a) \<Longrightarrow> (2 ^ k :: 'a::len word) \<noteq> 0"
proof
  assume "k < LENGTH('a)" "(2 ^ k :: 'a word) = 0"
  then show False using unat_pow2_word [of k, where 'a = 'a] by simp
qed

lemma bit_less_pow2:
  assumes "bit (x :: 'a::len word) i" "unat x < 2 ^ k"
  shows "i < k"
proof -
  have "odd (unat x div 2 ^ i)" using assms(1) by (simp add: bit_unsigned_iff flip: bit_iff_odd)
  then have "2 ^ i \<le> unat x" by (metis div_less even_zero not_le)
  with assms(2) have "(2 :: nat) ^ i < 2 ^ k" by linarith
  then show ?thesis by (rule power_less_imp_less_exp [rotated]) simp
qed

lemma uint_take_bit_mod: "uint (take_bit k (x :: 'a::len word)) = uint x mod 2 ^ k"
  by (simp add: unsigned_take_bit_eq flip: take_bit_eq_mod)

lemma unat_and_pow2 [ring_index]:
  "unat (x AND (2 ^ k - 1) :: 'a::len word) = unat x mod 2 ^ k"
  by (simp add: and_pow2_minus_1 unsigned_take_bit_eq flip: take_bit_eq_mod)

lemma unat_lt_pow2: "unat (x :: 'a::len word) < 2 ^ LENGTH('a)"
  by (rule unsigned_less)

lemma unat_eqI: "x = word_of_nat n \<Longrightarrow> n < 2 ^ LENGTH('a) \<Longrightarrow> unat (x :: 'a::len word) = n"
  by (simp add: unat_of_nat)

lemma unat_ucast_up:
  assumes "LENGTH('a) \<le> LENGTH('b)"
  shows "unat (ucast (x :: 'a::len word) :: 'b::len word) = unat x"
proof -
  have "unat x < 2 ^ LENGTH('b)"
    using unat_lt_pow2 [of x] power_increasing [OF assms, of "2 :: nat"] by linarith
  then show ?thesis by (simp add: unsigned_ucast_eq take_bit_nat_eq_self)
qed

lemma mod_add_inj: "(x + j) mod n = (x + k) mod n \<Longrightarrow> j < n \<Longrightarrow> k < n \<Longrightarrow> j = (k :: nat)"
proof (induction j k rule: linorder_wlog)
  case (le j k)
  then have "n dvd (x + k) - (x + j)" by (intro mod_eq_dvd_iff_nat [THEN iffD1]) auto
  with le show ?case using dvd_imp_le [of n "k - j"] by force
qed auto

lemma unat_add_of_nat: "unat (i + word_of_nat j :: 'a::len word) = (unat i + j) mod 2 ^ LENGTH('a)"
  by (simp add: unat_word_ariths unat_of_nat mod_add_right_eq)

lemma unat_diff_step: "unat (a - b) = Suc n \<Longrightarrow> unat (a - (b + 1)) = n"
  by (metis diff_Suc_1 diff_diff_add nat.distinct(1) unat_0 unat_minus_one)

lemma unat_diff_0_iff: "unat (a - b) = 0 \<longleftrightarrow> b = a"
  by (auto simp: unat_eq_zero)

lemma ucast_word_of_nat_down:
  "LENGTH('b) \<le> LENGTH('a) \<Longrightarrow> ucast (word_of_nat n :: 'a::len word) = (word_of_nat n :: 'b::len word)"
  by (rule bit_word_eqI) (auto simp: bit_simps)

lemma dvd_less_gap: "d dvd a \<Longrightarrow> d dvd b \<Longrightarrow> a < b \<Longrightarrow> a + d \<le> (b :: nat)"
  using dvd_imp_le [of d "b - a"] by simp

lemma unat_and_not_pow2:
  "unat (x AND NOT (2 ^ k - 1) :: 'a::len word) = unat x div 2 ^ k * 2 ^ k"
proof -
  have "x AND NOT (2 ^ k - 1) = push_bit k (drop_bit k x)"
    by (rule bit_word_eqI) (auto simp: bit_simps mask_eq_exp_minus_1 [symmetric])
  moreover have "push_bit k (drop_bit k x) = x - take_bit k x"
    by (metis add_diff_cancel_left' bits_ident add.commute)
  moreover have "take_bit k x \<le> x"
    by (simp add: word_le_nat_alt unsigned_take_bit_eq take_bit_nat_less_eq_self)
  ultimately have "unat (x AND NOT (2 ^ k - 1)) = unat x - unat x mod 2 ^ k"
    by (simp add: unat_sub unsigned_take_bit_eq flip: take_bit_eq_mod)
  then show ?thesis by (simp add: minus_mod_eq_div_mult)
qed

section \<open>Loops over a list in the option monad\<close>

primrec opt_fold :: "('a \<Rightarrow> 's \<Rightarrow> 's option) \<Rightarrow> 'a list \<Rightarrow> 's \<Rightarrow> 's option" where
  "opt_fold f [] s = Some s"
| "opt_fold f (x # xs) s = do { s \<leftarrow> f x s; opt_fold f xs s }"

lemma opt_fold_append: "opt_fold f (xs @ ys) s = do { s \<leftarrow> opt_fold f xs s; opt_fold f ys s }"
  by (induction xs arbitrary: s) (auto split: bind_splits)

text \<open>An invariant of the loop that may mention what is still to be done.\<close>

lemma opt_fold_rule:
  assumes "P xs s"
    and "\<And>x xs s. P (x # xs) s \<Longrightarrow> \<exists>s'. f x s = Some s' \<and> P xs s'"
  shows "\<exists>s'. opt_fold f xs s = Some s' \<and> P [] s'"
  using assms(1)
proof (induction xs arbitrary: s)
  case (Cons x xs)
  from assms(2) [OF Cons.prems] obtain s' where "f x s = Some s'" "P xs s'" by blast
  with Cons.IH [of s'] show ?case by simp
qed simp

lemma filter_upt_bit_step:
  fixes w :: "'a::len word"
  shows "filter (bit w) [0..<LENGTH('a)] =
    (if bit w 0 then [0] else []) @ map Suc (filter (bit (drop_bit 1 w)) [0..<LENGTH('a)])"
proof -
  have "filter (bit w) [0..<Suc (LENGTH('a))] = filter (bit w) [0..<LENGTH('a)]"
    by (simp add: bit_word.rep_eq)
  moreover have "[0..<Suc (LENGTH('a))] = 0 # map Suc [0..<LENGTH('a)]"
    by (simp only: map_Suc_upt upt_conv_Cons zero_less_Suc)
  ultimately have "filter (bit w) [0..<LENGTH('a)] = filter (bit w) (0 # map Suc [0..<LENGTH('a)])"
    by metis
  then show ?thesis
    by (simp add: filter_map comp_def bit_drop_bit_eq)
qed

lemma eq_iff_div_mod: "(m :: nat) = n \<longleftrightarrow> m div k = n div k \<and> m mod k = n mod k"
  by (metis div_mult_mod_eq)

lemma filter_upt_blocks:
  "filter P [0..<n * k] = concat (map (\<lambda>i. map (\<lambda>b. i * k + b) (filter (\<lambda>b. P (i * k + b)) [0..<k])) [0..<n])"
proof (induction n)
  case (Suc n)
  have "[0..<Suc n * k] = [0..<n * k] @ [n * k..<n * k + k]"
    using upt_add_eq_append [of 0 "n * k" k] by (simp add: add.commute)
  moreover have "[n * k..<n * k + k] = map (\<lambda>b. n * k + b) [0..<k]"
    by (induction k) (simp_all add: map_add_upt [symmetric] add.commute)
  ultimately show ?case using Suc by (simp add: filter_map comp_def)
qed simp

section \<open>Little-endian integers\<close>

primrec le_val :: "u8 list \<Rightarrow> nat" where
  "le_val [] = 0"
| "le_val (b # bs) = unat b + 256 * le_val bs"

primrec le_bytes :: "nat \<Rightarrow> nat \<Rightarrow> u8 list" where
  "le_bytes 0 x = []"
| "le_bytes (Suc n) x = word_of_nat x # le_bytes n (x div 256)"

lemma length_le_bytes [simp]: "length (le_bytes n x) = n"
  by (induction n arbitrary: x) simp_all

lemma le_val_less: "le_val bs < 256 ^ length bs"
proof (induction bs)
  case (Cons b bs)
  have "unat b < 256" using unat_lt_pow2 [of b] by simp
  with Cons show ?case by simp
qed simp

lemma le_val_le_bytes: "le_val (le_bytes n x) = x mod 256 ^ n"
proof (induction n arbitrary: x)
  case (Suc n)
  have "x mod 256 ^ Suc n = x mod 256 + 256 * (x div 256 mod 256 ^ n)"
    by (simp add: mod_mult2_eq)
  then show ?case using Suc by (simp add: unat_of_nat)
qed simp

lemma le_bytes_le_val: "length bs = n \<Longrightarrow> le_bytes n (le_val bs) = bs"
proof (induction bs arbitrary: n)
  case (Cons b bs)
  have b: "unat b < 256" using unat_lt_pow2 [of b] by simp
  have "(word_of_nat (256 * le_val bs) :: u8) = 0" by (simp only: word_of_nat_eq_0_iff) simp
  then have "word_of_nat (unat b + 256 * le_val bs) = b" by (simp only: of_nat_add) simp
  with Cons b show ?case by auto
qed simp

text \<open>The bytes of a 32-bit word and the word they denote.\<close>

lemma le_val_word: "LENGTH('a) = 8 * n \<Longrightarrow> word_of_nat (le_val (le_bytes n (unat x))) = (x :: 'a::len word)"
  using unat_lt_pow2 [of x] power_mult [of "2 :: nat" 8 n] by (simp add: le_val_le_bytes)

section \<open>Copying\<close>

text \<open>\<open>memcpy (dst + i, src + j, n)\<close> on two arrays; a copy that leaves one of them has no result.\<close>

definition memcpy :: "'a list \<Rightarrow> nat \<Rightarrow> 'a list \<Rightarrow> nat \<Rightarrow> int \<Rightarrow> 'a list option" where
  "memcpy dst i src j n =
     (if 0 \<le> n \<and> i + nat n \<le> length dst \<and> j + nat n \<le> length src
      then Some (take i dst @ take (nat n) (drop j src) @ drop (i + nat n) dst)
      else None)"

lemma memcpy_length: "memcpy dst i src j n = Some r \<Longrightarrow> length r = length dst"
  by (auto simp: memcpy_def split: if_splits)

lemma memcpy_inside:
  "memcpy dst i src j n = Some r \<Longrightarrow> take (nat n) (drop i r) = take (nat n) (drop j src)"
  by (auto simp: memcpy_def split: if_splits)

end
