(* ===== verification/Irq.thy ===== *)
theory Irq
  imports LKL_Prelude
begin

text \<open>
  Interrupts of the LKL architecture, \<open>arch/lkl/kernel/irq.c\<close>: a two-level bitmap of
  pending interrupts (64 words of 64 bits and a summary word with one bit per word), their
  delivery, the interrupt flag, and the table of interrupt numbers handed out to devices.

  The kernel's interrupt handler (\<open>generic_handle_irq\<close> with the soft interrupts of
  \<open>irq_exit\<close>) is the parameter \<open>handle\<close> of the definitions that call it; the state
  also records, in \<open>handled\<close>, the interrupts it was called for.
\<close>

abbreviation (input) IRQ_STATUS_BITS :: nat where "IRQ_STATUS_BITS \<equiv> 64"
abbreviation (input) NR_IRQS :: nat where "NR_IRQS \<equiv> 4096"

record irq_state =
  irq_status :: "u64 list"
  irq_index_status :: u64
  irqs_user :: "string option list"
  irqs_enabled :: bool
  hardirq_count :: nat
  handled :: "nat list"

definition irq_init :: irq_state where
  "irq_init = \<lparr>irq_status = replicate IRQ_STATUS_BITS 0, irq_index_status = 0,
     irqs_user = replicate NR_IRQS None, irqs_enabled = False, hardirq_count = 0, handled = []\<rparr>"

section \<open>The bitmap\<close>

definition test_and_clear_irq_index_status :: "irq_state \<Rightarrow> u64 \<times> irq_state" where
  "test_and_clear_irq_index_status s =
     (if irq_index_status s = 0 then (0, s)
      else (irq_index_status s, s\<lparr>irq_index_status := 0\<rparr>))"

definition test_and_clear_irq_status :: "nat \<Rightarrow> irq_state \<Rightarrow> u64 \<times> irq_state" where
  "test_and_clear_irq_status index s =
     (irq_status s ! index, s\<lparr>irq_status := (irq_status s)[index := 0]\<rparr>)"

text \<open>An interrupt number outside \<open>0 .. NR_IRQS - 1\<close> addresses a word outside the bitmap.\<close>

definition set_irq_pending :: "int \<Rightarrow> irq_state \<Rightarrow> irq_state option" where
  "set_irq_pending irq s =
     (if 0 \<le> irq \<and> irq < int NR_IRQS then
        let index = nat irq div IRQ_STATUS_BITS; b = nat irq mod IRQ_STATUS_BITS in
        Some (s\<lparr>irq_status := (irq_status s)[index := irq_status s ! index OR push_bit b 1],
                irq_index_status := irq_index_status s OR push_bit index 1\<rparr>)
      else None)"

section \<open>Delivery\<close>

function for_each_bit :: "u64 \<Rightarrow> (nat \<Rightarrow> 's \<Rightarrow> 's option) \<Rightarrow> nat \<Rightarrow> 's \<Rightarrow> 's option" where
  "for_each_bit w f i s =
     (if w = 0 then Some s
      else do {
        s \<leftarrow> (if w AND 1 = 0 then Some s else f i s);
        for_each_bit (drop_bit 1 w) f (Suc i) s
      })"
  by pat_completeness auto
termination
proof (relation "measure (\<lambda>(w, f, i, s). unat w)", goal_cases)
  case (2 w f i s s')
  have "unat (drop_bit 1 w) = unat w div 2"
    by (simp add: drop_bit_eq_div unat_div)
  moreover from 2 have "0 < unat w" by (simp add: unat_gt_0)
  ultimately show ?case by simp
qed simp

declare for_each_bit.simps [simp del]

definition in_interrupt :: "irq_state \<Rightarrow> bool" where
  "in_interrupt s \<longleftrightarrow> hardirq_count s \<noteq> 0"

text \<open>
  \<open>run_irq\<close> ends with \<open>local_irq_restore\<close>, which delivers pending interrupts and so
  calls \<open>run_irq\<close> again. \<open>restore\<close> is that last call; \<open>arch_local_irq_restore\<close> ties
  the knot with a bound on the depth of the recursion.
\<close>

definition run_irq ::
  "(nat \<Rightarrow> irq_state \<Rightarrow> irq_state) \<Rightarrow> (bool \<Rightarrow> irq_state \<Rightarrow> irq_state option) \<Rightarrow>
   nat \<Rightarrow> irq_state \<Rightarrow> irq_state option" where
  "run_irq handle restore irq s =
     (let flags = irqs_enabled s;
          s = s\<lparr>irqs_enabled := False\<rparr>;
          s = s\<lparr>hardirq_count := hardirq_count s + 1\<rparr>;
          s = handle irq (s\<lparr>handled := handled s @ [irq]\<rparr>);
          s = s\<lparr>hardirq_count := hardirq_count s - 1\<rparr>
      in restore flags s)"

definition deliver_irq ::
  "(nat \<Rightarrow> irq_state \<Rightarrow> irq_state) \<Rightarrow> (bool \<Rightarrow> irq_state \<Rightarrow> irq_state option) \<Rightarrow>
   nat \<Rightarrow> nat \<Rightarrow> irq_state \<Rightarrow> irq_state option" where
  "deliver_irq handle restore index b s = run_irq handle restore (index * IRQ_STATUS_BITS + b) s"

definition check_irq_status ::
  "(nat \<Rightarrow> irq_state \<Rightarrow> irq_state) \<Rightarrow> (bool \<Rightarrow> irq_state \<Rightarrow> irq_state option) \<Rightarrow>
   nat \<Rightarrow> irq_state \<Rightarrow> irq_state option" where
  "check_irq_status handle restore i s =
     (let (w, s) = test_and_clear_irq_status i s
      in for_each_bit w (deliver_irq handle restore i) 0 s)"

definition run_irqs ::
  "(nat \<Rightarrow> irq_state \<Rightarrow> irq_state) \<Rightarrow> (bool \<Rightarrow> irq_state \<Rightarrow> irq_state option) \<Rightarrow>
   irq_state \<Rightarrow> irq_state option" where
  "run_irqs handle restore s =
     (let (w, s) = test_and_clear_irq_index_status s
      in for_each_bit w (check_irq_status handle restore) 0 s)"

fun arch_local_irq_restore ::
  "nat \<Rightarrow> (nat \<Rightarrow> irq_state \<Rightarrow> irq_state) \<Rightarrow> bool \<Rightarrow> irq_state \<Rightarrow> irq_state option" where
  "arch_local_irq_restore 0 handle flags s = None"
| "arch_local_irq_restore (Suc n) handle flags s = do {
     s \<leftarrow> (if flags \<and> \<not> irqs_enabled s \<and> \<not> in_interrupt s
          then run_irqs handle (arch_local_irq_restore n handle) s else Some s);
     Some (s\<lparr>irqs_enabled := flags\<rparr>)
   }"

declare arch_local_irq_restore.simps [simp del]

definition arch_local_save_flags :: "irq_state \<Rightarrow> bool" where
  "arch_local_save_flags s = irqs_enabled s"

section \<open>Interrupt numbers\<close>

function find_free_irq :: "string option list \<Rightarrow> nat \<Rightarrow> nat option" where
  "find_free_irq us i =
     (if i < NR_IRQS then (if us ! i = None then Some i else find_free_irq us (Suc i)) else None)"
  by pat_completeness auto
termination
  by (relation "measure (\<lambda>(us, i). NR_IRQS - i)") auto

declare find_free_irq.simps [simp del]

definition lkl_get_free_irq :: "string \<Rightarrow> irq_state \<Rightarrow> int \<times> irq_state" where
  "lkl_get_free_irq user s =
     (case find_free_irq (irqs_user s) 1 of
        None \<Rightarrow> (- EBUSY, s)
      | Some i \<Rightarrow> (int i, s\<lparr>irqs_user := (irqs_user s)[i := Some user]\<rparr>))"

definition lkl_put_irq :: "int \<Rightarrow> string \<Rightarrow> irq_state \<Rightarrow> irq_state option" where
  "lkl_put_irq i user s = do {
     u \<leftarrow> iget (irqs_user s) i;
     Some (if u = Some user then s\<lparr>irqs_user := (irqs_user s)[nat i := None]\<rparr> else s)
   }"

section \<open>Pending interrupts\<close>

definition pending :: "irq_state \<Rightarrow> nat \<Rightarrow> bool" where
  "pending s n \<longleftrightarrow> bit (irq_status s ! (n div IRQ_STATUS_BITS)) (n mod IRQ_STATUS_BITS)"

text \<open>The summary word covers the bitmap, but for the words in \<open>todo\<close>.\<close>

definition covered :: "nat set \<Rightarrow> irq_state \<Rightarrow> bool" where
  "covered todo s \<longleftrightarrow> length (irq_status s) = IRQ_STATUS_BITS \<and>
     (\<forall>i < IRQ_STATUS_BITS. irq_status s ! i \<noteq> 0 \<longrightarrow> bit (irq_index_status s) i \<or> i \<in> todo)"

definition irq_wf :: "irq_state \<Rightarrow> bool" where
  "irq_wf s \<longleftrightarrow> covered {} s \<and> length (irqs_user s) = NR_IRQS"

lemma irq_wf_init: "irq_wf irq_init"
  by (simp add: irq_wf_def covered_def irq_init_def)

lemma for_each_bit_fold:
  "for_each_bit w f i s = opt_fold f (map (\<lambda>k. k + i) (filter (bit w) [0..<64])) s"
proof (induction w f i s rule: for_each_bit.induct)
  case (1 w f i s)
  show ?case
  proof (cases "w = 0")
    case False
    have b: "w AND 1 = 0 \<longleftrightarrow> \<not> bit w 0"
      by (simp add: and_one_eq bit_0 even_iff_mod_2_eq_zero) 
    have m: "map (\<lambda>k. k + i) (filter (bit w) [0..<64]) =
        (if bit w 0 then [i] else []) @ map (\<lambda>k. k + Suc i) (filter (bit (drop_bit 1 w)) [0..<64])"
      using filter_upt_bit_step [of w] by (auto simp: comp_def)
    show ?thesis
      using "1" False by (subst for_each_bit.simps) (auto simp: m b split: bind_splits)
  qed (simp add: for_each_bit.simps)
qed

lemma set_irq_pending_pending:
  assumes "set_irq_pending irq s = Some s'" "length (irq_status s) = IRQ_STATUS_BITS" "n < NR_IRQS"
  shows "pending s' n \<longleftrightarrow> n = nat irq \<or> pending s n"
  using assms eq_iff_div_mod [of n "nat irq" IRQ_STATUS_BITS]
  by (auto simp: set_irq_pending_def Let_def pending_def nth_list_update bit_simps split: if_splits)

lemma set_irq_pending_covered:
  "set_irq_pending irq s = Some s' \<Longrightarrow> covered todo s \<Longrightarrow> covered todo s'"
  by (auto simp: set_irq_pending_def covered_def Let_def nth_list_update bit_simps split: if_splits)

lemma set_irq_pending_wf: "set_irq_pending irq s = Some s' \<Longrightarrow> irq_wf s \<Longrightarrow> irq_wf s'"
  unfolding irq_wf_def
  by (auto dest: set_irq_pending_covered) (auto simp: set_irq_pending_def Let_def split: if_splits)

section \<open>Delivery of pending interrupts\<close>

text \<open>
  A handler that neither touches the bitmap nor the interrupt flag, and one that may mark
  further interrupts as pending, as \<open>set_irq_pending\<close> does.
\<close>

definition quiet :: "(nat \<Rightarrow> irq_state \<Rightarrow> irq_state) \<Rightarrow> bool" where
  "quiet handle \<longleftrightarrow> (\<forall>n s. irq_status (handle n s) = irq_status s \<and>
     irq_index_status (handle n s) = irq_index_status s \<and> irqs_enabled (handle n s) = irqs_enabled s \<and>
     hardirq_count (handle n s) = hardirq_count s \<and> handled (handle n s) = handled s)"

definition raising :: "(nat \<Rightarrow> irq_state \<Rightarrow> irq_state) \<Rightarrow> bool" where
  "raising handle \<longleftrightarrow> (\<forall>n s. irqs_enabled (handle n s) = irqs_enabled s \<and>
     hardirq_count (handle n s) = hardirq_count s \<and> set (handled s) \<subseteq> set (handled (handle n s)) \<and>
     irqs_user (handle n s) = irqs_user s \<and>
     (\<forall>todo. covered todo s \<longrightarrow> covered todo (handle n s)) \<and>
     (\<forall>m < NR_IRQS. pending s m \<longrightarrow> pending (handle n s) m))"

lemma restore_False [simp]:
  "arch_local_irq_restore (Suc n) handle False s = Some (s\<lparr>irqs_enabled := False\<rparr>)"
  by (simp add: arch_local_irq_restore.simps)

text \<open>One handler call with interrupts disabled never nests another.\<close>

lemma run_irq_disabled:
  "\<not> irqs_enabled s \<Longrightarrow> run_irq handle (arch_local_irq_restore (Suc n) handle) irq s =
     (let t = handle irq (s\<lparr>irqs_enabled := False, hardirq_count := hardirq_count s + 1,
                             handled := handled s @ [irq]\<rparr>)
      in Some (t\<lparr>hardirq_count := hardirq_count t - 1, irqs_enabled := False\<rparr>))"
  by (simp add: run_irq_def Let_def)

lemma run_irq_quiet:
  assumes "quiet handle" "\<not> irqs_enabled s"
  shows "\<exists>t. run_irq handle (arch_local_irq_restore (Suc n) handle) irq s = Some t \<and>
    \<not> irqs_enabled t \<and> irq_status t = irq_status s \<and> irq_index_status t = irq_index_status s \<and>
    hardirq_count t = hardirq_count s \<and> handled t = handled s @ [irq]"
  using assms by (simp add: run_irq_disabled Let_def quiet_def)

lemma run_irq_raising:
  assumes "raising handle" "\<not> irqs_enabled s" "covered todo s"
  shows "\<exists>t. run_irq handle (arch_local_irq_restore (Suc n) handle) irq s = Some t \<and>
    \<not> irqs_enabled t \<and> covered todo t \<and> irqs_user t = irqs_user s \<and>
    (\<forall>m < NR_IRQS. pending s m \<longrightarrow> pending t m) \<and> insert irq (set (handled s)) \<subseteq> set (handled t)"
proof -
  let ?s = "s\<lparr>irqs_enabled := False, hardirq_count := hardirq_count s + 1, handled := handled s @ [irq]\<rparr>"
  let ?t = "handle irq ?s"
  have "covered todo ?s" using assms(3) by (simp add: covered_def)
  with assms(1) have "covered todo ?t" "set (handled ?s) \<subseteq> set (handled ?t)"
    "irqs_user ?t = irqs_user ?s" "\<forall>m < NR_IRQS. pending ?s m \<longrightarrow> pending ?t m"
    unfolding raising_def by blast+
  then show ?thesis
    using assms(2) by (simp add: run_irq_disabled Let_def covered_def pending_def)
qed

lemma deliver_irqs_quiet:
  assumes "quiet handle" "\<not> irqs_enabled s"
  shows "\<exists>t. opt_fold (deliver_irq handle (arch_local_irq_restore (Suc n) handle) i) bs s = Some t \<and>
    \<not> irqs_enabled t \<and> irq_status t = irq_status s \<and> irq_index_status t = irq_index_status s \<and>
    hardirq_count t = hardirq_count s \<and> handled t = handled s @ map (\<lambda>b. i * 64 + b) bs"
  using assms(2)
proof (induction bs arbitrary: s)
  case (Cons b bs)
  from run_irq_quiet [OF assms(1) Cons.prems, of n "i * 64 + b"] obtain t where
    t: "deliver_irq handle (arch_local_irq_restore (Suc n) handle) i b s = Some t" "\<not> irqs_enabled t"
      "irq_status t = irq_status s" "irq_index_status t = irq_index_status s"
      "hardirq_count t = hardirq_count s" "handled t = handled s @ [i * 64 + b]"
    unfolding deliver_irq_def by blast
  with Cons.IH [OF t(2)] show ?case by (simp add: t)
qed simp

lemma check_irq_status_quiet:
  assumes "quiet handle" "\<not> irqs_enabled s"
  shows "\<exists>t. check_irq_status handle (arch_local_irq_restore (Suc n) handle) i s = Some t \<and>
    \<not> irqs_enabled t \<and> irq_status t = (irq_status s)[i := 0] \<and>
    irq_index_status t = irq_index_status s \<and> hardirq_count t = hardirq_count s \<and>
    handled t = handled s @ map (\<lambda>b. i * 64 + b) (filter (bit (irq_status s ! i)) [0..<64])"
  using deliver_irqs_quiet [OF assms(1), of "s\<lparr>irq_status := (irq_status s)[i := 0]\<rparr>"
      n i "filter (bit (irq_status s ! i)) [0..<64]"] assms(2)
  by (auto simp: check_irq_status_def test_and_clear_irq_status_def for_each_bit_fold)

lemma check_irqs_quiet:
  assumes "quiet handle" "\<not> irqs_enabled s" "distinct is" "length (irq_status s) = 64"
  shows "\<exists>t. opt_fold (check_irq_status handle (arch_local_irq_restore (Suc n) handle)) is s = Some t \<and>
    \<not> irqs_enabled t \<and> length (irq_status t) = 64 \<and>
    (\<forall>j < 64. irq_status t ! j = (if j \<in> set is then 0 else irq_status s ! j)) \<and>
    irq_index_status t = irq_index_status s \<and> hardirq_count t = hardirq_count s \<and>
    handled t = handled s @ concat (map (\<lambda>i. map (\<lambda>b. i * 64 + b) (filter (bit (irq_status s ! i)) [0..<64])) is)"
  using assms(2-4)
proof (induction "is" arbitrary: s)
  case (Cons i "is")
  from check_irq_status_quiet [OF assms(1) Cons.prems(1), of n i] obtain u where
    u: "check_irq_status handle (arch_local_irq_restore (Suc n) handle) i s = Some u" "\<not> irqs_enabled u"
      "irq_status u = (irq_status s)[i := 0]" "irq_index_status u = irq_index_status s"
      "hardirq_count u = hardirq_count s"
      "handled u = handled s @ map (\<lambda>b. i * 64 + b) (filter (bit (irq_status s ! i)) [0..<64])"
    by blast
  have "map (\<lambda>j. map (\<lambda>b. j * 64 + b) (filter (bit (irq_status u ! j)) [0..<64])) is =
        map (\<lambda>j. map (\<lambda>b. j * 64 + b) (filter (bit (irq_status s ! j)) [0..<64])) is"
  proof (rule map_cong)
    fix j assume "j \<in> set is"
    with Cons.prems(2) have "i \<noteq> j" by auto
    then show "map (\<lambda>b. j * 64 + b) (filter (bit (irq_status u ! j)) [0..<64]) =
        map (\<lambda>b. j * 64 + b) (filter (bit (irq_status s ! j)) [0..<64])"
      by (simp add: u)
  qed simp
  note block = this
  have "distinct is" "length (irq_status u) = 64" using Cons.prems(2,3) by (simp_all add: u)
  from Cons.IH [OF u(2) this] obtain t where
    t: "opt_fold (check_irq_status handle (arch_local_irq_restore (Suc n) handle)) is u = Some t"
      "\<not> irqs_enabled t" "length (irq_status t) = 64"
      "\<And>j. j < 64 \<Longrightarrow> irq_status t ! j = (if j \<in> set is then 0 else irq_status u ! j)"
      "irq_index_status t = irq_index_status u" "hardirq_count t = hardirq_count u"
      "handled t = handled u @ concat (map (\<lambda>i. map (\<lambda>b. i * 64 + b) (filter (bit (irq_status u ! i)) [0..<64])) is)"
    by blast
  have "irq_status t ! j = (if j \<in> set (i # is) then 0 else irq_status s ! j)" if "j < 64" for j
    using Cons.prems(3) that by (auto simp: t(4) u(3) nth_list_update)
  with t(1-3,5-7) show ?case by (auto simp: u(1,4-6) block)
qed simp

lemma run_irqs_quiet:
  assumes "quiet handle" "covered {} s" "\<not> irqs_enabled s"
  shows "\<exists>t. run_irqs handle (arch_local_irq_restore (Suc n) handle) s = Some t \<and>
    \<not> irqs_enabled t \<and> hardirq_count t = hardirq_count s \<and> irq_index_status t = 0 \<and>
    irq_status t = replicate 64 0 \<and> handled t = handled s @ filter (pending s) [0..<NR_IRQS]"
proof -
  let ?s = "s\<lparr>irq_index_status := 0\<rparr>" and ?is = "filter (bit (irq_index_status s)) [0..<64]"
  let ?block = "\<lambda>i. map (\<lambda>b. i * 64 + b) (filter (bit (irq_status s ! i)) [0..<64])"
  have len: "length (irq_status s) = 64"
    and zero: "\<And>i. i < 64 \<Longrightarrow> \<not> bit (irq_index_status s) i \<Longrightarrow> irq_status s ! i = 0"
    using assms(2) by (auto simp: covered_def)
  have "?block i = map (\<lambda>b. i * 64 + b) (filter (\<lambda>b. pending s (i * 64 + b)) [0..<64])" for i
    by (auto simp: pending_def intro!: filter_cong)
  then have "filter (pending s) [0..<NR_IRQS] = concat (map ?block [0..<64])"
    using filter_upt_blocks [of "pending s" 64 64] by simp
  also have "\<dots> = concat (map ?block ?is)"
  proof -
    have "concat (map ?block xs) = concat (map ?block (filter (bit (irq_index_status s)) xs))"
      if "set xs \<subseteq> {..<64}" for xs
      using that by (induction xs) (auto simp: zero)
    from this [of "[0..<64]"] show ?thesis by (simp add: atLeast0LessThan)
  qed
  finally have log: "concat (map ?block ?is) = filter (pending s) [0..<NR_IRQS]" by simp
  have run: "run_irqs handle R s = opt_fold (check_irq_status handle R) ?is ?s" for R
    by (simp add: run_irqs_def test_and_clear_irq_index_status_def for_each_bit_fold)
  obtain t where t: "opt_fold (check_irq_status handle (arch_local_irq_restore (Suc n) handle)) ?is ?s = Some t"
    "\<not> irqs_enabled t" "length (irq_status t) = 64"
    "\<And>j. j < 64 \<Longrightarrow> irq_status t ! j = (if j \<in> set ?is then 0 else irq_status s ! j)"
    "irq_index_status t = 0" "hardirq_count t = hardirq_count s" "handled t = handled s @ concat (map ?block ?is)"
    using check_irqs_quiet [OF assms(1), of ?s ?is n] len assms(3) by auto
  have "irq_status t = replicate 64 0"
    by (rule nth_equalityI) (auto simp: t zero)
  with t run log show ?thesis by auto
qed

text \<open>
  The invariant of the delivery loops for a handler that may raise interrupts: what was pending at
  the start has been handled or is pending still, in a word the loop has yet to visit.
\<close>

definition delivering :: "irq_state \<Rightarrow> nat set \<Rightarrow> nat set \<Rightarrow> irq_state \<Rightarrow> bool" where
  "delivering s todo dn t \<longleftrightarrow> \<not> irqs_enabled t \<and> covered todo t \<and> irqs_user t = irqs_user s \<and>
     (\<forall>m < NR_IRQS. pending s m \<longrightarrow> m \<in> dn \<or> m \<in> set (handled t) \<or> pending t m \<and> m div 64 \<in> todo)"

lemma deliver_irqs_raising:
  assumes "raising handle" "delivering s todo (D \<union> (\<lambda>b. i * 64 + b) ` set bs) t"
  shows "\<exists>t'. opt_fold (deliver_irq handle (arch_local_irq_restore (Suc n) handle) i) bs t = Some t' \<and>
    delivering s todo D t'"
proof -
  let ?P = "\<lambda>bs t. delivering s todo (D \<union> (\<lambda>b. i * 64 + b) ` set bs) t"
  have "\<exists>t'. opt_fold (deliver_irq handle (arch_local_irq_restore (Suc n) handle) i) bs t = Some t' \<and> ?P [] t'"
  proof (rule opt_fold_rule [where P = ?P])
    fix b bs t assume t: "?P (b # bs) t"
    then have "\<not> irqs_enabled t" "covered todo t" by (auto simp: delivering_def)
    from run_irq_raising [OF assms(1) this, of n "i * 64 + b"] obtain t' where
      t': "deliver_irq handle (arch_local_irq_restore (Suc n) handle) i b t = Some t'"
        "\<not> irqs_enabled t'" "covered todo t'" "irqs_user t' = irqs_user t"
        "\<And>m. m < NR_IRQS \<Longrightarrow> pending t m \<Longrightarrow> pending t' m" "insert (i * 64 + b) (set (handled t)) \<subseteq> set (handled t')"
      unfolding deliver_irq_def by blast
    with t have "?P bs t'" by (fastforce simp: delivering_def)
    with t'(1) show "\<exists>t'. deliver_irq handle (arch_local_irq_restore (Suc n) handle) i b t = Some t' \<and> ?P bs t'"
      by blast
  qed (rule assms(2))
  then show ?thesis by simp
qed

lemma check_irq_status_raising:
  assumes "raising handle" "delivering s (insert i todo) {} t" "i < 64"
  shows "\<exists>t'. check_irq_status handle (arch_local_irq_restore (Suc n) handle) i t = Some t' \<and>
    delivering s todo {} t'"
proof -
  let ?t = "t\<lparr>irq_status := (irq_status t)[i := 0]\<rparr>" and ?bs = "filter (bit (irq_status t ! i)) [0..<64]"
  have len: "length (irq_status t) = 64" using assms(2) by (simp add: delivering_def covered_def)
  have "delivering s todo ({} \<union> (\<lambda>b. i * 64 + b) ` set ?bs) ?t"
    unfolding delivering_def
  proof (intro conjI allI impI)
    show "covered todo ?t" using assms(2,3) len
      by (auto simp: delivering_def covered_def nth_list_update)
    fix m assume m: "m < NR_IRQS" "pending s m"
    with assms(2) consider "m \<in> set (handled t)" | "pending t m" "m div 64 \<in> insert i todo"
      by (auto simp: delivering_def)
    then show "m \<in> {} \<union> (\<lambda>b. i * 64 + b) ` set ?bs \<or> m \<in> set (handled ?t) \<or>
        pending ?t m \<and> m div 64 \<in> todo"
    proof cases
      case 2
      show ?thesis
      proof (cases "m div 64 = i")
        case True
        then have "m = i * 64 + m mod 64" by auto
        moreover have "m mod 64 \<in> set ?bs" using 2(1) True by (simp add: pending_def)
        ultimately show ?thesis by blast
      next
        case False
        with 2 show ?thesis by (simp add: pending_def)
      qed
    qed simp
  qed (use assms(2) in \<open>auto simp: delivering_def\<close>)
  from deliver_irqs_raising [OF assms(1) this] show ?thesis
    by (auto simp: check_irq_status_def test_and_clear_irq_status_def for_each_bit_fold)
qed

lemma run_irqs_raising:
  assumes "raising handle" "irq_wf s" "\<not> irqs_enabled s"
  shows "\<exists>t. run_irqs handle (arch_local_irq_restore (Suc n) handle) s = Some t \<and>
    \<not> irqs_enabled t \<and> irq_wf t \<and> (\<forall>m < NR_IRQS. pending s m \<longrightarrow> m \<in> set (handled t))"
proof -
  let ?s = "s\<lparr>irq_index_status := 0\<rparr>" and ?is = "filter (bit (irq_index_status s)) [0..<64]"
  let ?P = "\<lambda>is t. set is \<subseteq> {..<64} \<and> delivering s (set is) {} t"
  have run: "run_irqs handle R s = opt_fold (check_irq_status handle R) ?is ?s" for R
    by (simp add: run_irqs_def test_and_clear_irq_index_status_def for_each_bit_fold)
  have "delivering s (set ?is) {} ?s"
    unfolding delivering_def
  proof (intro conjI allI impI)
    fix m assume m: "m < NR_IRQS" "pending s m"
    then have "m div 64 < 64" "irq_status s ! (m div 64) \<noteq> 0" by (auto simp: pending_def)
    with assms(2) have "m div 64 \<in> set ?is" by (auto simp: irq_wf_def covered_def)
    with m(2) show "m \<in> {} \<or> m \<in> set (handled ?s) \<or> pending ?s m \<and> m div 64 \<in> set ?is"
      by (simp add: pending_def)
  qed (use assms(2,3) in \<open>auto simp: irq_wf_def covered_def\<close>)
  then have "?P ?is ?s" by auto
  then have "\<exists>t. opt_fold (check_irq_status handle (arch_local_irq_restore (Suc n) handle)) ?is ?s = Some t \<and> ?P [] t"
    by (rule opt_fold_rule) (auto dest: check_irq_status_raising [OF assms(1), of s _ _ _ n])
  with run assms(2) show ?thesis by (auto simp: delivering_def irq_wf_def)
qed

section \<open>Properties of delivery\<close>

text \<open>
  C24: enabling interrupts outside an interrupt delivers every pending interrupt exactly once, in
  increasing order, and leaves nothing pending, when the handlers raise no interrupts themselves.
  Two levels of the recursion between \<open>run_irq\<close> and \<open>local_irq_restore\<close> are enough.
\<close>

theorem irq_restore_delivers_once:
  assumes "quiet handle" "irq_wf s" "\<not> irqs_enabled s" "\<not> in_interrupt s"
  shows "\<exists>t. arch_local_irq_restore (Suc (Suc n)) handle True s = Some t \<and> irqs_enabled t \<and>
    handled t = handled s @ filter (pending s) [0..<NR_IRQS] \<and> (\<forall>m < NR_IRQS. \<not> pending t m) \<and>
    irq_index_status t = 0"
proof -
  from assms(2) have "covered {} s" by (simp add: irq_wf_def)
  from run_irqs_quiet [OF assms(1) this assms(3), of n] obtain t where
    t: "run_irqs handle (arch_local_irq_restore (Suc n) handle) s = Some t" "irq_index_status t = 0"
      "irq_status t = replicate 64 0" "handled t = handled s @ filter (pending s) [0..<NR_IRQS]"
    by blast
  with assms(3,4) show ?thesis
    by (auto simp: arch_local_irq_restore.simps(2) [of "Suc n"] pending_def)
qed

definition two_pending :: irq_state where
  "two_pending = irq_init\<lparr>irq_status := (replicate 64 0)[0 := 2, 1 := 1], irq_index_status := 3\<rparr>"

lemma two_pending_wf: "irq_wf two_pending"
  by (auto simp: irq_wf_def covered_def two_pending_def irq_init_def nth_list_update nth_Cons' bit_numeral_rec
      less_Suc_eq split: if_splits)

lemma two_pending_pending: "pending two_pending 1" "pending two_pending 64"
  by (simp_all add: pending_def two_pending_def irq_init_def)

theorem irq_restore_delivers_once_witness:
  "\<exists>t. arch_local_irq_restore 2 (\<lambda>_ s. s) True two_pending = Some t \<and>
     1 \<in> set (handled t) \<and> 64 \<in> set (handled t) \<and> \<not> pending t 64"
  using irq_restore_delivers_once [of "\<lambda>_ s. s" two_pending 0] two_pending_wf two_pending_pending
  by (auto simp: quiet_def in_interrupt_def two_pending_def irq_init_def numeral_2_eq_2)

text \<open>
  C25: when handlers raise further interrupts while pending ones are delivered, no interrupt is lost:
  every interrupt that was pending is handled, and the summary word again covers every bit that is
  set afterwards, so the next delivery finds them.
\<close>

theorem run_irqs_loses_nothing:
  assumes "raising handle" "irq_wf s" "\<not> irqs_enabled s"
  shows "\<exists>t. run_irqs handle (arch_local_irq_restore (Suc n) handle) s = Some t \<and>
    \<not> irqs_enabled t \<and> irq_wf t \<and> (\<forall>m < NR_IRQS. pending s m \<longrightarrow> m \<in> set (handled t))"
  using assms by (rule run_irqs_raising)

text \<open>A handler that raises interrupt 70 each time it runs.\<close>

definition raise_70 :: "nat \<Rightarrow> irq_state \<Rightarrow> irq_state" where
  "raise_70 n s = (case set_irq_pending 70 s of None \<Rightarrow> s | Some t \<Rightarrow> t)"

lemma raising_raise_70: "raising raise_70"
proof -
  have eq: "raise_70 n s = the (set_irq_pending 70 s)" "set_irq_pending 70 s = Some (raise_70 n s)" for n s
    by (simp_all add: raise_70_def set_irq_pending_def Let_def)
  have p: "pending (raise_70 n s) m" if "pending s m" for n s m
    using that by (cases "length (irq_status s) \<le> 1")
      (auto simp: raise_70_def set_irq_pending_def Let_def pending_def nth_list_update bit_simps
        list_update_beyond)
  show ?thesis
    unfolding raising_def using set_irq_pending_covered [OF eq(2)] p
    by (auto simp: raise_70_def set_irq_pending_def Let_def)
qed

theorem run_irqs_loses_nothing_witness:
  "\<exists>t. run_irqs raise_70 (arch_local_irq_restore 1 raise_70) two_pending = Some t \<and>
     irq_wf t \<and> 64 \<in> set (handled t)"
  using run_irqs_loses_nothing [of raise_70 two_pending 0] raising_raise_70 two_pending_wf two_pending_pending
  by (auto simp: two_pending_def irq_init_def)

text \<open>
  C26: marking interrupt \<open>irq\<close> as pending sets exactly that interrupt and keeps the bitmap
  well-formed for the numbers 0 to 4095; any other number writes outside the bitmap.
\<close>

theorem set_irq_pending_spec:
  assumes "irq_wf s"
  shows "if 0 \<le> irq \<and> irq < int NR_IRQS
         then \<exists>t. set_irq_pending irq s = Some t \<and> irq_wf t \<and>
                  (\<forall>m < NR_IRQS. pending t m \<longleftrightarrow> m = nat irq \<or> pending s m)
         else set_irq_pending irq s = None"
proof (cases "0 \<le> irq \<and> irq < int NR_IRQS")
  case True
  then obtain t where t: "set_irq_pending irq s = Some t" by (auto simp: set_irq_pending_def Let_def)
  moreover have "length (irq_status s) = IRQ_STATUS_BITS" using assms by (simp add: irq_wf_def covered_def)
  ultimately show ?thesis
    using True assms by (auto simp: set_irq_pending_pending dest: set_irq_pending_wf)
qed (auto simp: set_irq_pending_def)

theorem set_irq_pending_spec_witness:
  "set_irq_pending 4096 irq_init = None \<and> (\<exists>t. set_irq_pending 4095 irq_init = Some t \<and> pending t 4095)"
  using set_irq_pending_spec [OF irq_wf_init, of 4096] set_irq_pending_spec [OF irq_wf_init, of 4095]
  by auto

section \<open>Interrupt numbers as a pool\<close>

definition irq_holder :: "irq_state \<Rightarrow> int \<Rightarrow> string option" where
  "irq_holder s i = (if 0 \<le> i \<and> i < int NR_IRQS then irqs_user s ! nat i else None)"

text \<open>
  What a device relies on when it reserves a number: it gets one that nobody holds, nobody else
  gets it while it is held, and only its holder's name releases it.
\<close>

locale irq_pool =
  fixes get :: "string \<Rightarrow> 's \<Rightarrow> int \<times> 's"
    and put :: "int \<Rightarrow> string \<Rightarrow> 's \<Rightarrow> 's option"
    and holder :: "'s \<Rightarrow> int \<Rightarrow> string option"
    and pool_wf :: "'s \<Rightarrow> bool"
  assumes get_wf: "pool_wf s \<Longrightarrow> get u s = (i, s') \<Longrightarrow> pool_wf s'"
    and get_free: "pool_wf s \<Longrightarrow> get u s = (i, s') \<Longrightarrow> 0 \<le> i \<Longrightarrow> 0 < i \<and> holder s i = None"
    and get_holds: "pool_wf s \<Longrightarrow> get u s = (i, s') \<Longrightarrow> 0 \<le> i \<Longrightarrow> holder s' = (holder s)(i := Some u)"
    and get_fails: "pool_wf s \<Longrightarrow> get u s = (i, s') \<Longrightarrow> i < 0 \<Longrightarrow> s' = s"
    and put_wf: "pool_wf s \<Longrightarrow> put i u s = Some s' \<Longrightarrow> pool_wf s'"
    and put_held: "pool_wf s \<Longrightarrow> holder s i = Some u \<Longrightarrow>
        \<exists>s'. put i u s = Some s' \<and> holder s' = (holder s)(i := None)"
    and put_other: "pool_wf s \<Longrightarrow> holder s i \<noteq> Some u \<Longrightarrow> put i u s = Some s' \<Longrightarrow> s' = s"
begin

lemma two_gets_differ:
  assumes "pool_wf s" "get u s = (i, s1)" "0 \<le> i" "get v s1 = (j, s2)" "0 \<le> j"
  shows "i \<noteq> j"
proof -
  from assms have "pool_wf s1" by (blast intro: get_wf)
  with assms have "holder s1 j = None" by (blast dest: get_free)
  moreover from assms have "holder s1 i = Some u" by (simp add: get_holds [of s u i s1])
  ultimately show ?thesis by auto
qed

lemma put_undoes_get:
  assumes "pool_wf s" "get u s = (i, s1)" "0 \<le> i"
  shows "\<exists>s2. put i u s1 = Some s2 \<and> holder s2 = holder s"
proof -
  from assms have wf1: "pool_wf s1" and h: "holder s1 = (holder s)(i := Some u)" and f: "holder s i = None"
    by (blast dest: get_wf get_holds get_free)+
  then have "holder s1 i = Some u" by simp
  from put_held [OF wf1 this] h f show ?thesis by (auto simp: fun_eq_iff)
qed

end

lemma find_free_irq_Some:
  "find_free_irq us i = Some k \<Longrightarrow> i \<le> k \<and> k < NR_IRQS \<and> us ! k = None \<and> (\<forall>j. i \<le> j \<and> j < k \<longrightarrow> us ! j \<noteq> None)"
proof (induction us i rule: find_free_irq.induct)
  case (1 us i)
  show ?case
  proof (cases "i < NR_IRQS \<and> us ! i \<noteq> None")
    case True
    with "1.prems" have "find_free_irq us (Suc i) = Some k" by (simp add: find_free_irq.simps [of us i])
    with True "1.IH" have "Suc i \<le> k \<and> k < NR_IRQS \<and> us ! k = None \<and> (\<forall>j. Suc i \<le> j \<and> j < k \<longrightarrow> us ! j \<noteq> None)"
      by simp
    with True show ?thesis by (metis Suc_leD Suc_leI le_neq_implies_less)
  qed (use "1.prems" in \<open>auto simp: find_free_irq.simps [of us i] split: if_splits\<close>)
qed

lemma find_free_irq_None:
  "find_free_irq us i = None \<Longrightarrow> i \<le> j \<Longrightarrow> j < NR_IRQS \<Longrightarrow> us ! j \<noteq> None"
proof (induction us i rule: find_free_irq.induct)
  case (1 us i)
  from "1.prems" have i: "i < NR_IRQS" "us ! i \<noteq> None" "find_free_irq us (Suc i) = None"
    using find_free_irq.simps [of us i] by (simp_all split: if_splits)
  show ?case
  proof (cases "i = j")
    case False
    with "1.prems" have "Suc i \<le> j" by simp
    with "1.IH" [OF i(1)] i "1.prems"(3) show ?thesis by blast
  qed (use i in simp)
qed

lemma lkl_get_free_irq_cases:
  assumes "lkl_get_free_irq u s = (i, s')"
  obtains (free) k where "i = int k" "1 \<le> k" "k < NR_IRQS" "irqs_user s ! k = None"
      "\<forall>j. 1 \<le> j \<and> j < k \<longrightarrow> irqs_user s ! j \<noteq> None"
      "s' = s\<lparr>irqs_user := (irqs_user s)[k := Some u]\<rparr>"
    | (busy) "i = - EBUSY" "s' = s" "\<forall>j. 1 \<le> j \<and> j < NR_IRQS \<longrightarrow> irqs_user s ! j \<noteq> None"
proof (cases "find_free_irq (irqs_user s) 1")
  case None
  with assms have "i = - EBUSY" "s' = s" by (auto simp: lkl_get_free_irq_def)
  moreover from None have "\<forall>j. 1 \<le> j \<and> j < NR_IRQS \<longrightarrow> irqs_user s ! j \<noteq> None"
    by (blast dest: find_free_irq_None)
  ultimately show ?thesis by (rule busy)
next
  case (Some k)
  with assms have "i = int k" "s' = s\<lparr>irqs_user := (irqs_user s)[k := Some u]\<rparr>"
    by (auto simp: lkl_get_free_irq_def)
  with find_free_irq_Some [OF Some] free show ?thesis by blast
qed

interpretation irqs: irq_pool lkl_get_free_irq lkl_put_irq irq_holder irq_wf
proof
  fix s s' :: irq_state and i :: int and u
  assume wf: "irq_wf s"
  then have len: "length (irqs_user s) = NR_IRQS" by (simp add: irq_wf_def)
  {
    assume g: "lkl_get_free_irq u s = (i, s')"
    show "irq_wf s'" using g wf
      by (cases rule: lkl_get_free_irq_cases) (auto simp: irq_wf_def covered_def)
    show "i < 0 \<Longrightarrow> s' = s" using g
      by (cases rule: lkl_get_free_irq_cases) auto
    assume "0 \<le> i"
    with g show "0 < i \<and> irq_holder s i = None" and "irq_holder s' = (irq_holder s)(i := Some u)"
      by (cases rule: lkl_get_free_irq_cases; auto simp: irq_holder_def fun_eq_iff nth_list_update len)+
  }
  show "irq_wf s'" if "lkl_put_irq i u s = Some s'"
    using that wf by (auto simp: lkl_put_irq_def irq_wf_def covered_def split: bind_splits if_splits)
  show "\<exists>t. lkl_put_irq i u s = Some t \<and> irq_holder t = (irq_holder s)(i := None)" if "irq_holder s i = Some u"
    using that len
    by (auto simp: lkl_put_irq_def irq_holder_def iget_def fun_eq_iff nth_list_update split: if_splits)
  show "s' = s" if "irq_holder s i \<noteq> Some u" "lkl_put_irq i u s = Some s'"
    using that len by (auto simp: lkl_put_irq_def irq_holder_def iget_Some_iff split: bind_splits if_splits)
qed

text \<open>
  C27: \<open>lkl_get_free_irq\<close> returns the smallest number from 1 on that no device holds, or -EBUSY
  exactly when all are held; a number it returns is not returned again until its holder releases it,
  and releasing it restores the table.
\<close>

theorem lkl_get_free_irq_spec:
  assumes "irq_wf s" "lkl_get_free_irq u s = (i, s')"
  shows "if \<exists>j. 1 \<le> j \<and> j < int NR_IRQS \<and> irq_holder s j = None
         then 1 \<le> i \<and> i < int NR_IRQS \<and> irq_holder s i = None \<and>
              (\<forall>j. 1 \<le> j \<and> j < i \<longrightarrow> irq_holder s j \<noteq> None) \<and>
              fst (lkl_get_free_irq v s') \<noteq> i \<and>
              (\<exists>s2. lkl_put_irq i u s' = Some s2 \<and> irq_holder s2 = irq_holder s)
         else i = - EBUSY \<and> s' = s"
  using assms(2)
proof (cases rule: lkl_get_free_irq_cases)
  case (free k)
  then have i: "1 \<le> i" "i < int NR_IRQS" "irq_holder s i = None" by (simp_all add: irq_holder_def)
  moreover have "irq_holder s j \<noteq> None" if "1 \<le> j" "j < i" for j
    using that free(3) free(5) [rule_format, of "nat j"] by (simp add: irq_holder_def free(1) nat_less_iff)
  moreover have "\<exists>s2. lkl_put_irq i u s' = Some s2 \<and> irq_holder s2 = irq_holder s"
    using irqs.put_undoes_get [OF assms] i by simp
  moreover have "fst (lkl_get_free_irq v s') \<noteq> i"
  proof
    assume "fst (lkl_get_free_irq v s') = i"
    then have "lkl_get_free_irq v s' = (i, snd (lkl_get_free_irq v s'))" by (metis prod.collapse)
    with irqs.two_gets_differ [OF assms _ this] i show False by simp
  qed
  moreover from i have "\<exists>j. 1 \<le> j \<and> j < int NR_IRQS \<and> irq_holder s j = None" by blast
  ultimately show ?thesis by simp
next
  case busy
  have "\<not> (\<exists>j. 1 \<le> j \<and> j < int NR_IRQS \<and> irq_holder s j = None)"
  proof
    assume "\<exists>j. 1 \<le> j \<and> j < int NR_IRQS \<and> irq_holder s j = None"
    then obtain j where "1 \<le> j" "j < int NR_IRQS" "irq_holder s j = None" by blast
    with busy(3) [rule_format, of "nat j"] show False
      by (simp add: irq_holder_def nat_less_iff Suc_le_eq)
  qed
  with busy show ?thesis by simp
qed

theorem lkl_get_free_irq_spec_witness:
  "fst (lkl_get_free_irq ''virtio'' irq_init) \<ge> 1 \<and>
   fst (lkl_get_free_irq ''timer'' (snd (lkl_get_free_irq ''virtio'' irq_init))) \<noteq>
   fst (lkl_get_free_irq ''virtio'' irq_init)"
proof -
  have "1 \<le> (1 :: int) \<and> 1 < int NR_IRQS \<and> irq_holder irq_init 1 = None"
    by (simp add: irq_holder_def irq_init_def)
  then have "\<exists>j. 1 \<le> j \<and> j < int NR_IRQS \<and> irq_holder irq_init j = None" by blast
  with lkl_get_free_irq_spec [OF irq_wf_init, of "''virtio''" "fst (lkl_get_free_irq ''virtio'' irq_init)"
      "snd (lkl_get_free_irq ''virtio'' irq_init)" "''timer''"]
  show ?thesis by simp
qed

end
