(* ===== verification/Cpu.thy ===== *)
theory Cpu
  imports Irq
begin

text \<open>
  The "CPU" of the LKL architecture, \<open>arch/lkl/kernel/cpu.c\<close>, which decides which host thread
  may run kernel code, with its two users \<open>lkl_trigger_irq\<close> (\<open>irq.c\<close>) and the hand-over of
  the CPU in \<open>__switch_to\<close> (\<open>threads.c\<close>).

  The code between \<open>mutex_lock (cpu.lock)\<close> and \<open>mutex_unlock (cpu.lock)\<close> is one function on
  the state of the CPU; the atomic updates of \<open>shutdown_gate\<close>, the semaphores and the code that
  runs outside the lock are functions of their own. \<open>cpu_step\<close> interleaves them: each host
  thread has a position in the function it executes, and a step moves one thread. What the kernel
  does while it holds the CPU is nondeterministic: whether a reschedule is needed, which thread the
  scheduler picks and when interrupts are switched on and off.

  Thread identifiers are numbers, 0 is no thread (\<open>cpu.owner == 0\<close>). \<open>None\<close> as the result of
  a function is \<open>lkl_bug\<close>, or the use of the lock after \<open>lkl_cpu_cleanup\<close> has freed it.
\<close>

section \<open>The state of the CPU\<close>

abbreviation (input) MAX_THREADS :: nat where "MAX_THREADS \<equiv> 1000000"

record lkl_cpu =
  lock_live :: bool
  shutdown_gate :: u32
  irqs_pending :: bool
  sleepers :: u32
  cpu_count :: u32
  cpu_owner :: nat
  sem :: nat
  idle_sem :: nat
  idle_pending :: bool
  shutdown_sem :: nat

definition lkl_cpu_init :: lkl_cpu where
  "lkl_cpu_init = \<lparr>lock_live = True, shutdown_gate = 0, irqs_pending = False, sleepers = 0, cpu_count = 0,
     cpu_owner = 0, sem = 0, idle_sem = 0, idle_pending = False, shutdown_sem = 0\<rparr>"

section \<open>Taking the CPU\<close>

text \<open>
  \<open>__cpu_try_get_lock\<close>: the atomic addition to the gate, which tells whether shutdown has
  begun, and the part under the lock; \<open>__cpu_try_get_unlock\<close>: the subtraction.
\<close>

definition try_get_gate :: "u32 \<Rightarrow> lkl_cpu \<Rightarrow> bool \<times> lkl_cpu" where
  "try_get_gate n c = (shutdown_gate c \<ge> of_nat MAX_THREADS, c\<lparr>shutdown_gate := shutdown_gate c + n\<rparr>)"

definition try_get_locked :: "nat \<Rightarrow> lkl_cpu \<Rightarrow> (int \<times> lkl_cpu) option" where
  "try_get_locked self c =
     (if \<not> lock_live c then None
      else if shutdown_gate c \<ge> of_nat MAX_THREADS then Some (- 1, c)
      else if cpu_owner c \<noteq> 0 \<and> cpu_owner c \<noteq> self then Some (0, c)
      else Some (1, c\<lparr>cpu_owner := self, cpu_count := cpu_count c + 1\<rparr>))"

definition try_get_unlock :: "u32 \<Rightarrow> lkl_cpu \<Rightarrow> lkl_cpu" where
  "try_get_unlock n c = c\<lparr>shutdown_gate := shutdown_gate c - n\<rparr>"

text \<open>\<open>lkl_cpu_get\<close> after a refusal: one more sleeper, still under the lock.\<close>

definition get_locked :: "nat \<Rightarrow> lkl_cpu \<Rightarrow> (int \<times> lkl_cpu) option" where
  "get_locked self c = do {
     (ret, c) \<leftarrow> try_get_locked self c;
     Some (ret, if ret = 0 then c\<lparr>sleepers := sleepers c + 1\<rparr> else c)
   }"

text \<open>\<open>lkl_cpu_try_run_irq\<close>: a refusal leaves the interrupt pending for the owner.\<close>

definition try_run_irq_locked :: "int \<Rightarrow> nat \<Rightarrow> lkl_cpu \<Rightarrow> irq_state \<Rightarrow> (int \<times> lkl_cpu \<times> irq_state) option" where
  "try_run_irq_locked irq self c i = do {
     (ret, c) \<leftarrow> try_get_locked self c;
     if ret = 0 then do { i \<leftarrow> set_irq_pending irq i; Some (ret, c\<lparr>irqs_pending := True\<rparr>, i) }
     else Some (ret, c, i)
   }"

section \<open>Giving the CPU back\<close>

text \<open>
  The part of \<open>lkl_cpu_put\<close> under the lock. It ends with the lock released: to run the pending
  interrupts (after which it takes the lock again, \<open>first\<close> is false then), to reschedule, or to return.
  \<open>resched\<close> is the value of \<open>need_resched ()\<close>.
\<close>

datatype put_next = Run_Irqs | Resched | Put_Return

definition put_locked :: "bool \<Rightarrow> bool \<Rightarrow> nat \<Rightarrow> irq_state \<Rightarrow> lkl_cpu \<Rightarrow> (put_next \<times> lkl_cpu) option" where
  "put_locked first resched self i c =
     (if \<not> lock_live c then None
      else if first \<and> (cpu_count c = 0 \<or> cpu_owner c = 0 \<or> cpu_owner c \<noteq> self) then None
      else if irqs_pending c \<and> irqs_enabled i then Some (Run_Irqs, c\<lparr>irqs_pending := False\<rparr>)
      else if resched \<and> cpu_count c = 1 then
        (if in_interrupt i then None else Some (Resched, c))
      else
        let c = c\<lparr>cpu_count := cpu_count c - 1\<rparr> in
        if cpu_count c > 0 then Some (Put_Return, c)
        else
          let c = (if sleepers c \<noteq> 0 then c\<lparr>sleepers := sleepers c - 1, sem := sem c + 1\<rparr> else c) in
          Some (Put_Return, c\<lparr>cpu_owner := 0\<rparr>))"

definition lkl_cpu_change_owner :: "nat \<Rightarrow> lkl_cpu \<Rightarrow> lkl_cpu option" where
  "lkl_cpu_change_owner new c =
     (if \<not> lock_live c \<or> cpu_count c > 1 then None else Some (c\<lparr>cpu_owner := new\<rparr>))"

definition lkl_cpu_wakeup_idle :: "lkl_cpu \<Rightarrow> lkl_cpu" where
  "lkl_cpu_wakeup_idle c = c\<lparr>idle_sem := idle_sem c + 1\<rparr>"

section \<open>Shutdown\<close>

definition lkl_cpu_shutdown :: "lkl_cpu \<Rightarrow> lkl_cpu" where
  "lkl_cpu_shutdown c = c\<lparr>shutdown_gate := shutdown_gate c + of_nat MAX_THREADS\<rparr>"

text \<open>The loop \<open>while (cpu.sleepers--)\<close> of \<open>arch_cpu_idle\<close>: the counter ends at the largest value.\<close>

function wake_sleepers :: "lkl_cpu \<Rightarrow> lkl_cpu" where
  "wake_sleepers c =
     (if sleepers c = 0 then c\<lparr>sleepers := sleepers c - 1\<rparr>
      else wake_sleepers (c\<lparr>sleepers := sleepers c - 1, sem := sem c + 1\<rparr>))"
  by pat_completeness auto
termination
  by (relation "measure (\<lambda>c. unat (sleepers c))") (auto simp: unat_minus_one unat_gt_0)

declare wake_sleepers.simps [simp del]

text \<open>\<open>lkl_cpu_cleanup (true)\<close>: the busy wait ends when the gate is down to \<open>MAX_THREADS\<close>.\<close>

definition cleanup_waits :: "lkl_cpu \<Rightarrow> bool" where
  "cleanup_waits c \<longleftrightarrow> shutdown_gate c > of_nat MAX_THREADS"

definition lkl_cpu_cleanup :: "lkl_cpu \<Rightarrow> lkl_cpu" where
  "lkl_cpu_cleanup c = c\<lparr>shutdown_sem := shutdown_sem c + 1, lock_live := False\<rparr>"

section \<open>The threads\<close>

datatype cpu_call = Get | Trigger int

text \<open>
  Where a thread is: outside the functions of the CPU; past the gate and before the lock; asleep in
  \<open>sem_down (cpu.sem)\<close>; woken and before the gate; before the subtraction from the gate with the result
  to return; in \<open>lkl_trigger_irq\<close> with the CPU; in \<open>lkl_cpu_put\<close> before the lock, running interrupts or
  rescheduling. The boolean argument says that \<open>lkl_cpu_put\<close> was called by
  \<open>arch_cpu_idle\<close>, which then waits for \<open>cpu.idle_sem\<close>.
\<close>

datatype pc = Outside | Locking cpu_call | Sleeping | Retry | Leaving cpu_call int | Running int
  | Putting bool bool | Put_Irqs bool | Switching bool | Idle_Wait | Cleaning | Exited

text \<open>
  \<open>holds\<close> counts how often a thread has taken the CPU and not given it back; \<open>accepted\<close> collects the
  interrupts \<open>lkl_trigger_irq\<close> has taken charge of. Both only record what happened.
\<close>

record lkl_threads =
  cpu :: lkl_cpu
  irqs :: irq_state
  pcs :: "nat \<Rightarrow> pc"
  holds :: "nat \<Rightarrow> nat"
  accepted :: "nat set"

definition threads_start :: "irq_state \<Rightarrow> lkl_threads" where
  "threads_start i = \<lparr>cpu = lkl_cpu_init, irqs = i, pcs = \<lambda>_. Outside, holds = \<lambda>_. 0, accepted = {}\<rparr>"

definition goto :: "nat \<Rightarrow> pc \<Rightarrow> lkl_threads \<Rightarrow> lkl_threads" where
  "goto t p s = s\<lparr>pcs := (pcs s)(t := p)\<rparr>"

definition set_holds :: "nat \<Rightarrow> nat \<Rightarrow> lkl_threads \<Rightarrow> lkl_threads" where
  "set_holds t n s = s\<lparr>holds := (holds s)(t := n)\<rparr>"

definition took :: "nat \<Rightarrow> int \<Rightarrow> lkl_threads \<Rightarrow> lkl_threads" where
  "took t ret s = (if ret = 1 then set_holds t (holds s t + 1) s else s)"

definition accept :: "int \<Rightarrow> bool \<Rightarrow> lkl_threads \<Rightarrow> lkl_threads" where
  "accept irq yes s = (if yes then s\<lparr>accepted := insert (nat irq) (accepted s)\<rparr> else s)"

text \<open>What follows the part of \<open>lkl_cpu_put\<close> under the lock.\<close>

fun put_continue :: "nat \<Rightarrow> bool \<Rightarrow> put_next \<Rightarrow> lkl_threads \<Rightarrow> lkl_threads" where
  "put_continue t idl Run_Irqs s = goto t (Put_Irqs idl) s"
| "put_continue t idl Resched s = goto t (Switching idl) s"
| "put_continue t idl Put_Return s =
     goto t (if idl then Idle_Wait else Outside) (set_holds t (holds s t - 1) s)"

text \<open>The numbers \<open>lkl_trigger_irq\<close> refuses with \<open>- EINVAL\<close>.\<close>

definition trigger_rejected :: "int \<Rightarrow> bool" where
  "trigger_rejected irq \<longleftrightarrow> irq = 0 \<or> irq > int NR_IRQS"

text \<open>\<open>lkl_trigger_irq\<close> with the CPU: the interrupt runs, or stays pending while interrupts are off.\<close>

definition trigger_run ::
  "(nat \<Rightarrow> irq_state \<Rightarrow> irq_state) \<Rightarrow> nat \<Rightarrow> int \<Rightarrow> irq_state \<Rightarrow> irq_state option" where
  "trigger_run handle n irq i =
     (if \<not> irqs_enabled i then set_irq_pending irq i
      else run_irq handle (arch_local_irq_restore n handle) (nat irq) i)"

text \<open>\<open>__switch_to\<close>: the CPU passes to \<open>new\<close>; the idle thread waits for a semaphore of its own.\<close>

definition switch_cpu :: "nat \<Rightarrow> nat \<Rightarrow> lkl_cpu \<Rightarrow> lkl_cpu option" where
  "switch_cpu idle new c =
     (let wakeup_idle = (new = idle \<and> idle_pending c) in do {
        c \<leftarrow> lkl_cpu_change_owner new c;
        Some (if wakeup_idle then lkl_cpu_wakeup_idle c else c)
      })"

text \<open>
  The steps of the threads \<open>T\<close>, one of which is the idle thread. The interrupt numbers are those that
  \<open>lkl_get_free_irq\<close> hands out, \<open>handle\<close> is the kernel's handler and \<open>n\<close> the
  depth up to which the delivery of interrupts nests. A thread gives the CPU back, passes it on,
  switches interrupts or halts the kernel only when it holds the CPU, and does not nest \<open>lkl_cpu_get\<close>
  \<open>2 ^ 32\<close> times.
\<close>

inductive cpu_step ::
  "nat set \<Rightarrow> nat \<Rightarrow> (nat \<Rightarrow> irq_state \<Rightarrow> irq_state) \<Rightarrow> lkl_threads \<Rightarrow> lkl_threads \<Rightarrow> bool"
  for T idle handle where
  get: "t \<in> T \<Longrightarrow> pcs s t = Outside \<Longrightarrow> Suc (holds s t) < 2 ^ 32 \<Longrightarrow> try_get_gate 1 (cpu s) = (down, c) \<Longrightarrow>
    cpu_step T idle handle s (goto t (if down then Leaving Get (- 2) else Locking Get) (s\<lparr>cpu := c\<rparr>))"
| trigger: "t \<in> T \<Longrightarrow> pcs s t = Outside \<Longrightarrow> Suc (holds s t) < 2 ^ 32 \<Longrightarrow> \<not> trigger_rejected irq \<Longrightarrow>
    0 < irq \<Longrightarrow> irq < int NR_IRQS \<Longrightarrow>
    try_get_gate 1 (cpu s) = (down, c) \<Longrightarrow>
    cpu_step T idle handle s
      (goto t (if down then Leaving (Trigger irq) (- 2) else Locking (Trigger irq)) (s\<lparr>cpu := c\<rparr>))"
| lock_get: "pcs s t = Locking Get \<Longrightarrow> get_locked t (cpu s) = Some (ret, c) \<Longrightarrow>
    cpu_step T idle handle s (goto t (if ret = 0 then Sleeping else Leaving Get ret) (took t ret (s\<lparr>cpu := c\<rparr>)))"
| lock_trigger: "pcs s t = Locking (Trigger irq) \<Longrightarrow>
    try_run_irq_locked irq t (cpu s) (irqs s) = Some (ret, c, i) \<Longrightarrow>
    cpu_step T idle handle s
      (goto t (Leaving (Trigger irq) ret) (took t ret (accept irq (ret = 0) (s\<lparr>cpu := c, irqs := i\<rparr>))))"
| sleep: "pcs s t = Sleeping \<Longrightarrow> 0 < sem (cpu s) \<Longrightarrow>
    cpu_step T idle handle s (goto t Retry (s\<lparr>cpu := (cpu s)\<lparr>sem := sem (cpu s) - 1\<rparr>\<rparr>))"
| retry: "pcs s t = Retry \<Longrightarrow> try_get_gate 0 (cpu s) = (down, c) \<Longrightarrow>
    cpu_step T idle handle s (goto t (if down then Leaving Get (- 2) else Locking Get) (s\<lparr>cpu := c\<rparr>))"
| leave_get: "pcs s t = Leaving Get ret \<Longrightarrow>
    cpu_step T idle handle s (goto t Outside (s\<lparr>cpu := try_get_unlock 1 (cpu s)\<rparr>))"
| leave_trigger: "pcs s t = Leaving (Trigger irq) ret \<Longrightarrow>
    cpu_step T idle handle s
      (goto t (if ret = 1 then Running irq else Outside) (s\<lparr>cpu := try_get_unlock 1 (cpu s)\<rparr>))"
| run: "pcs s t = Running irq \<Longrightarrow> trigger_run handle n irq (irqs s) = Some i \<Longrightarrow>
    cpu_step T idle handle s (goto t (Putting True False) (accept irq True (s\<lparr>irqs := i\<rparr>)))"
| put: "pcs s t = Outside \<Longrightarrow> 0 < holds s t \<Longrightarrow> cpu_step T idle handle s (goto t (Putting True False) s)"
| put_lock: "pcs s t = Putting first idl \<Longrightarrow> put_locked first resched t (irqs s) (cpu s) = Some (next, c) \<Longrightarrow>
    cpu_step T idle handle s (put_continue t idl next (s\<lparr>cpu := c\<rparr>))"
| put_irqs: "pcs s t = Put_Irqs idl \<Longrightarrow> run_irqs handle (arch_local_irq_restore n handle) (irqs s) = Some i \<Longrightarrow>
    cpu_step T idle handle s (goto t (Putting False idl) (s\<lparr>irqs := i\<rparr>))"
| switch: "pcs s t = Switching idl \<Longrightarrow> new \<in> T \<Longrightarrow> new \<noteq> t \<Longrightarrow> pcs s new = Outside \<or> pcs s new = Idle_Wait \<Longrightarrow>
    switch_cpu idle new (cpu s) = Some c \<Longrightarrow>
    cpu_step T idle handle s
      (goto t (if idl then Idle_Wait else Outside) (set_holds new 1 (set_holds t 0 (s\<lparr>cpu := c\<rparr>))))"
| hand_over: "pcs s t = Outside \<Longrightarrow> holds s t = 1 \<Longrightarrow> new \<in> T \<Longrightarrow> new \<noteq> t \<Longrightarrow>
    pcs s new = Outside \<or> pcs s new = Idle_Wait \<Longrightarrow> switch_cpu idle new (cpu s) = Some c \<Longrightarrow>
    cpu_step T idle handle s (set_holds new 1 (set_holds t 0 (s\<lparr>cpu := c\<rparr>)))"
| kernel: "pcs s t = Outside \<Longrightarrow> 0 < holds s t \<Longrightarrow> arch_local_irq_restore n handle flags (irqs s) = Some i \<Longrightarrow>
    cpu_step T idle handle s (s\<lparr>irqs := i\<rparr>)"
| idle: "pcs s idle = Outside \<Longrightarrow> holds s idle = 1 \<Longrightarrow> \<not> shutdown_gate (cpu s) \<ge> of_nat MAX_THREADS \<Longrightarrow>
    arch_local_irq_restore n handle True (irqs s) = Some i \<Longrightarrow>
    cpu_step T idle handle s
      (goto idle (Putting True True) (s\<lparr>cpu := (cpu s)\<lparr>idle_pending := True\<rparr>, irqs := i\<rparr>))"
| idle_wake: "pcs s idle = Idle_Wait \<Longrightarrow> 0 < idle_sem (cpu s) \<Longrightarrow>
    cpu_step T idle handle s
      (goto idle Outside (s\<lparr>cpu := (cpu s)\<lparr>idle_sem := idle_sem (cpu s) - 1, idle_pending := False\<rparr>\<rparr>))"
| shutdown: "pcs s t = Outside \<Longrightarrow> 0 < holds s t \<Longrightarrow> shutdown_gate (cpu s) < of_nat MAX_THREADS \<Longrightarrow>
    cpu_step T idle handle s (s\<lparr>cpu := lkl_cpu_shutdown (cpu s)\<rparr>)"
| idle_shutdown: "pcs s idle = Outside \<Longrightarrow> holds s idle = 1 \<Longrightarrow> shutdown_gate (cpu s) \<ge> of_nat MAX_THREADS \<Longrightarrow>
    cpu_step T idle handle s (goto idle Cleaning (s\<lparr>cpu := wake_sleepers (cpu s)\<rparr>))"
| cleanup: "pcs s idle = Cleaning \<Longrightarrow> \<not> cleanup_waits (cpu s) \<Longrightarrow>
    cpu_step T idle handle s (goto idle Exited (s\<lparr>cpu := lkl_cpu_cleanup (cpu s)\<rparr>))"

abbreviation cpu_steps ::
  "nat set \<Rightarrow> nat \<Rightarrow> (nat \<Rightarrow> irq_state \<Rightarrow> irq_state) \<Rightarrow> lkl_threads \<Rightarrow> lkl_threads \<Rightarrow> bool" where
  "cpu_steps T idle handle \<equiv> (cpu_step T idle handle)\<^sup>*\<^sup>*"

end
