(* ===== verification/Cpu_Inv.thy ===== *)
theory Cpu_Inv
  imports Cpu
begin

text \<open>
  What the synchronisation of \<open>cpu.c\<close> achieves: at most one thread holds the CPU, no branch
  that reports a bug is reached, no wake-up is lost, no accepted interrupt is lost, and shutdown frees the
  lock only when no thread can still use it.
\<close>

lemma goto_simps [simp]:
  "pcs (goto t p s) = (pcs s)(t := p)" "cpu (goto t p s) = cpu s" "irqs (goto t p s) = irqs s"
  "holds (goto t p s) = holds s" "accepted (goto t p s) = accepted s"
  by (simp_all add: goto_def)

lemma set_holds_simps [simp]:
  "pcs (set_holds t n s) = pcs s" "cpu (set_holds t n s) = cpu s" "irqs (set_holds t n s) = irqs s"
  "holds (set_holds t n s) = (holds s)(t := n)" "accepted (set_holds t n s) = accepted s"
  by (simp_all add: set_holds_def)

lemma took_simps [simp]:
  "pcs (took t ret s) = pcs s" "cpu (took t ret s) = cpu s" "irqs (took t ret s) = irqs s"
  "holds (took t ret s) = (if ret = 1 then (holds s)(t := holds s t + 1) else holds s)" "accepted (took t ret s) = accepted s"
  by (simp_all add: took_def)

lemma accept_simps [simp]:
  "pcs (accept irq b s) = pcs s" "cpu (accept irq b s) = cpu s" "irqs (accept irq b s) = irqs s"
  "holds (accept irq b s) = holds s" "accepted (accept irq b s) = (if b then insert (nat irq) (accepted s) else accepted s)"
  by (simp_all add: accept_def)

lemma put_continue_simps [simp]:
  "cpu (put_continue t idl nx s) = cpu s" "irqs (put_continue t idl nx s) = irqs s" "accepted (put_continue t idl nx s) = accepted s"
  "pcs (put_continue t idl nx s) = (pcs s)(t := (case nx of Run_Irqs \<Rightarrow> Put_Irqs idl | Resched \<Rightarrow> Switching idl
     | Put_Return \<Rightarrow> if idl then Idle_Wait else Outside))"
  "holds (put_continue t idl nx s) = (if nx = Put_Return then (holds s)(t := holds s t - 1) else holds s)"
  by (cases nx; simp)+

section \<open>Who holds the CPU\<close>

definition hold_inv :: "lkl_cpu \<Rightarrow> (nat \<Rightarrow> nat) \<Rightarrow> bool" where
  "hold_inv c h \<longleftrightarrow> (\<forall>t. t \<noteq> cpu_owner c \<longrightarrow> h t = 0) \<and> (cpu_owner c \<noteq> 0 \<longrightarrow> 0 < h (cpu_owner c)) \<and>
     h 0 = 0 \<and> unat (cpu_count c) = h (cpu_owner c)"

text \<open>What the position of a thread says about how often it holds the CPU.\<close>

fun pc_ok :: "pc \<Rightarrow> nat \<Rightarrow> bool" where
  "pc_ok (Locking call) n \<longleftrightarrow> Suc n < 2 ^ 32 \<and> (case call of Get \<Rightarrow> True | Trigger irq \<Rightarrow> 0 < irq \<and> irq < int NR_IRQS)"
| "pc_ok Sleeping n \<longleftrightarrow> n = 0"
| "pc_ok Retry n \<longleftrightarrow> n = 0"
| "pc_ok (Leaving call ret) n \<longleftrightarrow> (ret = 1 \<longrightarrow> 0 < n) \<and> (case call of Get \<Rightarrow> True | Trigger irq \<Rightarrow> 0 < irq \<and> irq < int NR_IRQS)"
| "pc_ok (Running irq) n \<longleftrightarrow> 0 < n \<and> 0 < irq \<and> irq < int NR_IRQS"
| "pc_ok (Putting first idl) n \<longleftrightarrow> 0 < n \<and> (idl \<longrightarrow> n = 1)"
| "pc_ok (Put_Irqs idl) n \<longleftrightarrow> 0 < n \<and> (idl \<longrightarrow> n = 1)"
| "pc_ok (Switching idl) n \<longleftrightarrow> n = 1"
| "pc_ok Idle_Wait n \<longleftrightarrow> n \<le> 1"
| "pc_ok Cleaning n \<longleftrightarrow> n = 1"
| "pc_ok Exited n \<longleftrightarrow> n = 1"
| "pc_ok Outside n \<longleftrightarrow> True"

definition own_inv :: "nat set \<Rightarrow> lkl_threads \<Rightarrow> bool" where
  "own_inv T s \<longleftrightarrow> hold_inv (cpu s) (holds s) \<and> (\<forall>t. pc_ok (pcs s t) (holds s t)) \<and>
     (\<forall>t. t \<notin> T \<longrightarrow> pcs s t = Outside \<and> holds s t = 0)"

lemma hold_invD:
  assumes "hold_inv c h" "0 < h t"
  shows "cpu_owner c = t" "t \<noteq> 0" "unat (cpu_count c) = h t"
proof -
  show o: "cpu_owner c = t" using assms unfolding hold_inv_def by (metis less_irrefl)
  show "t \<noteq> 0" using assms unfolding hold_inv_def by (metis less_irrefl)
  show "unat (cpu_count c) = h t" using assms o by (simp add: hold_inv_def)
qed

lemma hold_try_get:
  assumes "hold_inv c h" "t \<noteq> 0" "Suc (h t) < 2 ^ 32" "try_get_locked t c = Some (ret, c')"
  shows "hold_inv c' (if ret = 1 then h(t := h t + 1) else h)"
    "ret = 0 \<Longrightarrow> h t = 0 \<and> cpu_owner c \<noteq> 0" "ret \<in> {- 1, 0, 1}"
    "shutdown_gate c' = shutdown_gate c" "sleepers c' = sleepers c" "sem c' = sem c" "lock_live c'" "lock_live c"
    "idle_pending c' = idle_pending c" "idle_sem c' = idle_sem c" "ret = 1 \<Longrightarrow> cpu_owner c' = t" "ret \<noteq> 1 \<Longrightarrow> c' = c"
    "ret = -1 \<longleftrightarrow> shutdown_gate c \<ge> of_nat MAX_THREADS"
proof -
  have z: "h u = 0" if "u \<noteq> cpu_owner c" for u using assms(1) that by (simp add: hold_inv_def)
  have z0: "h u = 0" if "cpu_owner c = 0" for u using assms(1) that by (cases u) (auto simp: hold_inv_def)
  have "unat (cpu_count c + 1) = Suc (h t)" if "cpu_owner c = 0 \<or> cpu_owner c = t"
  proof -
    have "unat (cpu_count c) = h t" using assms(1,2) that by (auto simp: hold_inv_def)
    with assms(3) have "unat (cpu_count c) + 1 < 2 ^ LENGTH(32)" by simp
    then show ?thesis using \<open>unat (cpu_count c) = h t\<close> by (simp add: unat_add_lem [THEN iffD1])
  qed
  then show "hold_inv c' (if ret = 1 then h(t := h t + 1) else h)"
    using assms z z0 by (auto simp: try_get_locked_def hold_inv_def split: if_splits)
qed (use assms in \<open>auto simp: try_get_locked_def hold_inv_def split: if_splits\<close>)

lemma word_minus_1_nat: "(w :: 'a::len word) \<noteq> 0 \<Longrightarrow> unat (w - 1) = unat w - 1"
  by (simp add: unat_minus_one)

lemma hold_put:
  assumes "hold_inv c h" "0 < h t" "put_locked first resched t i c = Some (nx, c')"
  shows "hold_inv c' (if nx = Put_Return then h(t := h t - 1) else h)"
    "nx = Resched \<Longrightarrow> h t = 1"
proof -
  note o = hold_invD [OF assms(1,2)]
  then have n: "cpu_count c \<noteq> 0" using assms(2) by (metis unat_0 less_irrefl)
  have "cpu_count c = 1 \<longleftrightarrow> h t = 1" using o by (metis unat_1 unsigned_1 word_unat_eq_iff)
  moreover have "unat (cpu_count c - 1) = h t - 1" using n o by (simp add: word_minus_1_nat)
  moreover have "cpu_count c - 1 > 0 \<longleftrightarrow> h t - 1 > 0" using calculation(2) by (metis unat_gt_0 word_gt_0)
  ultimately show "hold_inv c' (if nx = Put_Return then h(t := h t - 1) else h)" "nx = Resched \<Longrightarrow> h t = 1"
    using assms o by (auto simp: put_locked_def hold_inv_def Let_def split: if_splits)
qed

lemma hold_switch:
  assumes "hold_inv c h" "h t = 1" "new \<noteq> 0" "new \<noteq> t" "switch_cpu idle new c = Some c'"
  shows "hold_inv c' (h(t := 0, new := 1))"
proof -
  have "0 < h t" using assms(2) by simp
  note o = hold_invD [OF assms(1) this]
  show ?thesis using assms o
    by (auto simp: switch_cpu_def lkl_cpu_change_owner_def lkl_cpu_wakeup_idle_def hold_inv_def Let_def split: if_splits)
qed

lemma wake_sleepers_eq:
  "wake_sleepers c = c\<lparr>sleepers := - 1, sem := sem c + unat (sleepers c)\<rparr>"
proof (induction c rule: wake_sleepers.induct)
  case (1 c)
  show ?case
    by (subst wake_sleepers.simps) (auto simp: 1 [simplified] word_minus_1_nat unat_gt_0 Suc_diff_1 intro!: arg_cong2 [where f = "\<lambda>a b. c\<lparr>sleepers := a, sem := b\<rparr>"])
qed

section \<open>The invariant of ownership\<close>

lemma own_upd:
  assumes "own_inv T s" "t \<in> T" "hold_inv (cpu s') (holds s')" "pcs s' = (pcs s)(t := p)" "pc_ok p (holds s' t)"
    and "\<And>u. u \<noteq> t \<Longrightarrow> holds s' u = holds s u"
  shows "own_inv T s'"
  using assms by (auto simp: own_inv_def)

lemma own_in:
  "own_inv T s \<Longrightarrow> pcs s t \<noteq> Outside \<Longrightarrow> t \<in> T" "own_inv T s \<Longrightarrow> 0 < holds s t \<Longrightarrow> t \<in> T"
  by (auto simp: own_inv_def)

lemma own_holds: "own_inv T s \<Longrightarrow> pc_ok (pcs s t) (holds s t)" "own_inv T s \<Longrightarrow> hold_inv (cpu s) (holds s)"
  by (auto simp: own_inv_def)

lemma hold_cong:
  "hold_inv c h \<Longrightarrow> cpu_owner c' = cpu_owner c \<Longrightarrow> cpu_count c' = cpu_count c \<Longrightarrow> hold_inv c' h"
  by (simp add: hold_inv_def)

lemma own_move:
  assumes "own_inv T s" "pcs s' = (pcs s)(t := p)" "holds s' = holds s"
    and "cpu_owner (cpu s') = cpu_owner (cpu s)" "cpu_count (cpu s') = cpu_count (cpu s)"
    and "t \<in> T \<or> pcs s t \<noteq> Outside \<or> 0 < holds s t" "pc_ok (pcs s t) (holds s t) \<Longrightarrow> pc_ok p (holds s t)"
  shows "own_inv T s'"
  using assms own_holds [OF assms(1)] own_in [OF assms(1), of t] hold_cong
  by (intro own_upd [OF assms(1) _ _ assms(2)]) auto

lemma own_step_lock:
  assumes "own_inv T s" "0 \<notin> T" "pcs s t = Locking call" "try_get_locked t (cpu s) = Some (ret, c)"
    and "cpu_owner (cpu s') = cpu_owner c" "cpu_count (cpu s') = cpu_count c"
    and "pcs s' = (pcs s)(t := p)" "p = Leaving call ret \<or> ret = 0 \<and> p = Sleeping"
    and "holds s' = (if ret = 1 then (holds s)(t := holds s t + 1) else holds s)"
  shows "own_inv T s'"
proof (rule own_upd [OF assms(1) _ _ assms(7)])
  show "t \<in> T" using own_in(1) [OF assms(1)] assms(3) by simp
  then have pt: "t \<noteq> 0" "Suc (holds s t) < 2 ^ 32" using assms(2) own_holds(1) [OF assms(1), of t] assms(3) by (metis, simp)
  note g = hold_try_get [OF own_holds(2) [OF assms(1)] pt assms(4)]
  show "hold_inv (cpu s') (holds s')" using g(1) assms(5,6,9) hold_cong by simp
  show "pc_ok p (holds s' t)" using own_holds(1) [OF assms(1), of t] assms(3,8,9) g(2) by (auto split: cpu_call.splits)
qed (use assms(9) in auto)

lemma own_step_switch:
  assumes "own_inv T s" "0 \<notin> T" "holds s t = 1" "new \<in> T" "new \<noteq> t" "pcs s new = Outside \<or> pcs s new = Idle_Wait"
    and "switch_cpu idle new (cpu s) = Some (cpu s')" "holds s' = (holds s)(t := 0, new := 1)"
    and "pcs s' = (pcs s)(t := p)" "p = Outside \<or> p = Idle_Wait"
  shows "own_inv T s'"
proof -
  have "t \<in> T" using own_in(2) [OF assms(1), of t] assms(3) by simp
  moreover have "hold_inv (cpu s') (holds s')"
    using hold_switch [OF own_holds(2) [OF assms(1)] assms(3) _ assms(5,7)] assms(2,4,8) by auto
  ultimately show ?thesis using assms by (auto simp: own_inv_def)
qed

lemma own_step:
  assumes "cpu_step T idle handle s s'" "own_inv T s" "0 \<notin> T"
  shows "own_inv T s'"
  using assms(1)
proof cases
  case (get t down c)
  then show ?thesis using assms(2,3) by (auto simp: own_inv_def try_get_gate_def hold_inv_def)
next
  case (trigger t irq down c)
  then show ?thesis using assms(2,3) by (auto simp: own_inv_def try_get_gate_def hold_inv_def)
next
  case (lock_get t ret c)
  then obtain c1 where "try_get_locked t (cpu s) = Some (ret, c1)" "c = (if ret = 0 then c1\<lparr>sleepers := sleepers c1 + 1\<rparr> else c1)"
    by (auto simp: get_locked_def split: bind_splits)
  note t = this
  show ?thesis by (rule own_step_lock [OF assms(2,3) lock_get(2) t(1), where p = "if ret = 0 then Sleeping else Leaving Get ret"]) (use t lock_get(1) in \<open>auto split: if_splits\<close>)
next
  case (lock_trigger t irq ret c i)
  then obtain c1 where "try_get_locked t (cpu s) = Some (ret, c1)" "c = (if ret = 0 then c1\<lparr>irqs_pending := True\<rparr> else c1)"
    by (auto simp: try_run_irq_locked_def split: bind_splits if_splits)
  note t = this
  show ?thesis by (rule own_step_lock [OF assms(2,3) lock_trigger(2) t(1)]) (use t lock_trigger(1) in auto)
next
  case (put_lock t first idl resched nx c)
  have h: "0 < holds s t" "idl \<Longrightarrow> holds s t = 1" using own_holds(1) [OF assms(2), of t] put_lock(2) by auto
  note p = hold_put [OF own_holds(2) [OF assms(2)] h(1) put_lock(3)]
  show ?thesis
    by (rule own_upd [OF assms(2) own_in(2) [OF assms(2) h(1)]]) (use p h put_lock in \<open>auto split: put_next.splits\<close>)
next
  case (switch t idl new c)
  have "holds s t = 1" using own_holds(1) [OF assms(2), of t] switch(2) by auto
  with switch show ?thesis
    by (intro own_step_switch [OF assms(2,3), where p = "if idl then Idle_Wait else Outside"]) auto
next
  case (hand_over t new c)
  then show ?thesis by (intro own_step_switch [OF assms(2,3), where p = Outside]) auto
next
  case (sleep t)
  then show ?thesis by (intro own_move [OF assms(2), of s' t Retry]) auto
next
  case (retry t down c)
  then show ?thesis by (intro own_move [OF assms(2), of s' t "if down then Leaving Get (- 2) else Locking Get"]) (auto simp: try_get_gate_def)
next
  case (leave_get t ret)
  then show ?thesis by (intro own_move [OF assms(2), of s' t Outside]) (auto simp: try_get_unlock_def)
next
  case (leave_trigger t irq ret)
  then show ?thesis by (intro own_move [OF assms(2), of s' t "if ret = 1 then Running irq else Outside"]) (auto simp: try_get_unlock_def)
next
  case (run t irq n i)
  then show ?thesis by (intro own_move [OF assms(2), of s' t "Putting True False"]) auto
next
  case (put t)
  then show ?thesis by (intro own_move [OF assms(2), of s' t "Putting True False"]) auto
next
  case (put_irqs t idl n i)
  then show ?thesis by (intro own_move [OF assms(2), of s' t "Putting False idl"]) auto
next
  case (kernel t n flags i)
  then show ?thesis by (intro own_move [OF assms(2), of s' t Outside]) (auto simp: fun_upd_idem)
next
  case (idle n i)
  then show ?thesis by (intro own_move [OF assms(2), of s' idle "Putting True True"]) auto
next
  case idle_wake
  then show ?thesis by (intro own_move [OF assms(2), of s' idle Outside]) auto
next
  case (shutdown t)
  then show ?thesis by (intro own_move [OF assms(2), of s' t Outside]) (auto simp: fun_upd_idem lkl_cpu_shutdown_def)
next
  case idle_shutdown
  then show ?thesis by (intro own_move [OF assms(2), of s' idle Cleaning]) (auto simp: wake_sleepers_eq)
next
  case cleanup
  then show ?thesis by (intro own_move [OF assms(2), of s' idle Exited]) (auto simp: lkl_cpu_cleanup_def)
qed

section \<open>Counting threads\<close>

definition pc_count :: "nat set \<Rightarrow> (pc \<Rightarrow> bool) \<Rightarrow> (nat \<Rightarrow> pc) \<Rightarrow> nat" where
  "pc_count T P f = card {t \<in> T. P (f t)}"

lemma pc_count_upd:
  assumes "finite T" "t \<in> T"
  shows "pc_count T P (f(t := p)) + of_bool (P (f t)) = pc_count T P f + of_bool (P p)"
proof -
  have "{u \<in> T. P ((f(t := p)) u)} = {u \<in> T - {t}. P (f u)} \<union> {u. u = t \<and> P p}" using assms(2) by auto
  moreover have "{u \<in> T. P (f u)} = {u \<in> T - {t}. P (f u)} \<union> {u. u = t \<and> P (f t)}" using assms(2) by auto
  ultimately show ?thesis using assms(1) by (simp add: pc_count_def card_Un_disjoint)
qed

lemma pc_count_le: "finite T \<Longrightarrow> pc_count T P f \<le> card T"
  unfolding pc_count_def by (rule card_mono) auto

lemma pc_count_mono: "finite T \<Longrightarrow> (\<And>p. P p \<Longrightarrow> Q p) \<Longrightarrow> pc_count T P f \<le> pc_count T Q f"
  unfolding pc_count_def by (rule card_mono) auto

lemma pc_count_pos: "finite T \<Longrightarrow> t \<in> T \<Longrightarrow> P (f t) \<Longrightarrow> 0 < pc_count T P f"
  unfolding pc_count_def by (auto simp: card_gt_0_iff)

lemma pc_count_ex: "0 < pc_count T P f \<Longrightarrow> \<exists>t \<in> T. P (f t)"
  unfolding pc_count_def by (auto simp: card_gt_0_iff)

section \<open>The gate\<close>

fun gated :: "pc \<Rightarrow> bool" where
  "gated (Locking call) \<longleftrightarrow> True"
| "gated Sleeping \<longleftrightarrow> True"
| "gated Retry \<longleftrightarrow> True"
| "gated (Leaving call ret) \<longleftrightarrow> True"
| "gated _ \<longleftrightarrow> False"

definition gate_inv :: "nat set \<Rightarrow> lkl_threads \<Rightarrow> bool" where
  "gate_inv T s \<longleftrightarrow> unat (shutdown_gate (cpu s)) = pc_count T gated (pcs s) \<or>
     unat (shutdown_gate (cpu s)) = pc_count T gated (pcs s) + MAX_THREADS"

text \<open>Threads that are about to use the lock or the semaphore.\<close>

fun lock_user :: "pc \<Rightarrow> bool" where
  "lock_user (Locking call) \<longleftrightarrow> True"
| "lock_user Sleeping \<longleftrightarrow> True"
| "lock_user Retry \<longleftrightarrow> True"
| "lock_user _ \<longleftrightarrow> False"

fun idle_pc :: "pc \<Rightarrow> bool" where
  "idle_pc (Putting first idl) \<longleftrightarrow> idl"
| "idle_pc (Put_Irqs idl) \<longleftrightarrow> idl"
| "idle_pc (Switching idl) \<longleftrightarrow> idl"
| "idle_pc Idle_Wait \<longleftrightarrow> True"
| "idle_pc _ \<longleftrightarrow> False"

definition idle_inv :: "nat \<Rightarrow> lkl_threads \<Rightarrow> bool" where
  "idle_inv idle s \<longleftrightarrow>
     (\<forall>t. t \<noteq> idle \<longrightarrow> \<not> idle_pc (pcs s t) \<and> pcs s t \<noteq> Cleaning \<and> pcs s t \<noteq> Exited) \<and>
     (idle_pending (cpu s) \<longleftrightarrow> idle_pc (pcs s idle)) \<and>
     idle_sem (cpu s) = (if pcs s idle = Idle_Wait then holds s idle else 0)"

text \<open>Once the idle thread cleans up, it holds the CPU and shutdown has begun, so that no other thread
  gives the CPU back or goes to sleep.\<close>

definition closing :: "nat \<Rightarrow> lkl_threads \<Rightarrow> bool" where
  "closing idle s \<longleftrightarrow> pcs s idle = Cleaning \<or> pcs s idle = Exited"

definition sleep_inv :: "nat set \<Rightarrow> nat \<Rightarrow> lkl_threads \<Rightarrow> bool" where
  "sleep_inv T idle s \<longleftrightarrow>
     (if closing idle s then sem (cpu s) = pc_count T (\<lambda>p. p = Sleeping) (pcs s)
      else unat (sleepers (cpu s)) + sem (cpu s) = pc_count T (\<lambda>p. p = Sleeping) (pcs s))"

definition live_inv :: "nat \<Rightarrow> lkl_threads \<Rightarrow> bool" where
  "live_inv idle s \<longleftrightarrow> (lock_live (cpu s) \<longleftrightarrow> pcs s idle \<noteq> Exited) \<and>
     (closing idle s \<longrightarrow> shutdown_gate (cpu s) \<ge> of_nat MAX_THREADS) \<and>
     (pcs s idle = Exited \<longrightarrow> (\<forall>t. \<not> lock_user (pcs s t)))"

definition wake_inv :: "lkl_threads \<Rightarrow> bool" where
  "wake_inv s \<longleftrightarrow> (\<not> shutdown_gate (cpu s) \<ge> of_nat MAX_THREADS \<and> cpu_owner (cpu s) = 0 \<and> sleepers (cpu s) \<noteq> 0 \<longrightarrow>
     0 < sem (cpu s) \<or> (\<exists>t. pcs s t = Retry \<or> pcs s t = Locking Get))"

text \<open>The threads the model runs: fewer than \<open>MAX_THREADS\<close>, none of them 0, and the idle thread among them.\<close>

definition cpu_threads :: "nat set \<Rightarrow> nat \<Rightarrow> bool" where
  "cpu_threads T idle \<longleftrightarrow> finite T \<and> card T < MAX_THREADS \<and> 0 \<notin> T \<and> idle \<in> T"

definition down :: "lkl_cpu \<Rightarrow> bool" where
  "down c \<longleftrightarrow> shutdown_gate c \<ge> of_nat MAX_THREADS"

lemma down_nat: "down c \<longleftrightarrow> MAX_THREADS \<le> unat (shutdown_gate c)"
  by (simp add: down_def word_le_nat_alt)

lemma gate_down:
  assumes "cpu_threads T idle" "gate_inv T s"
  shows "unat (shutdown_gate (cpu s)) = pc_count T gated (pcs s) + (if down (cpu s) then MAX_THREADS else 0)"
    "pc_count T gated (pcs s) < MAX_THREADS" "unat (shutdown_gate (cpu s)) < 2 * MAX_THREADS"
proof -
  show l: "pc_count T gated (pcs s) < MAX_THREADS"
    using assms(1) pc_count_le [of T gated "pcs s"] by (simp add: cpu_threads_def)
  show g: "unat (shutdown_gate (cpu s)) = pc_count T gated (pcs s) + (if down (cpu s) then MAX_THREADS else 0)"
    using assms(2) l unfolding gate_inv_def down_nat by presburger
  show "unat (shutdown_gate (cpu s)) < 2 * MAX_THREADS" using g l by simp
qed

lemma gate_word:
  assumes "unat (g :: u32) < 2 * MAX_THREADS"
  shows "unat (g + 1) = Suc (unat g)" "unat (g + of_nat MAX_THREADS) = unat g + MAX_THREADS"
    "0 < unat g \<Longrightarrow> unat (g - 1) = unat g - 1"
  using assms by (simp_all add: unat_word_ariths unat_gt_0 word_minus_1_nat)

lemma gate_upd:
  assumes "cpu_threads T idle" "gate_inv T s" "t \<in> T" "pcs s' = (pcs s)(t := p)"
    and "unat (shutdown_gate (cpu s')) + of_bool (gated (pcs s t)) = unat (shutdown_gate (cpu s)) + of_bool (gated p)"
  shows "gate_inv T s'"
  using assms pc_count_upd [of T t gated "pcs s" p] by (auto simp: gate_inv_def cpu_threads_def)

lemma gate_leave:
  assumes "cpu_threads T idle" "gate_inv T s" "t \<in> T" "gated (pcs s t)"
  shows "Suc (unat (shutdown_gate (cpu s) - 1)) = unat (shutdown_gate (cpu s))"
  using gate_down [OF assms(1,2)] gate_word [of "shutdown_gate (cpu s)"] pc_count_pos [of T t gated "pcs s"] assms
  by (simp add: cpu_threads_def)

text \<open>What the operations under the lock leave alone.\<close>

lemma put_locked_frame:
  assumes "put_locked first resched t i c = Some (nx, c')"
  shows "shutdown_gate c' = shutdown_gate c" "lock_live c' = lock_live c" "lock_live c" "idle_sem c' = idle_sem c"
    "idle_pending c' = idle_pending c" "unat (sleepers c') + sem c' = unat (sleepers c) + sem c"
    "nx \<noteq> Put_Return \<Longrightarrow> cpu_owner c' = cpu_owner c" "sleepers c' \<noteq> 0 \<Longrightarrow> cpu_owner c' = 0 \<Longrightarrow> cpu_owner c \<noteq> 0 \<Longrightarrow> 0 < sem c'"
  using assms by (auto simp: put_locked_def Let_def word_minus_1_nat unat_gt_0 split: if_splits)

lemma switch_cpu_frame:
  assumes "switch_cpu idle new c = Some c'"
  shows "shutdown_gate c' = shutdown_gate c" "lock_live c' = lock_live c" "lock_live c" "sleepers c' = sleepers c" "sem c' = sem c"
    "idle_pending c' = idle_pending c" "idle_sem c' = (if new = idle \<and> idle_pending c then idle_sem c + 1 else idle_sem c)"
    "cpu_owner c' = new"
  using assms by (auto simp: switch_cpu_def Let_def lkl_cpu_change_owner_def lkl_cpu_wakeup_idle_def split: if_splits)

lemma get_locked_frame:
  assumes "get_locked t c = Some (ret, c')"
  shows "shutdown_gate c' = shutdown_gate c" "lock_live c' = lock_live c" "lock_live c" "idle_sem c' = idle_sem c"
    "idle_pending c' = idle_pending c" "sem c' = sem c" "sleepers c' = (if ret = 0 then sleepers c + 1 else sleepers c)"
    "ret = 0 \<Longrightarrow> cpu_owner c' = cpu_owner c \<and> cpu_owner c \<noteq> 0" "\<not> down c \<Longrightarrow> cpu_owner c' \<noteq> 0 \<or> t = 0" "ret = 0 \<Longrightarrow> \<not> down c"
  using assms by (auto simp: get_locked_def try_get_locked_def down_def split: if_splits)

lemma try_run_irq_frame:
  assumes "try_run_irq_locked irq t c i = Some (ret, c', i')"
  shows "shutdown_gate c' = shutdown_gate c" "lock_live c' = lock_live c" "lock_live c" "idle_sem c' = idle_sem c"
    "idle_pending c' = idle_pending c" "sem c' = sem c" "sleepers c' = sleepers c" "cpu_owner c \<noteq> 0 \<Longrightarrow> cpu_owner c' \<noteq> 0"
    "ret = 0 \<Longrightarrow> set_irq_pending irq i = Some i'" "ret \<noteq> 0 \<Longrightarrow> i' = i"
  using assms by (auto simp: try_run_irq_locked_def try_get_locked_def split: if_splits bind_splits)

lemmas cpu_frames = put_locked_frame switch_cpu_frame get_locked_frame try_run_irq_frame

lemma gate_step:
  assumes "cpu_step T idle handle s s'" "cpu_threads T idle" "own_inv T s" "gate_inv T s"
  shows "gate_inv T s'"
proof -
  note upd = gate_upd [OF assms(2,4)] and lv = gate_leave [OF assms(2,4)]
  note w = gate_word [OF gate_down(3) [OF assms(2,4)]]
  note i = own_in [OF assms(3)]
  have idle [simp]: "idle \<in> T" using assms(2) by (simp add: cpu_threads_def)
  from assms(1) show ?thesis
  proof cases
    case (shutdown t)
    then show ?thesis using gate_down(1) [OF assms(2,4)] w(2) by (simp add: gate_inv_def lkl_cpu_shutdown_def down_def)
  next
    case (lock_get t ret c)
    then show ?thesis by (intro upd [of t]) (auto simp: i get_locked_frame(1))
  next
    case (lock_trigger t irq ret c i')
    then show ?thesis by (intro upd [of t]) (auto simp: i try_run_irq_frame(1))
  next
    case (put_lock t first idl resched nx c)
    then show ?thesis by (intro upd [of t]) (auto simp: i put_locked_frame(1) split: put_next.splits if_splits)
  next
    case (switch t idl new c)
    then show ?thesis by (intro upd [of t]) (auto simp: i switch_cpu_frame(1) split: if_splits)
  next
    case (leave_get t ret)
    then show ?thesis using lv [of t] by (intro upd [of t]) (auto simp: i try_get_unlock_def)
  next
    case (leave_trigger t irq ret)
    then show ?thesis using lv [of t] by (intro upd [of t]) (auto simp: i try_get_unlock_def split: if_splits)
  next
    case (get t down c)
    then show ?thesis by (intro upd [of t]) (auto simp: i try_get_gate_def w)
  next
    case (trigger t irq down c)
    then show ?thesis by (intro upd [of t]) (auto simp: i try_get_gate_def w)
  next
    case (sleep t)
    then show ?thesis by (intro upd [of t]) (auto simp: i )
  next
    case (retry t down c)
    then show ?thesis by (intro upd [of t]) (auto simp: i try_get_gate_def)
  next
    case (run t irq n i')
    then show ?thesis by (intro upd [of t]) (auto simp: i )
  next
    case (put t)
    then show ?thesis by (intro upd [of t]) (auto simp: i )
  next
    case (put_irqs t idl n i')
    then show ?thesis by (intro upd [of t]) (auto simp: i )
  next
    case (idle n i')
    then show ?thesis by (intro upd [of idle]) (auto simp: i)
  next
    case idle_wake
    then show ?thesis by (intro upd [of idle]) (auto simp: i)
  next
    case idle_shutdown
    then show ?thesis by (intro upd [of idle]) (auto simp: i wake_sleepers_eq)
  next
    case cleanup
    then show ?thesis by (intro upd [of idle]) (auto simp: i lkl_cpu_cleanup_def)
  next
    case (hand_over t new c)
    then show ?thesis using assms(4) by (simp add: gate_inv_def switch_cpu_frame(1))
  next
    case (kernel t n flags i')
    then show ?thesis using assms(4) by (simp add: gate_inv_def)
  qed
qed

section \<open>The idle thread, the sleepers and the lock\<close>

lemma idle_step:
  assumes "cpu_step T idle handle s s'" "own_inv T s" "idle_inv idle s"
  shows "idle_inv idle s'"
proof -
  note h = own_holds(1) [OF assms(2)] and hd = hold_invD(1) [OF own_holds(2) [OF assms(2)]]
  have one: "t = u" if "0 < holds s t" "0 < holds s u" for t u using hd that by metis
  from assms(1) show ?thesis
  proof cases
    case (lock_get t ret c)
    then show ?thesis using assms(3) h [of t] by (auto simp: idle_inv_def get_locked_frame)
  next
    case (lock_trigger t irq ret c i)
    then show ?thesis using assms(3) h [of t] by (auto simp: idle_inv_def try_run_irq_frame)
  next
    case (put_lock t first idl resched nx c)
    then show ?thesis using assms(3) h [of t] by (auto simp: idle_inv_def put_locked_frame split: put_next.splits)
  next
    case (switch t idl new c)
    have "holds s t = 1" using h [of t] switch by simp
    then have "holds s new = 0" using one [of t new] switch(4) by (cases "holds s new") auto
    then show ?thesis using switch assms(3) \<open>holds s t = 1\<close> by (auto simp: idle_inv_def switch_cpu_frame)
  next
    case (hand_over t new c)
    then have "holds s new = 0" using one [of t new] by (cases "holds s new") auto
    then show ?thesis using hand_over assms(3) by (auto simp: idle_inv_def switch_cpu_frame)
  next
    case idle_wake
    then show ?thesis using assms(3) h [of idle] by (auto simp: idle_inv_def)
  qed (use assms(3) in \<open>auto simp: idle_inv_def try_get_gate_def try_get_unlock_def lkl_cpu_shutdown_def wake_sleepers_eq lkl_cpu_cleanup_def\<close>)
qed

lemma closing_holds:
  assumes "own_inv T s" "closing idle s" "0 < holds s t"
  shows "t = idle"
proof -
  have "0 < holds s idle" using own_holds(1) [OF assms(1), of idle] assms(2) by (auto simp: closing_def)
  then show ?thesis using hold_invD(1) [OF own_holds(2) [OF assms(1)]] assms(3) by metis
qed

lemma sleep_upd:
  assumes "cpu_threads T idle" "sleep_inv T idle s" "t \<in> T" "pcs s' = (pcs s)(t := p)" "closing idle s' = closing idle s"
    and "closing idle s \<Longrightarrow> sem (cpu s') + of_bool (pcs s t = Sleeping) = sem (cpu s) + of_bool (p = Sleeping)"
    and "\<not> closing idle s \<Longrightarrow> unat (sleepers (cpu s')) + sem (cpu s') + of_bool (pcs s t = Sleeping) =
      unat (sleepers (cpu s)) + sem (cpu s) + of_bool (p = Sleeping)"
  shows "sleep_inv T idle s'"
  using assms pc_count_upd [of T t "\<lambda>p. p = Sleeping" "pcs s" p]
  by (cases "closing idle s") (simp_all add: sleep_inv_def cpu_threads_def)

lemma sleepers_Suc:
  assumes "cpu_threads T idle" "sleep_inv T idle s" "\<not> closing idle s"
  shows "unat (sleepers (cpu s) + 1) = Suc (unat (sleepers (cpu s)))"
proof -
  have "unat (sleepers (cpu s)) \<le> card T"
    using assms(2,3) pc_count_le [of T "\<lambda>p. p = Sleeping" "pcs s"] assms(1)
    by (simp add: sleep_inv_def cpu_threads_def)
  then show ?thesis using assms(1) gate_word(1) by (simp add: cpu_threads_def)
qed

lemma live_closing: "live_inv idle s \<Longrightarrow> closing idle s \<Longrightarrow> down (cpu s)"
  by (simp add: live_inv_def down_def)

lemma sleep_step:
  assumes "cpu_step T idle handle s s'" "cpu_threads T idle" "own_inv T s" "live_inv idle s" "sleep_inv T idle s"
  shows "sleep_inv T idle s'"
proof -
  note upd = sleep_upd [OF assms(2,5)] and i = own_in [OF assms(3)] and c = closing_holds [OF assms(3)]
  note suc = sleepers_Suc [OF assms(2,5)] and h = own_holds(1) [OF assms(3)]
  have idle [simp]: "idle \<in> T" using assms(2) by (simp add: cpu_threads_def)
  from assms(1) show ?thesis
  proof cases
    case (lock_get t ret c)
    note f = get_locked_frame [OF lock_get(3)]
    show ?thesis using lock_get f suc live_closing [OF assms(4)]
      by (intro upd [of t s' "if ret = 0 then Sleeping else Leaving Get ret"]) (auto simp: i closing_def)
  next
    case (lock_trigger t irq ret c i')
    note f = try_run_irq_frame [OF lock_trigger(3)]
    show ?thesis using lock_trigger f by (intro upd [of t s' "Leaving (Trigger irq) ret"]) (auto simp: i closing_def)
  next
    case (put_lock t first idl resched nx c)
    note f = put_locked_frame [OF put_lock(3)]
    have "\<not> closing idle s" using closing_holds [OF assms(3), of idle t] h [of t] put_lock(2) by (auto simp: closing_def)
    then show ?thesis using put_lock f
      by (intro upd [of t s' "pcs s' t"]) (auto simp: i closing_def split: put_next.splits if_splits)
  next
    case (switch t idl new c)
    note f = switch_cpu_frame [OF switch(6)]
    show ?thesis using switch f by (intro upd [of t s' "if idl then Idle_Wait else Outside"]) (auto simp: i closing_def split: if_splits)
  next
    case (hand_over t new c)
    then show ?thesis using assms(5) by (simp add: sleep_inv_def closing_def switch_cpu_frame)
  next
    case idle_shutdown
    then have "pc_count T (\<lambda>p. p = Sleeping) ((pcs s)(idle := Cleaning)) = pc_count T (\<lambda>p. p = Sleeping) (pcs s)"
      using pc_count_upd [of T idle "\<lambda>p. p = Sleeping" "pcs s" Cleaning] assms(2) by (simp add: cpu_threads_def)
    then show ?thesis using idle_shutdown assms(5) by (simp add: sleep_inv_def closing_def wake_sleepers_eq)
  next
    case cleanup
    then show ?thesis by (intro upd [of idle s' Exited]) (auto simp: closing_def lkl_cpu_cleanup_def)
  next
    case (get t down c)
    then show ?thesis by (intro upd [of t s' "pcs s' t"]) (auto simp: closing_def try_get_gate_def)
  next
    case (trigger t irq down c)
    then show ?thesis by (intro upd [of t s' "pcs s' t"]) (auto simp: closing_def try_get_gate_def)
  next
    case (sleep t)
    then show ?thesis by (intro upd [of t s' Retry]) (auto simp: i closing_def)
  next
    case (retry t down c)
    then show ?thesis by (intro upd [of t s' "pcs s' t"]) (auto simp: i closing_def try_get_gate_def)
  next
    case (leave_get t ret)
    then show ?thesis by (intro upd [of t s' Outside]) (auto simp: i closing_def try_get_unlock_def)
  next
    case (leave_trigger t irq ret)
    then show ?thesis by (intro upd [of t s' "pcs s' t"]) (auto simp: i closing_def try_get_unlock_def)
  next
    case (run t irq n i')
    then show ?thesis by (intro upd [of t s' "Putting True False"]) (auto simp: i closing_def)
  next
    case (put t)
    then show ?thesis by (intro upd [of t s' "Putting True False"]) (auto simp: i closing_def)
  next
    case (put_irqs t idl n i')
    then show ?thesis by (intro upd [of t s' "Putting False idl"]) (auto simp: i closing_def)
  next
    case (idle n i')
    then show ?thesis by (intro upd [of idle s' "Putting True True"]) (auto simp: closing_def)
  next
    case idle_wake
    then show ?thesis by (intro upd [of idle s' Outside]) (auto simp: closing_def)
  next
    case (kernel t n flags i')
    then show ?thesis using assms(5) by (simp add: sleep_inv_def closing_def)
  next
    case (shutdown t)
    then show ?thesis using assms(5) by (simp add: sleep_inv_def closing_def lkl_cpu_shutdown_def)
  qed
qed

lemma cleanup_gate_empty:
  assumes "cpu_threads T idle" "own_inv T s" "gate_inv T s" "down (cpu s)" "\<not> cleanup_waits (cpu s)"
  shows "\<not> gated (pcs s t)"
proof
  assume g: "gated (pcs s t)"
  then have "t \<in> T" using own_in(1) [OF assms(2), of t] by (cases "pcs s t") auto
  then have "0 < pc_count T gated (pcs s)" using g assms(1) pc_count_pos by (simp add: cpu_threads_def)
  moreover have "unat (shutdown_gate (cpu s)) \<le> MAX_THREADS"
    using assms(5) by (simp add: cleanup_waits_def not_less word_le_nat_alt)
  ultimately show False using gate_down(1) [OF assms(1,3)] assms(4) by simp
qed

lemma lock_user_gated: "lock_user p \<Longrightarrow> gated p"
  by (cases p) auto

lemma down_unlock:
  assumes "cpu_threads T idle" "gate_inv T s" "t \<in> T" "gated (pcs s t)" "down (cpu s)"
  shows "down (try_get_unlock 1 (cpu s))"
proof -
  have "0 < pc_count T gated (pcs s)" using assms pc_count_pos [of T t gated "pcs s"] by (simp add: cpu_threads_def)
  then have "MAX_THREADS \<le> unat (shutdown_gate (cpu s) - 1)"
    using gate_leave [OF assms(1-4)] gate_down(1) [OF assms(1,2)] assms(5) by simp
  then show ?thesis by (simp add: down_nat try_get_unlock_def)
qed

lemma down_gate:
  assumes "cpu_threads T idle" "gate_inv T s" "down (cpu s)"
  shows "of_nat MAX_THREADS \<le> shutdown_gate (cpu s) + 1"
  using gate_word(1) [OF gate_down(3) [OF assms(1,2)]] assms(3) by (simp add: down_nat word_le_nat_alt)

lemma live_step:
  assumes "cpu_step T idle handle s s'" "cpu_threads T idle" "own_inv T s" "idle_inv idle s" "gate_inv T s" "live_inv idle s"
  shows "live_inv idle s'"
proof -
  note i = own_in [OF assms(3)] and h = own_holds(1) [OF assms(3)]
  note d = down_gate [OF assms(2,5), unfolded down_def] and u = down_unlock [OF assms(2,5), unfolded down_def]
  note L = assms(6) [unfolded live_inv_def closing_def]
  from assms(1) show ?thesis
  proof cases
    case (lock_get t ret c)
    then show ?thesis using L by (auto simp: live_inv_def closing_def get_locked_frame)
  next
    case (lock_trigger t irq ret c i)
    then show ?thesis using L by (auto simp: live_inv_def closing_def try_run_irq_frame)
  next
    case (put_lock t first idl resched nx c)
    then show ?thesis using L by (auto simp: live_inv_def closing_def put_locked_frame split: put_next.splits)
  next
    case (switch t idl new c)
    then show ?thesis using L by (auto simp: live_inv_def closing_def switch_cpu_frame)
  next
    case (hand_over t new c)
    then show ?thesis using L by (auto simp: live_inv_def closing_def switch_cpu_frame)
  next
    case (leave_get t ret)
    then show ?thesis using L u [of t] i [of t] by (auto simp: live_inv_def closing_def try_get_unlock_def)
  next
    case (leave_trigger t irq ret)
    then show ?thesis using L u [of t] i [of t] by (auto simp: live_inv_def closing_def try_get_unlock_def)
  next
    case cleanup
    have "down (cpu s)" using live_closing [OF assms(6)] cleanup(2) by (simp add: closing_def)
    then have "\<not> lock_user (pcs s t)" for t
      using cleanup_gate_empty [OF assms(2,3,5) _ cleanup(3)] lock_user_gated by blast
    with \<open>down (cpu s)\<close> cleanup show ?thesis
      by (auto simp: live_inv_def closing_def down_def lkl_cpu_cleanup_def)
  next
    case (get t dn c)
    then show ?thesis using L d by (auto simp: live_inv_def closing_def try_get_gate_def)
  next
    case (trigger t irq dn c)
    then show ?thesis using L d by (auto simp: live_inv_def closing_def try_get_gate_def)
  next
    case (retry t dn c)
    then show ?thesis using L by (auto simp: live_inv_def closing_def try_get_gate_def)
  next
    case (shutdown t)
    then show ?thesis using L by (auto simp: live_inv_def closing_def lkl_cpu_shutdown_def)
  next
    case idle_shutdown
    then show ?thesis using L by (auto simp: live_inv_def closing_def wake_sleepers_eq)
  next
    case (sleep t)
    then have "lock_user (pcs s t)" by simp
    with L have "pcs s idle \<noteq> Exited" by metis
    with sleep show ?thesis using L by (auto simp: live_inv_def closing_def)
  qed (use L in \<open>auto simp: live_inv_def closing_def\<close>)
qed

lemma wake_keep:
  assumes "wake_inv s" "pcs s' = (pcs s)(t := p)" "pcs s t \<noteq> Retry" "pcs s t \<noteq> Locking Get"
    and "of_nat MAX_THREADS \<le> shutdown_gate (cpu s) \<Longrightarrow> of_nat MAX_THREADS \<le> shutdown_gate (cpu s')"
    and "cpu_owner (cpu s') = 0 \<Longrightarrow> cpu_owner (cpu s) = 0" "sleepers (cpu s') = sleepers (cpu s)" "sem (cpu s') = sem (cpu s)"
  shows "wake_inv s'"
proof (cases "0 < sem (cpu s) \<or> cpu_owner (cpu s') \<noteq> 0 \<or> sleepers (cpu s) = 0 \<or> of_nat MAX_THREADS \<le> shutdown_gate (cpu s')")
  case False
  then obtain u where u: "pcs s u = Retry \<or> pcs s u = Locking Get" using assms unfolding wake_inv_def by blast
  then have "u \<noteq> t" using assms(3,4) by metis
  with u have "pcs s' u = Retry \<or> pcs s' u = Locking Get" by (simp add: assms(2))
  then show ?thesis unfolding wake_inv_def by blast
qed (use assms in \<open>auto simp: wake_inv_def\<close>)

lemma wake_step:
  assumes "cpu_step T idle handle s s'" "cpu_threads T idle" "own_inv T s" "gate_inv T s" "wake_inv s"
  shows "wake_inv s'"
proof -
  note i = own_in [OF assms(3)] and h = own_holds(1) [OF assms(3)] and keep = wake_keep [OF assms(5)]
  note d = down_gate [OF assms(2,4), unfolded down_def] and u = down_unlock [OF assms(2,4), unfolded down_def]
  from assms(1) show ?thesis
  proof cases
    case (lock_get t ret c)
    have "t \<noteq> 0" using i(1) [of t] lock_get(2) assms(2) by (metis cpu_threads_def pc.distinct(1))
    then show ?thesis using lock_get(1) get_locked_frame [OF lock_get(3)] by (auto simp: wake_inv_def down_def)
  next
    case (lock_trigger t irq ret c i')
    note f = try_run_irq_frame [OF lock_trigger(3)]
    show ?thesis using f lock_trigger(1,2) by (intro keep [of s' t]) auto
  next
    case (put_lock t first idl resched nx c)
    have "cpu_owner (cpu s) \<noteq> 0" using hold_invD [OF own_holds(2) [OF assms(3)], of t] h [of t] put_lock(2) by auto
    then show ?thesis using put_lock(1) put_locked_frame [OF put_lock(3)] by (auto simp: wake_inv_def)
  next
    case (switch t idl new c)
    then have "new \<noteq> 0" using assms(2) by (metis cpu_threads_def)
    then show ?thesis using switch(1) switch_cpu_frame [OF switch(6)] by (simp add: wake_inv_def)
  next
    case (hand_over t new c)
    then have "new \<noteq> 0" using assms(2) by (metis cpu_threads_def)
    then show ?thesis using hand_over(1) switch_cpu_frame [OF hand_over(7)] by (simp add: wake_inv_def)
  next
    case (leave_get t ret)
    then show ?thesis using u [of t] i [of t] by (intro keep [of s' t]) (auto simp: try_get_unlock_def)
  next
    case (leave_trigger t irq ret)
    then show ?thesis using u [of t] i [of t] by (intro keep [of s' t]) (auto simp: try_get_unlock_def)
  next
    case (sleep t)
    then show ?thesis by (auto simp: wake_inv_def)
  next
    case (get t dn c)
    then show ?thesis using d by (intro keep [of s' t]) (auto simp: try_get_gate_def)
  next
    case (trigger t irq dn c)
    then show ?thesis using d by (intro keep [of s' t]) (auto simp: try_get_gate_def)
  next
    case (retry t dn c)
    then show ?thesis by (auto simp: wake_inv_def try_get_gate_def)
  next
    case (shutdown t)
    then show ?thesis using gate_word(2) [OF gate_down(3) [OF assms(2,4)]] by (simp add: wake_inv_def lkl_cpu_shutdown_def word_le_nat_alt)
  next
    case idle_shutdown
    then show ?thesis by (simp add: wake_inv_def wake_sleepers_eq)
  next
    case (run t irq n i')
    then show ?thesis by (intro keep [of s' t]) auto
  next
    case (put t)
    then show ?thesis by (intro keep [of s' t]) auto
  next
    case (put_irqs t idl n i')
    then show ?thesis by (intro keep [of s' t]) auto
  next
    case (idle n i')
    then show ?thesis by (intro keep [of s' idle]) auto
  next
    case idle_wake
    then show ?thesis by (intro keep [of s' idle]) auto
  next
    case cleanup
    then show ?thesis by (intro keep [of s' idle]) (auto simp: lkl_cpu_cleanup_def)
  next
    case (kernel t n flags i')
    then show ?thesis using assms(5) by (simp add: wake_inv_def)
  qed
qed

end
