(* ===== verification/Cpu_Spec.thy ===== *)
theory Cpu_Spec
  imports Cpu_Inv
begin

text \<open>
  The properties of the CPU of \<open>arch/lkl/kernel/cpu.c\<close> in every state that the interleaved steps of the
  threads reach: who runs, that no thread waits for nothing, how shutdown ends, and what happens to interrupts.
\<close>

definition cpu_inv :: "nat set \<Rightarrow> nat \<Rightarrow> lkl_threads \<Rightarrow> bool" where
  "cpu_inv T idle s \<longleftrightarrow> own_inv T s \<and> idle_inv idle s \<and> gate_inv T s \<and> sleep_inv T idle s \<and> live_inv idle s \<and> wake_inv s"

lemma cpu_inv_start: "cpu_inv T idle (threads_start i)"
  by (auto simp: cpu_inv_def own_inv_def hold_inv_def idle_inv_def gate_inv_def sleep_inv_def live_inv_def wake_inv_def
      closing_def threads_start_def lkl_cpu_init_def pc_count_def)

lemma cpu_inv_step:
  assumes "cpu_step T idle handle s s'" "cpu_threads T idle" "cpu_inv T idle s"
  shows "cpu_inv T idle s'"
proof -
  have "0 \<notin> T" using assms(2) by (simp add: cpu_threads_def)
  then show ?thesis using assms unfolding cpu_inv_def
    by (blast intro: own_step idle_step gate_step sleep_step live_step wake_step)
qed

lemma cpu_inv_steps:
  assumes "cpu_steps T idle handle s s'" "cpu_threads T idle" "cpu_inv T idle s"
  shows "cpu_inv T idle s'"
  using assms(1) by (induction rule: rtranclp_induct) (auto intro: cpu_inv_step assms)

lemma cpu_reach_inv:
  "cpu_threads T idle \<Longrightarrow> cpu_steps T idle handle (threads_start i) s \<Longrightarrow> cpu_inv T idle s"
  by (rule cpu_inv_steps [OF _ _ cpu_inv_start])

section \<open>Mutual exclusion\<close>

text \<open>A thread that takes the CPU when no other uses it.\<close>

definition alone :: "nat \<Rightarrow> irq_state \<Rightarrow> lkl_threads" where
  "alone t i = set_holds t 1 (threads_start i)\<lparr>cpu := lkl_cpu_init\<lparr>cpu_owner := t, cpu_count := 1\<rparr>\<rparr>"

lemma alone_reached:
  assumes "t \<in> T" "t \<noteq> 0"
  shows "cpu_steps T idle handle (threads_start i) (alone t i)"
proof -
  let ?s = "threads_start i" and ?c = "lkl_cpu_init\<lparr>shutdown_gate := 1\<rparr>"
  let ?s1 = "goto t (Locking Get) (?s\<lparr>cpu := ?c\<rparr>)"
  let ?s2 = "goto t (Leaving Get 1) (took t 1 (?s1\<lparr>cpu := ?c\<lparr>cpu_owner := t, cpu_count := 1\<rparr>\<rparr>))"
  have "try_get_gate 1 (cpu ?s) = (False, ?c)"
    by (simp add: threads_start_def try_get_gate_def lkl_cpu_init_def)
  from get [OF assms(1) _ _ this] have "cpu_step T idle handle ?s ?s1" by (simp add: threads_start_def)
  moreover have "get_locked t (cpu ?s1) = Some (1, ?c\<lparr>cpu_owner := t, cpu_count := 1\<rparr>)"
    by (simp add: get_locked_def try_get_locked_def lkl_cpu_init_def word_le_nat_alt)
  from lock_get [OF _ this] have "cpu_step T idle handle ?s1 ?s2" by simp
  moreover have "alone t i = goto t Outside (?s2\<lparr>cpu := try_get_unlock 1 (cpu ?s2)\<rparr>)"
    by (simp add: alone_def goto_def took_def set_holds_def threads_start_def try_get_unlock_def lkl_cpu_init_def fun_upd_idem)
  then have "cpu_step T idle handle ?s2 (alone t i)" using leave_get [of ?s2 t 1] by simp
  ultimately show ?thesis by (meson converse_rtranclp_into_rtranclp r_into_rtranclp)
qed

text \<open>
  C3: whatever the threads do, at most one of them holds the CPU at any time; the state of the CPU names
  that thread as the owner and counts how often it took the CPU. So at most one host thread runs kernel code.
\<close>

theorem cpu_mutual_exclusion:
  assumes "cpu_threads T idle" "cpu_steps T idle handle (threads_start i) s" "0 < holds s t"
  shows "cpu_owner (cpu s) = t \<and> unat (cpu_count (cpu s)) = holds s t \<and> (\<forall>u. u \<noteq> t \<longrightarrow> holds s u = 0)"
proof -
  have "hold_inv (cpu s) (holds s)" using cpu_reach_inv [OF assms(1,2)] by (simp add: cpu_inv_def own_inv_def)
  with hold_invD [OF this assms(3)] show ?thesis by (auto simp: hold_inv_def)
qed

theorem cpu_mutual_exclusion_witness:
  "holds (alone 2 irq_init) 2 = 1 \<and> cpu_owner (cpu (alone 2 irq_init)) = 2 \<and> holds (alone 2 irq_init) 1 = 0"
proof -
  have h: "holds (alone 2 irq_init) 2 = 1" by (simp add: alone_def)
  have "cpu_steps {1, 2} 1 (\<lambda>n s. s) (threads_start irq_init) (alone 2 irq_init)" by (rule alone_reached) simp_all
  from cpu_mutual_exclusion [OF _ this, of 2] h show ?thesis by (simp add: cpu_threads_def)
qed

section \<open>No wake-up is lost\<close>


lemma steps_first:
  "cpu_step T idle handle s s1 \<Longrightarrow> \<exists>s'. cpu_steps T idle handle s1 s' \<and> Q s' \<Longrightarrow> \<exists>s'. cpu_steps T idle handle s s' \<and> Q s'"
  by (meson converse_rtranclp_into_rtranclp)

lemma steps_one: "cpu_step T idle handle s s1 \<Longrightarrow> Q s1 \<Longrightarrow> \<exists>s'. cpu_steps T idle handle s s' \<and> Q s'"
  by (meson r_into_rtranclp)






text \<open>Thread 1 asks for the CPU while thread 2 has it; thread 2 gives it back.\<close>

definition waiting :: "nat \<Rightarrow> nat \<Rightarrow> irq_state \<Rightarrow> lkl_threads" where
  "waiting t u i = goto t Sleeping (alone u i)\<lparr>cpu := lkl_cpu_init\<lparr>shutdown_gate := 1, sleepers := 1, cpu_owner := u, cpu_count := 1\<rparr>\<rparr>"


lemma waiting_reached:
  assumes "t \<in> T" "u \<in> T" "t \<noteq> u" "0 \<notin> T"
  shows "cpu_steps T idle handle (threads_start i) (waiting t u i)"
proof -
  have n: "t \<noteq> 0" "u \<noteq> 0" using assms by metis+
  let ?c = "lkl_cpu_init\<lparr>shutdown_gate := 1, cpu_owner := u, cpu_count := 1\<rparr>"
  let ?s = "goto t (Locking Get) ((alone u i)\<lparr>cpu := ?c\<rparr>)"
  have "try_get_gate 1 (cpu (alone u i)) = (False, ?c)"
    by (simp add: alone_def try_get_gate_def lkl_cpu_init_def)
  from get [OF assms(1) _ _ this] have "cpu_step T idle handle (alone u i) ?s"
    using assms(3) by (simp add: alone_def threads_start_def)
  moreover have "get_locked t (cpu ?s) = Some (0, ?c\<lparr>sleepers := 1\<rparr>)"
    using n assms(3) by (simp add: get_locked_def try_get_locked_def lkl_cpu_init_def word_le_nat_alt)
  from lock_get [OF _ this] have "cpu_step T idle handle ?s (goto t Sleeping (took t 0 (?s\<lparr>cpu := ?c\<lparr>sleepers := 1\<rparr>\<rparr>)))" by simp
  moreover have "goto t Sleeping (took t 0 (?s\<lparr>cpu := ?c\<lparr>sleepers := 1\<rparr>\<rparr>)) = waiting t u i"
    by (simp add: waiting_def alone_def goto_def took_def set_holds_def lkl_cpu_init_def)
  ultimately show ?thesis using alone_reached [OF assms(2) n(2), of idle handle i] by (metis rtranclp.rtrancl_into_rtrancl)
qed



section \<open>Shutdown\<close>

lemma leaving_leaves:
  assumes "pcs s t = Leaving call ret" "ret \<noteq> 1"
  shows "\<exists>s'. cpu_steps T idle handle s s' \<and> pcs s' = (pcs s)(t := Outside)"
proof (cases call)
  case Get
  then show ?thesis using leave_get [of s t ret] assms by (intro steps_one [where Q = "\<lambda>s'. pcs s' = (pcs s)(t := Outside)"]) auto
next
  case (Trigger irq)
  have "cpu_step T idle handle s (goto t Outside (s\<lparr>cpu := try_get_unlock 1 (cpu s)\<rparr>))"
    using leave_trigger [of s t irq ret] assms Trigger by simp
  then show ?thesis by (rule steps_one) simp
qed

lemma locking_leaves:
  assumes "pcs s t = Locking call" "lock_live (cpu s)" "down (cpu s)"
  shows "\<exists>s'. cpu_steps T idle handle s s' \<and> pcs s' = (pcs s)(t := Outside)"
proof -
  let ?s = "goto t (Leaving call (- 1)) s"
  have r: "try_get_locked t (cpu s) = Some (- 1, cpu s)" using assms(2,3) by (simp add: try_get_locked_def down_def)
  have "cpu_step T idle handle s ?s"
  proof (cases call)
    case Get
    then show ?thesis using lock_get [of s t "- 1" "cpu s" T idle handle] assms(1) r by (simp add: get_locked_def took_def)
  next
    case (Trigger irq)
    then show ?thesis using lock_trigger [of s t irq "- 1" "cpu s" "irqs s" T idle handle] assms(1) r
      by (simp add: try_run_irq_locked_def took_def accept_def)
  qed
  moreover have "\<exists>s'. cpu_steps T idle handle ?s s' \<and> pcs s' = (pcs s)(t := Outside)"
    using leaving_leaves [of ?s t call "- 1" T idle handle] by simp
  ultimately show ?thesis by (rule steps_first)
qed

lemma retry_leaves:
  assumes "pcs s t = Retry" "down (cpu s)"
  shows "\<exists>s'. cpu_steps T idle handle s s' \<and> pcs s' = (pcs s)(t := Outside)"
proof -
  let ?s = "goto t (Leaving Get (- 2)) (s\<lparr>cpu := cpu s\<rparr>)"
  have "try_get_gate 0 (cpu s) = (True, cpu s)" using assms(2) by (simp add: try_get_gate_def down_def)
  from retry [OF assms(1) this, of T idle handle] have "cpu_step T idle handle s ?s" by simp
  moreover have "\<exists>s'. cpu_steps T idle handle ?s s' \<and> pcs s' = (pcs s)(t := Outside)"
    using leaving_leaves [of ?s t Get "- 2" T idle handle] by simp
  ultimately show ?thesis by (rule steps_first)
qed

lemma sleeping_leaves:
  assumes "pcs s t = Sleeping" "0 < sem (cpu s)" "down (cpu s)"
  shows "\<exists>s'. cpu_steps T idle handle s s' \<and> pcs s' = (pcs s)(t := Outside)"
proof -
  let ?s = "goto t Retry (s\<lparr>cpu := (cpu s)\<lparr>sem := sem (cpu s) - 1\<rparr>\<rparr>)"
  have "cpu_step T idle handle s ?s" by (rule sleep [OF assms(1,2)])
  moreover have "\<exists>s'. cpu_steps T idle handle ?s s' \<and> pcs s' = (pcs s)(t := Outside)"
    using retry_leaves [of ?s t T idle handle] assms(3) by (simp add: down_def)
  ultimately show ?thesis by (rule steps_first)
qed

text \<open>While the idle thread waits in \<open>lkl_cpu_cleanup\<close>, every thread past the gate can leave by itself.\<close>

lemma gated_leaves:
  assumes "cpu_threads T idle" "cpu_inv T idle s" "pcs s idle = Cleaning" "gated (pcs s t)"
  shows "\<exists>s'. cpu_steps T idle handle s s' \<and> pcs s' = (pcs s)(t := Outside)"
proof -
  note inv = assms(2) [unfolded cpu_inv_def]
  have c: "closing idle s" using assms(3) by (simp add: closing_def)
  then have d: "down (cpu s)" using live_closing inv by blast
  have live: "lock_live (cpu s)" using inv assms(3) by (simp add: live_inv_def)
  show ?thesis
  proof (cases "pcs s t")
    case (Leaving call ret)
    have "t \<noteq> idle" using assms(3) Leaving by auto
    then have "holds s t = 0" using closing_holds [of T s idle t] inv c by auto
    then have "ret \<noteq> 1" using own_holds(1) [of T s t] inv Leaving by auto
    then show ?thesis by (rule leaving_leaves [OF Leaving])
  next
    case Sleeping
    have "t \<in> T" using own_in(1) [of T s t] inv Sleeping by simp
    then have "0 < pc_count T (\<lambda>p. p = Sleeping) (pcs s)" using assms(1) Sleeping by (intro pc_count_pos) (auto simp: cpu_threads_def)
    then have "0 < sem (cpu s)" using inv c by (simp add: sleep_inv_def)
    then show ?thesis by (rule sleeping_leaves [OF Sleeping _ d])
  qed (use assms(4) locking_leaves [OF _ live d] retry_leaves [OF _ d] in auto)
qed

lemma cleanup_reached:
  assumes "cpu_threads T idle" "cpu_inv T idle s" "pcs s idle = Cleaning"
  shows "\<exists>s'. cpu_steps T idle handle s s' \<and> pcs s' idle = Exited"
  using assms(2,3)
proof (induction "pc_count T gated (pcs s)" arbitrary: s)
  case 0
  note inv = 0(2) [unfolded cpu_inv_def]
  have "down (cpu s)" using live_closing inv 0(3) by (simp add: closing_def; blast)
  then have "\<not> cleanup_waits (cpu s)"
    using gate_down(1) [of T idle s] assms(1) inv 0(1) by (simp add: cleanup_waits_def word_less_nat_alt)
  from cleanup [OF 0(3) this] show ?case by (rule steps_one) simp
next
  case (Suc n)
  then obtain t where t: "t \<in> T" "gated (pcs s t)" using pc_count_ex [of T gated "pcs s"] by auto
  obtain s1 where s1: "cpu_steps T idle handle s s1" "pcs s1 = (pcs s)(t := Outside)"
    using gated_leaves [OF assms(1) Suc(3,4) t(2)] by blast
  have "pcs s1 idle = Cleaning" using s1(2) Suc(4) t(2) by auto
  moreover have "n = pc_count T gated (pcs s1)"
    using pc_count_upd [of T t gated "pcs s" Outside] t assms(1) Suc(2) s1(2) by (simp add: cpu_threads_def)
  ultimately obtain s' where "cpu_steps T idle handle s1 s'" "pcs s' idle = Exited"
    using Suc(1) [of s1] cpu_inv_steps [OF s1(1) assms(1) Suc(3)] by blast
  with s1(1) show ?case by (meson rtranclp_trans)
qed

text \<open>
  C5: once the idle thread has begun to shut the CPU down, its busy wait can end: the threads that still are in the functions of the
  CPU, asleep or not, can all leave them, after which the idle thread frees the lock and the semaphores.
\<close>

theorem cpu_shutdown_completes:
  assumes "cpu_threads T idle" "cpu_steps T idle handle (threads_start i) s" "pcs s idle = Cleaning"
  shows "\<exists>s'. cpu_steps T idle handle s s' \<and> pcs s' idle = Exited \<and> \<not> lock_live (cpu s')"
proof -
  note inv = cpu_reach_inv [OF assms(1,2)]
  obtain s' where s': "cpu_steps T idle handle s s'" "pcs s' idle = Exited"
    using cleanup_reached [OF assms(1) inv assms(3)] by blast
  then have "live_inv idle s'" using cpu_inv_steps [OF s'(1) assms(1) inv] by (simp add: cpu_inv_def)
  with s' show ?thesis by (auto simp: live_inv_def)
qed

text \<open>The idle thread 1 shuts the CPU down while thread 2 sleeps.\<close>

definition shutting :: "irq_state \<Rightarrow> lkl_threads" where
  "shutting i = goto 1 Cleaning ((waiting 2 1 i)\<lparr>cpu := wake_sleepers (lkl_cpu_shutdown (cpu (waiting 2 1 i)))\<rparr>)"

lemma shutting_reached: "cpu_steps {1, 2} 1 handle (threads_start i) (shutting i)"
proof -
  let ?s = "waiting 2 1 i" let ?s1 = "?s\<lparr>cpu := lkl_cpu_shutdown (cpu ?s)\<rparr>"
  have "cpu_step {1, 2} 1 handle ?s ?s1"
    by (rule shutdown [of _ 1]) (simp_all add: waiting_def alone_def threads_start_def lkl_cpu_init_def word_less_nat_alt)
  moreover have "cpu_step {1, 2} 1 handle ?s1 (shutting i)"
    using idle_shutdown [of ?s1 1 "{1, 2}" handle]
    by (simp add: shutting_def waiting_def alone_def threads_start_def lkl_cpu_init_def lkl_cpu_shutdown_def word_le_nat_alt)
  moreover have "cpu_steps {1, 2} 1 handle (threads_start i) ?s" by (rule waiting_reached) simp_all
  ultimately show ?thesis by (metis rtranclp.rtrancl_into_rtrancl)
qed

theorem cpu_shutdown_completes_witness:
  "\<exists>s'. cpu_steps {1, 2} 1 (\<lambda>n s. s) (shutting irq_init) s' \<and> pcs s' 1 = Exited \<and> \<not> lock_live (cpu s')"
proof -
  have "pcs (shutting irq_init) 1 = Cleaning" by (simp add: shutting_def)
  from cpu_shutdown_completes [OF _ shutting_reached this] show ?thesis by (simp add: cpu_threads_def)
qed

section \<open>Interrupts\<close>

text \<open>What a delivery may do to the interrupts: forget none and leave the nesting depth alone.\<close>

definition noted :: "irq_state \<Rightarrow> nat \<Rightarrow> bool" where
  "noted s m \<longleftrightarrow> pending s m \<or> m \<in> set (handled s)"

definition irq_kept :: "irq_state \<Rightarrow> irq_state \<Rightarrow> bool" where
  "irq_kept s t \<longleftrightarrow> length (irq_status t) = length (irq_status s) \<and> hardirq_count t = hardirq_count s \<and>
     (\<forall>m < NR_IRQS. noted s m \<longrightarrow> noted t m)"

definition keeping :: "(nat \<Rightarrow> irq_state \<Rightarrow> irq_state) \<Rightarrow> bool" where
  "keeping handle \<longleftrightarrow> (\<forall>n s. irq_kept s (handle n s))"

lemma irq_kept_refl [simp]: "irq_kept s s"
  by (simp add: irq_kept_def)

lemma irq_kept_trans: "irq_kept s t \<Longrightarrow> irq_kept t u \<Longrightarrow> irq_kept s u"
  by (auto simp: irq_kept_def)

lemma opt_fold_kept:
  assumes "\<And>x s t. x \<in> set xs \<Longrightarrow> f x s = Some t \<Longrightarrow> irq_kept s t" "opt_fold f xs s = Some t"
  shows "irq_kept s t"
  using assms
proof (induction xs arbitrary: s)
  case (Cons x xs)
  then obtain u where "f x s = Some u" "opt_fold f xs u = Some t" by (auto split: bind_splits)
  then show ?case using Cons irq_kept_trans by (metis list.set_intros)
qed simp

lemma opt_fold_noted:
  assumes "\<And>x s t. x \<in> set xs \<Longrightarrow> f x s = Some t \<Longrightarrow> irq_kept s t \<and> noted t (g x)" "opt_fold f xs s = Some t"
    and "x \<in> set xs" "g x < NR_IRQS"
  shows "noted t (g x)"
  using assms
proof (induction xs arbitrary: s)
  case (Cons y xs)
  then obtain u where u: "f y s = Some u" "opt_fold f xs u = Some t" by (auto split: bind_splits)
  show ?case
  proof (cases "x \<in> set xs")
    case True
    then show ?thesis using Cons u(2) by auto
  next
    case False
    with Cons have "noted u (g x)" using u(1) by auto
    moreover have "irq_kept u t" using opt_fold_kept [OF _ u(2)] Cons.prems(1) by auto
    ultimately show ?thesis using Cons.prems(4) by (simp add: irq_kept_def)
  qed
qed simp

lemma run_irq_kept:
  assumes "keeping handle" "\<And>f s t. restore f s = Some t \<Longrightarrow> irq_kept s t" "run_irq handle restore irq s = Some t"
  shows "irq_kept s t \<and> (irq < NR_IRQS \<longrightarrow> noted t irq)"
proof -
  let ?s = "s\<lparr>irqs_enabled := False, hardirq_count := hardirq_count s + 1, handled := handled s @ [irq]\<rparr>"
  let ?u = "handle irq ?s"
  have k: "irq_kept ?s ?u" using assms(1) by (simp add: keeping_def)
  then have "irq_kept s (?u\<lparr>hardirq_count := hardirq_count ?u - 1\<rparr>)" "irq < NR_IRQS \<longrightarrow> noted (?u\<lparr>hardirq_count := hardirq_count ?u - 1\<rparr>) irq"
    by (auto simp: irq_kept_def noted_def pending_def)
  moreover have "irq_kept (?u\<lparr>hardirq_count := hardirq_count ?u - 1\<rparr>) t"
    using assms(2,3) by (simp add: run_irq_def Let_def)
  ultimately show ?thesis by (auto simp: irq_kept_def)
qed

lemma check_irq_status_kept:
  assumes "keeping handle" "\<And>f s t. restore f s = Some t \<Longrightarrow> irq_kept s t" "i < 64" "check_irq_status handle restore i s = Some t"
  shows "irq_kept s t"
proof -
  let ?s = "s\<lparr>irq_status := (irq_status s)[i := 0]\<rparr>" and ?bs = "filter (bit (irq_status s ! i)) [0..<64]"
  have f: "opt_fold (deliver_irq handle restore i) ?bs ?s = Some t"
    using assms(4) by (simp add: check_irq_status_def test_and_clear_irq_status_def for_each_bit_fold)
  have d: "irq_kept u v \<and> noted v (i * 64 + b)" if "b \<in> set ?bs" "deliver_irq handle restore i b u = Some v" for b u v
    using run_irq_kept [OF assms(1), of restore "i * 64 + b" u v] assms(2) that assms(3) by (simp add: deliver_irq_def)
  have k: "irq_kept ?s t" using opt_fold_kept [OF _ f] d by blast
  have "noted t m" if m: "m < NR_IRQS" "noted s m" for m
  proof (cases "noted ?s m")
    case True
    then show ?thesis using k m(1) by (simp add: irq_kept_def)
  next
    case False
    then have "pending s m" "m div 64 = i" using m(2) by (cases "m div 64 = i"; auto simp: noted_def pending_def)+
    then have "m mod 64 \<in> set ?bs" "i * 64 + m mod 64 = m" by (auto simp: pending_def)
    then show ?thesis using opt_fold_noted [of ?bs "deliver_irq handle restore i" "\<lambda>b. i * 64 + b" ?s t "m mod 64"] d f m(1)
      by (simp add: add.commute)
  qed
  with k show ?thesis by (simp add: irq_kept_def)
qed

lemma run_irqs_kept:
  assumes "keeping handle" "\<And>f s t. restore f s = Some t \<Longrightarrow> irq_kept s t" "run_irqs handle restore s = Some t"
  shows "irq_kept s t"
proof -
  let ?s = "s\<lparr>irq_index_status := 0\<rparr>"
  have "opt_fold (check_irq_status handle restore) (filter (bit (irq_index_status s)) [0..<64]) ?s = Some t"
    using assms(3) by (auto simp: run_irqs_def test_and_clear_irq_index_status_def for_each_bit_fold split: if_splits)
  then have "irq_kept ?s t"
    by (rule opt_fold_kept [rotated]) (use check_irq_status_kept [OF assms(1), of restore] assms(2) in auto)
  then show ?thesis by (simp add: irq_kept_def noted_def pending_def)
qed

lemma restore_kept:
  "keeping handle \<Longrightarrow> arch_local_irq_restore n handle flags s = Some t \<Longrightarrow> irq_kept s t"
proof (induction n arbitrary: flags s t)
  case 0
  then show ?case by (simp add: arch_local_irq_restore.simps)
next
  case (Suc n)
  let ?r = "arch_local_irq_restore n handle"
  from Suc.prems(2) obtain u where u: "run_irqs handle ?r s = Some u \<or> u = s" "t = u\<lparr>irqs_enabled := flags\<rparr>"
    by (fastforce simp: arch_local_irq_restore.simps split: if_splits bind_splits)
  then have "irq_kept s u" using run_irqs_kept [OF Suc.prems(1), of ?r s u] Suc.IH [OF Suc.prems(1)] by auto
  note this u(2)
  then show ?case by (simp add: irq_kept_def noted_def pending_def)
qed

lemma set_irq_pending_kept:
  assumes "set_irq_pending irq s = Some t" "length (irq_status s) = IRQ_STATUS_BITS"
  shows "irq_kept s t \<and> noted t (nat irq)"
proof -
  have "nat irq < NR_IRQS" "length (irq_status t) = length (irq_status s)" "hardirq_count t = hardirq_count s" "handled t = handled s"
    using assms(1) by (auto simp: set_irq_pending_def Let_def split: if_splits)
  then show ?thesis using set_irq_pending_pending [OF assms] by (auto simp: irq_kept_def noted_def)
qed

lemma trigger_run_kept:
  assumes "keeping handle" "0 < irq" "irq < int NR_IRQS" "length (irq_status s) = IRQ_STATUS_BITS" "trigger_run handle n irq s = Some t"
  shows "irq_kept s t \<and> noted t (nat irq)"
  using assms set_irq_pending_kept [of irq s t] run_irq_kept [OF assms(1), of "arch_local_irq_restore n handle" "nat irq" s t]
    restore_kept [OF assms(1)]
  by (auto simp: trigger_run_def split: if_splits)

definition irq_inv :: "lkl_threads \<Rightarrow> bool" where
  "irq_inv s \<longleftrightarrow> length (irq_status (irqs s)) = IRQ_STATUS_BITS \<and> hardirq_count (irqs s) = 0 \<and>
     (\<forall>m \<in> accepted s. m < NR_IRQS \<and> noted (irqs s) m)"

lemma irq_inv_kept:
  assumes "irq_inv s" "irq_kept (irqs s) (irqs s')" "accepted s' \<subseteq> insert m (accepted s)"
    and "m \<in> accepted s' \<Longrightarrow> m < NR_IRQS \<and> noted (irqs s') m \<or> m \<in> accepted s"
  shows "irq_inv s'"
  using assms unfolding irq_inv_def irq_kept_def by (metis insertE subsetD)

lemma irq_step:
  assumes "cpu_step T idle handle s s'" "keeping handle" "own_inv T s" "irq_inv s"
  shows "irq_inv s'"
proof -
  note h = own_holds(1) [OF assms(3)] and r = restore_kept [OF assms(2)]
  have l: "length (irq_status (irqs s)) = IRQ_STATUS_BITS" using assms(4) by (simp add: irq_inv_def)
  from assms(1) show ?thesis
  proof cases
    case (lock_trigger t irq ret c i)
    have "0 < irq" "irq < int NR_IRQS" using h [of t] lock_trigger(2) by auto
    then show ?thesis using lock_trigger(1) try_run_irq_frame(9,10) [OF lock_trigger(3)] set_irq_pending_kept [OF _ l]
      by (intro irq_inv_kept [OF assms(4), of s' "nat irq"]) (cases "ret = 0"; auto)+
  next
    case (run t irq n i)
    have "0 < irq" "irq < int NR_IRQS" using h [of t] run(2) by auto
    then show ?thesis using run(1) trigger_run_kept [OF assms(2) _ _ l run(3)]
      by (intro irq_inv_kept [OF assms(4), of s' "nat irq"]) auto
  next
    case (put_irqs t idl n i)
    then show ?thesis using run_irqs_kept [OF assms(2), of "arch_local_irq_restore n handle" "irqs s" i] r put_irqs(3)
      by (intro irq_inv_kept [OF assms(4), of s' 0]) auto
  next
    case (kernel t n flags i)
    then show ?thesis using r [OF kernel(4)] by (intro irq_inv_kept [OF assms(4), of s' 0]) auto
  next
    case (idle n i)
    then show ?thesis using r [OF idle(5)] by (intro irq_inv_kept [OF assms(4), of s' 0]) auto
  qed (use assms(4) in \<open>simp_all add: irq_inv_def\<close>)
qed

lemma irq_reach:
  assumes "cpu_threads T idle" "keeping handle" "length (irq_status i) = IRQ_STATUS_BITS" "hardirq_count i = 0"
    and "cpu_steps T idle handle (threads_start i) s"
  shows "irq_inv s"
  using assms(5)
proof (induction rule: rtranclp_induct)
  case base
  then show ?case using assms(3,4) by (simp add: irq_inv_def threads_start_def)
next
  case (step s s')
  then show ?case using irq_step [OF step(2) assms(2)] cpu_reach_inv [OF assms(1) step(1)] by (simp add: cpu_inv_def)
qed





section \<open>No bug is reported\<close>

text \<open>
  C6: in every reachable state the operations under the lock succeed: the lock has not been freed under a thread that is about to
  take it, \<open>lkl_cpu_put\<close> is balanced and not called from an interrupt, and the CPU is passed on with a count of one.
  The branches of the code that report a bug are dead.
\<close>

theorem cpu_no_bug:
  assumes "cpu_threads T idle" "keeping handle" "length (irq_status i) = IRQ_STATUS_BITS" "hardirq_count i = 0"
    and "cpu_steps T idle handle (threads_start i) s"
  shows "(\<forall>t call. pcs s t = Locking call \<longrightarrow> try_get_locked t (cpu s) \<noteq> None) \<and>
    (\<forall>t first idl resched. pcs s t = Putting first idl \<longrightarrow> put_locked first resched t (irqs s) (cpu s) \<noteq> None) \<and>
    (\<forall>t idl new. pcs s t = Switching idl \<or> pcs s t = Outside \<and> holds s t = 1 \<longrightarrow> switch_cpu idle new (cpu s) \<noteq> None)"
proof -
  note inv = cpu_reach_inv [OF assms(1,5), unfolded cpu_inv_def]
  have live: "lock_live (cpu s)" if "lock_user (pcs s t) \<or> 0 < holds s t \<and> pcs s t \<noteq> Exited" for t
  proof (rule ccontr)
    assume n: "\<not> lock_live (cpu s)"
    then have e: "pcs s idle = Exited" "\<not> lock_user (pcs s t)" using inv by (auto simp: live_inv_def)
    then have "t = idle" using closing_holds [of T s idle t] inv that by (auto simp: closing_def)
    with e that show False by auto
  qed
  have h: "pc_ok (pcs s t) (holds s t)" for t using own_holds(1) inv by blast
  have c: "cpu_owner (cpu s) = t \<and> t \<noteq> 0 \<and> unat (cpu_count (cpu s)) = holds s t" if "0 < holds s t" for t
    using hold_invD [OF own_holds(2), of T s t] inv that by auto
  have "put_locked first resched t (irqs s) (cpu s) \<noteq> None" if "pcs s t = Putting first idl" for t first idl resched
  proof -
    have t: "0 < holds s t" using h [of t] that by simp
    then have "lock_live (cpu s)" "cpu_count (cpu s) \<noteq> 0" using live [of t] that c [of t] by auto
    then show ?thesis using c [OF t] irq_reach [OF assms] by (auto simp: put_locked_def Let_def in_interrupt_def irq_inv_def)
  qed
  moreover have "switch_cpu idle new (cpu s) \<noteq> None" if "pcs s t = Switching idl \<or> pcs s t = Outside \<and> holds s t = 1" for t idl new
  proof -
    have t: "holds s t = 1" using h [of t] that by auto
    then have "lock_live (cpu s)" using live [of t] that by auto
    moreover have "\<not> cpu_count (cpu s) > 1" using c [of t] t by (simp add: word_less_nat_alt)
    ultimately show ?thesis by (simp add: switch_cpu_def lkl_cpu_change_owner_def Let_def)
  qed
  moreover have "try_get_locked t (cpu s) \<noteq> None" if "pcs s t = Locking call" for t call
    using live [of t] that by (simp add: try_get_locked_def)
  ultimately show ?thesis by blast
qed

theorem cpu_no_bug_witness:
  "switch_cpu 1 1 (cpu (alone 2 irq_init)) \<noteq> None"
proof -
  have r: "cpu_steps {1, 2} 1 (\<lambda>n s. s) (threads_start irq_init) (alone 2 irq_init)" by (rule alone_reached) simp_all
  have "pcs (alone 2 irq_init) 2 = Outside \<and> holds (alone 2 irq_init) 2 = 1" by (simp add: alone_def threads_start_def)
  with cpu_no_bug [OF _ _ _ _ r] show ?thesis
    by (simp add: cpu_threads_def keeping_def irq_init_def)
qed



end
