(* ===== verification/Vring.thy ===== *)
theory Vring
  imports LKL_Prelude
begin

text \<open>
  The virtio ring both sides share, \<open>include/uapi/linux/virtio_ring.h\<close>: the descriptor table, the
  ring of available descriptor heads the driver writes and the ring of used heads the device writes.

  The memory is a store of these objects by address, with a byte memory for the buffers that the
  descriptors point to. Host and kernel share one address space, and both are little-endian, so
  \<open>le16toh\<close>, \<open>cpu_to_virtio16\<close> and their kin are the identity.
\<close>

section \<open>Objects\<close>

record vring_desc =
  d_addr :: u64
  d_len :: u32
  d_flags :: u16
  d_next :: u16

text \<open>The cell after the \<open>num\<close> heads, \<open>ring[num]\<close>, is the used event index.\<close>

record vring_avail =
  a_flags :: u16
  a_idx :: u16
  a_ring :: "u16 list"

record vring_used_elem =
  ue_id :: u32
  ue_len :: u32

text \<open>The two bytes after the \<open>num\<close> elements hold the available event index.\<close>

record vring_used =
  u_flags :: u16
  u_idx :: u16
  u_ring :: "vring_used_elem list"
  u_avail_event :: u16

record vmem =
  m_desc :: "addr \<Rightarrow> vring_desc list option"
  m_avail :: "addr \<Rightarrow> vring_avail option"
  m_used :: "addr \<Rightarrow> vring_used option"
  m_byte :: "addr \<Rightarrow> u8"

abbreviation (input) VRING_DESC_F_NEXT :: u16 where "VRING_DESC_F_NEXT \<equiv> 1"
abbreviation (input) VRING_DESC_F_WRITE :: u16 where "VRING_DESC_F_WRITE \<equiv> 2"
abbreviation (input) VRING_DESC_F_INDIRECT :: u16 where "VRING_DESC_F_INDIRECT \<equiv> 4"
abbreviation (input) VRING_USED_F_NO_NOTIFY :: u16 where "VRING_USED_F_NO_NOTIFY \<equiv> 1"
abbreviation (input) VRING_AVAIL_F_NO_INTERRUPT :: u16 where "VRING_AVAIL_F_NO_INTERRUPT \<equiv> 1"

section \<open>Layout\<close>

record vring =
  vr_num :: u32
  vr_desc :: addr
  vr_avail :: addr
  vr_used :: addr

definition vring_init :: "u32 \<Rightarrow> addr \<Rightarrow> u64 \<Rightarrow> vring" where
  "vring_init num p align =
     (let avail = p + ucast num * 16 in
      \<lparr>vr_num = num, vr_desc = p, vr_avail = avail,
       vr_used = (avail + 4 + 2 * ucast num + 2 + align - 1) AND NOT (align - 1)\<rparr>)"

text \<open>\<open>unsigned\<close> is the 32-bit result type; the sum is computed in 64 bits.\<close>

definition vring_size :: "u32 \<Rightarrow> u64 \<Rightarrow> u32" where
  "vring_size num align =
     ucast (((16 * ucast num + 2 * ucast (3 + num) + align - 1) AND NOT (align - 1))
            + 2 * 3 + 8 * ucast num :: u64)"

section \<open>Event suppression\<close>

definition vring_need_event :: "u16 \<Rightarrow> u16 \<Rightarrow> u16 \<Rightarrow> bool" where
  "vring_need_event event_idx new_idx old \<longleftrightarrow> new_idx - event_idx - 1 < new_idx - old"

text \<open>
  C28: the other side is notified exactly when the index it asked to be told about is among the
  entries just added, \<open>old, old + 1, ..., new_idx - 1\<close>, also when the free-running 16-bit
  indices wrap.
\<close>

theorem vring_need_event_window:
  "vring_need_event e new_idx old \<longleftrightarrow> (\<exists>k < unat (new_idx - old). e = old + word_of_nat k)"
proof -
  define n where "n = new_idx - old"
  define d where "d = e - old"
  have "vring_need_event e new_idx old \<longleftrightarrow> n - d - 1 < n"
    by (simp add: vring_need_event_def n_def d_def algebra_simps)
  also have "\<dots> \<longleftrightarrow> d < n"
    by uint_arith
  also have "\<dots> \<longleftrightarrow> (\<exists>k < unat n. d = word_of_nat k)"
  proof
    assume "d < n"
    then have "unat d < unat n" "d = word_of_nat (unat d)" by (simp_all add: word_less_nat_alt)
    then show "\<exists>k < unat n. d = word_of_nat k" by blast
  next
    assume "\<exists>k < unat n. d = word_of_nat k"
    then obtain k where "k < unat n" "d = word_of_nat k" by blast
    moreover have "unat n < 2 ^ 16" using unat_lt_pow2 [of n] by simp
    ultimately show "d < n" by (simp add: word_less_nat_alt unat_of_nat)
  qed
  also have "\<dots> \<longleftrightarrow> (\<exists>k < unat (new_idx - old). e = old + word_of_nat k)"
    by (simp add: n_def d_def diff_eq_eq add.commute)
  finally show ?thesis .
qed

section \<open>The layout holds its objects\<close>

definition align_up :: "nat \<Rightarrow> nat \<Rightarrow> nat" where
  "align_up k x = (x + 2 ^ k - 1) div 2 ^ k * 2 ^ k"

lemma align_up_ge: "x \<le> align_up k x"
proof -
  have "(x + 2 ^ k - 1) mod 2 ^ k < 2 ^ k" by simp
  moreover have "align_up k x = (x + 2 ^ k - 1) - (x + 2 ^ k - 1) mod 2 ^ k"
    by (simp add: align_up_def minus_mod_eq_div_mult)
  ultimately show ?thesis by linarith
qed

lemma align_up_less: "align_up k x < x + 2 ^ k"
proof -
  have "align_up k x \<le> x + 2 ^ k - 1" by (simp add: align_up_def)
  moreover have "0 < (2 :: nat) ^ k" by simp
  ultimately show ?thesis by linarith
qed

lemma align_up_add: "2 ^ k dvd p \<Longrightarrow> align_up k (p + x) = p + align_up k x"
proof -
  assume "2 ^ k dvd p"
  then obtain c where "p = 2 ^ k * c" ..
  moreover have "(2 ^ k * c + x + 2 ^ k - 1) = 2 ^ k * c + (x + 2 ^ k - 1)"
    using zero_less_power [of "2 :: nat" k] by linarith
  ultimately show ?thesis by (simp add: align_up_def algebra_simps)
qed

lemma vring_size_nat:
  assumes "unat num \<le> 2 ^ 15" "k \<le> 16"
  shows "unat (vring_size num (2 ^ k)) = align_up k (16 * unat num + 2 * (3 + unat num)) + 6 + 8 * unat num"
proof -
  let ?n = "unat num" and ?x = "16 * ucast num + 2 * ucast (3 + num) + 2 ^ k - 1 :: u64"
  have k: "(2 :: nat) ^ k \<le> 2 ^ 16" using assms(2) by (rule power_increasing) simp
  have "unat (3 + num) = 3 + ?n" using assms(1) by (simp add: unat_word_ariths)
  then have "ucast (3 + num) = (word_of_nat (3 + ?n) :: u64)" by (metis of_nat_unat)
  then have "?x = word_of_nat (16 * ?n + 2 * (3 + ?n) + (2 ^ k - 1))"
    by (simp add: of_nat_diff)
  moreover have "16 * ?n + 2 * (3 + ?n) + (2 ^ k - 1) < 2 ^ 64" using assms(1) k by simp
  ultimately have x: "unat ?x = 16 * ?n + 2 * (3 + ?n) + 2 ^ k - 1"
    using unat_eqI [of ?x "16 * ?n + 2 * (3 + ?n) + (2 ^ k - 1)"] by simp
  let ?a = "?x AND NOT (2 ^ k - 1)" and ?m = "align_up k (16 * ?n + 2 * (3 + ?n))"
  have a: "unat ?a = ?m" by (simp only: unat_and_not_pow2 x align_up_def)
  have "?a + 2 * 3 + 8 * ucast num = word_of_nat (unat ?a + 6 + 8 * ?n)" by simp
  also have "\<dots> = word_of_nat (?m + 6 + 8 * ?n)" by (simp only: a)
  finally have y: "?a + 2 * 3 + 8 * ucast num = word_of_nat (?m + 6 + 8 * ?n)" .
  have "?m + 6 + 8 * ?n < 2 ^ 32"
    using align_up_less [of k "16 * ?n + 2 * (3 + ?n)"] assms(1) k by simp
  moreover have "vring_size num (2 ^ k) = word_of_nat (?m + 6 + 8 * ?n)"
    unfolding vring_size_def y by (rule ucast_word_of_nat_down) simp
  ultimately show ?thesis by (intro unat_eqI) simp_all
qed

text \<open>
  C29: the layout \<open>vring_init\<close> computes inside a block of \<open>vring_size\<close> bytes at an aligned address
  is sound: the descriptor table, the available ring with its event index and the used ring with its
  event index follow one another without overlap, and the last one ends inside the block.
\<close>

theorem vring_layout:
  assumes num: "unat num \<le> 2 ^ 15" and k: "k \<le> 16" and al: "2 ^ k dvd unat p"
    and fits: "unat p + unat (vring_size num (2 ^ k)) \<le> 2 ^ 64"
    and vr: "vr = vring_init num p (2 ^ k)"
  shows "unat (vr_desc vr) = unat p \<and>
    unat (vr_desc vr) + 16 * unat num = unat (vr_avail vr) \<and>
    unat (vr_avail vr) + 4 + 2 * unat num + 2 \<le> unat (vr_used vr) \<and>
    unat (vr_used vr) + 4 + 8 * unat num + 2 \<le> unat p + unat (vring_size num (2 ^ k)) \<and>
    2 ^ k dvd unat (vr_used vr)"
proof -
  let ?n = "unat num" and ?p = "unat p"
  let ?m = "align_up k (16 * ?n + 2 * (3 + ?n))"
  note sz = vring_size_nat [OF num k]
  have m: "16 * ?n + 2 * (3 + ?n) \<le> ?m" by (rule align_up_ge)
  have avail: "vr_avail vr = word_of_nat (?p + 16 * ?n)" "vr_desc vr = p"
    by (simp_all add: vr vring_init_def Let_def)
  have ua: "unat (vr_avail vr) = ?p + 16 * ?n"
    by (rule unat_eqI [OF avail(1)]) (use fits m in \<open>simp add: sz\<close>)
  have used: "vr_avail vr + 4 + 2 * ucast num + 2 + 2 ^ k - 1 =
      word_of_nat (?p + (16 * ?n + 2 * (3 + ?n)) + (2 ^ k - 1))"
  proof -
    obtain c where c: "(2 :: nat) ^ k = Suc c" by (cases "(2 :: nat) ^ k") simp_all
    then have "(2 ^ k :: u64) = word_of_nat (Suc c)" by (metis of_nat_numeral of_nat_power)
    then show ?thesis by (simp add: avail c algebra_simps)
  qed
  have lt: "?p + (16 * ?n + 2 * (3 + ?n)) + (2 ^ k - 1) < 2 ^ 64"
  proof -
    have "2 ^ k dvd ?p + ?m" using al by (simp add: align_up_def)
    moreover have "(2 :: nat) ^ k dvd 2 ^ 64" using k by (intro le_imp_power_dvd) simp
    moreover have "?p + ?m < 2 ^ 64" using fits by (simp add: sz)
    ultimately have "?p + ?m + 2 ^ k \<le> 2 ^ 64" by (rule dvd_less_gap)
    with m zero_less_power [of "2 :: nat" k] show ?thesis by linarith
  qed
  have "?p + (16 * ?n + 2 * (3 + ?n)) + (2 ^ k - 1) = ?p + (16 * ?n + 2 * (3 + ?n)) + 2 ^ k - 1"
    using zero_less_power [of "2 :: nat" k] by linarith
  with unat_eqI [OF used] lt have "unat (vr_avail vr + 4 + 2 * ucast num + 2 + 2 ^ k - 1) =
      ?p + (16 * ?n + 2 * (3 + ?n)) + 2 ^ k - 1" by simp
  moreover have "vr_used vr = (vr_avail vr + 4 + 2 * ucast num + 2 + 2 ^ k - 1) AND NOT (2 ^ k - 1)"
    by (simp add: vr vring_init_def Let_def)
  ultimately have "unat (vr_used vr) = align_up k (?p + (16 * ?n + 2 * (3 + ?n)))"
    by (simp only: unat_and_not_pow2 align_up_def)
  with al have "unat (vr_used vr) = ?p + ?m" "2 ^ k dvd ?p + ?m"
    by (simp_all add: align_up_add) (simp add: align_up_def)
  with m ua show ?thesis by (simp add: avail sz)
qed

text \<open>A queue of 32 entries at address 4096 with page alignment.\<close>

theorem vring_layout_witness:
  "unat (vr_avail (vring_init 32 4096 (2 ^ 12))) = 4608 \<and> 2 ^ 12 dvd unat (vr_used (vring_init 32 4096 (2 ^ 12)))"
  using vring_layout [of 32 12 4096 "vring_init 32 4096 (2 ^ 12)"] unat_lt_pow2 [of "vring_size 32 4096"]
  by simp

end
