(* ===== verification/Virtqueue.thy ===== *)
theory Virtqueue
  imports Vring
begin

text \<open>
  The driver side of a virtqueue in the kernel, \<open>drivers/virtio/virtio_ring.c\<close>: exposing buffers
  to the device, kicking it, and taking used buffers back.

  \<open>'a\<close> is the type of the driver's tokens (\<open>void *data\<close>; \<open>None\<close> is the null pointer), \<open>'x\<close>
  the state of the world outside the ring that notifying the device may change. The DMA interface
  of the kernel, used only when the device asks for it, and the page and slab allocators are
  arguments; an allocator returns the null address when it fails.
\<close>

section \<open>State\<close>

record 'a vring_desc_state =
  ds_data :: "'a option"
  ds_indir :: addr

text \<open>\<open>vq_unmaps\<close> records the mappings handed back to the DMA interface.\<close>

record 'a vring_virtqueue =
  vq_index :: u32
  vq_num_free :: u32
  vq_callback :: bool
  vq_features :: u64
  vq_vring :: vring
  vq_broken :: bool
  vq_indirect :: bool
  vq_event :: bool
  vq_free_head :: u32
  vq_num_added :: u32
  vq_last_used_idx :: u16
  vq_avail_flags_shadow :: u16
  vq_avail_idx_shadow :: u16
  vq_we_own_ring :: bool
  vq_queue_size_in_bytes :: u64
  vq_queue_dma_addr :: addr
  vq_desc_state :: "'a vring_desc_state list"
  vq_unmaps :: "(u64 \<times> u32) list"

record scatter =
  sg_phys :: u64
  sg_length :: u32

record dma_ops =
  dma_map :: "u64 \<Rightarrow> u64 \<Rightarrow> bool \<Rightarrow> u64"
  dma_mapping_error :: "u64 \<Rightarrow> bool"

abbreviation (input) VIRTIO_RING_F_INDIRECT_DESC :: nat where "VIRTIO_RING_F_INDIRECT_DESC \<equiv> 28"
abbreviation (input) VIRTIO_F_IOMMU_PLATFORM :: nat where "VIRTIO_F_IOMMU_PLATFORM \<equiv> 33"

abbreviation vq_num :: "'a vring_virtqueue \<Rightarrow> u32" where "vq_num vq \<equiv> vr_num (vq_vring vq)"
abbreviation vq_desc :: "'a vring_virtqueue \<Rightarrow> addr" where "vq_desc vq \<equiv> vr_desc (vq_vring vq)"
abbreviation vq_avail :: "'a vring_virtqueue \<Rightarrow> addr" where "vq_avail vq \<equiv> vr_avail (vq_vring vq)"
abbreviation vq_used :: "'a vring_virtqueue \<Rightarrow> addr" where "vq_used vq \<equiv> vr_used (vq_vring vq)"

section \<open>Memory cells of the ring\<close>

definition desc_get :: "vmem \<Rightarrow> addr \<Rightarrow> nat \<Rightarrow> vring_desc option" where
  "desc_get m tab i = do { t \<leftarrow> m_desc m tab; aget t i }"

definition put_desc :: "addr \<Rightarrow> vring_desc list \<Rightarrow> vmem \<Rightarrow> vmem" where
  "put_desc tab t m = m\<lparr>m_desc := (m_desc m)(tab \<mapsto> t)\<rparr>"

definition desc_upd :: "vmem \<Rightarrow> addr \<Rightarrow> nat \<Rightarrow> (vring_desc \<Rightarrow> vring_desc) \<Rightarrow> vmem option" where
  "desc_upd m tab i f = do {
     t \<leftarrow> m_desc m tab;
     d \<leftarrow> aget t i;
     Some (put_desc tab (t[i := f d]) m)
   }"

definition avail_upd :: "vmem \<Rightarrow> addr \<Rightarrow> (vring_avail \<Rightarrow> vring_avail) \<Rightarrow> vmem option" where
  "avail_upd m a f = do {
     v \<leftarrow> m_avail m a;
     Some (m\<lparr>m_avail := (m_avail m)(a \<mapsto> f v)\<rparr>)
   }"

definition set_used_event :: "vring \<Rightarrow> u16 \<Rightarrow> vmem \<Rightarrow> vmem option" where
  "set_used_event vr v m = do {
     a \<leftarrow> m_avail m (vr_avail vr);
     r \<leftarrow> aset (a_ring a) (unat (vr_num vr)) v;
     Some (m\<lparr>m_avail := (m_avail m)(vr_avail vr \<mapsto> a\<lparr>a_ring := r\<rparr>)\<rparr>)
   }"

text \<open>The event index follows the last element; with a smaller \<open>num\<close> it is half of an element.\<close>

definition vring_avail_event :: "vring \<Rightarrow> vmem \<Rightarrow> u16 option" where
  "vring_avail_event vr m = do {
     u \<leftarrow> m_used m (vr_used vr);
     if unat (vr_num vr) = length (u_ring u) then Some (u_avail_event u)
     else do { e \<leftarrow> aget (u_ring u) (unat (vr_num vr)); Some (ucast (ue_id e)) }
   }"

section \<open>Mapping buffers\<close>

text \<open>No Xen: \<open>xen_domain()\<close> is false, and \<open>virtio_has_iommu_quirk\<close> is the absence of the feature.\<close>

definition vring_use_dma_api :: "u64 \<Rightarrow> bool" where
  "vring_use_dma_api features \<longleftrightarrow> bit features VIRTIO_F_IOMMU_PLATFORM"

definition vring_map_one_sg :: "dma_ops \<Rightarrow> 'a vring_virtqueue \<Rightarrow> scatter \<Rightarrow> bool \<Rightarrow> u64" where
  "vring_map_one_sg dma vq sg from_device =
     (if \<not> vring_use_dma_api (vq_features vq) then sg_phys sg
      else dma_map dma (sg_phys sg) (ucast (sg_length sg)) from_device)"

definition vring_map_single :: "dma_ops \<Rightarrow> 'a vring_virtqueue \<Rightarrow> addr \<Rightarrow> u64 \<Rightarrow> bool \<Rightarrow> u64" where
  "vring_map_single dma vq cpu_addr sz from_device =
     (if \<not> vring_use_dma_api (vq_features vq) then cpu_addr else dma_map dma cpu_addr sz from_device)"

definition vring_unmap_one :: "vring_desc \<Rightarrow> 'a vring_virtqueue \<Rightarrow> 'a vring_virtqueue" where
  "vring_unmap_one d vq =
     (if \<not> vring_use_dma_api (vq_features vq) then vq
      else vq\<lparr>vq_unmaps := vq_unmaps vq @ [(d_addr d, d_len d)]\<rparr>)"

definition vring_mapping_error :: "dma_ops \<Rightarrow> 'a vring_virtqueue \<Rightarrow> u64 \<Rightarrow> bool" where
  "vring_mapping_error dma vq a \<longleftrightarrow> vring_use_dma_api (vq_features vq) \<and> dma_mapping_error dma a"

text \<open>
  \<open>kmalloc\<close> gives the address of the new table; the fields it leaves uninitialised are 0 here, and
  \<open>virtqueue_add\<close> writes each of them before the table is exposed.
\<close>

definition alloc_indirect :: "(nat \<Rightarrow> addr) \<Rightarrow> u32 \<Rightarrow> vmem \<Rightarrow> addr \<times> vmem" where
  "alloc_indirect kmalloc total_sg m =
     (let a = kmalloc (unat total_sg * 16) in
      if a = 0 then (0, m)
      else (a, m\<lparr>m_desc := (m_desc m)(a \<mapsto>
        map (\<lambda>i. \<lparr>d_addr = 0, d_len = 0, d_flags = 0, d_next = word_of_nat (Suc i)\<rparr>) [0..<unat total_sg])\<rparr>))"

definition kfree_desc :: "addr \<Rightarrow> vmem \<Rightarrow> vmem" where
  "kfree_desc a m = m\<lparr>m_desc := (m_desc m)(a := None)\<rparr>"

section \<open>Kicking the device\<close>

type_synonym 'x notify_fn = "u32 \<Rightarrow> vmem \<times> 'x \<Rightarrow> (bool \<times> vmem \<times> 'x) option"

definition virtqueue_kick_prepare :: "'a vring_virtqueue \<Rightarrow> vmem \<Rightarrow> (bool \<times> 'a vring_virtqueue) option" where
  "virtqueue_kick_prepare vq m =
     (let old = vq_avail_idx_shadow vq - ucast (vq_num_added vq);
          new = vq_avail_idx_shadow vq;
          vq = vq\<lparr>vq_num_added := 0\<rparr> in
      if vq_event vq then do {
        ev \<leftarrow> vring_avail_event (vq_vring vq) m;
        Some (vring_need_event ev new old, vq)
      }
      else do {
        u \<leftarrow> m_used m (vq_used vq);
        Some (u_flags u AND VRING_USED_F_NO_NOTIFY = 0, vq)
      })"

definition virtqueue_notify ::
  "'x notify_fn \<Rightarrow> 'a vring_virtqueue \<Rightarrow> vmem \<Rightarrow> 'x \<Rightarrow> (bool \<times> 'a vring_virtqueue \<times> vmem \<times> 'x) option" where
  "virtqueue_notify notify vq m x =
     (if vq_broken vq then Some (False, vq, m, x)
      else do {
        (ok, m, x) \<leftarrow> notify (vq_index vq) (m, x);
        if ok then Some (True, vq, m, x) else Some (False, vq\<lparr>vq_broken := True\<rparr>, m, x)
      })"

definition virtqueue_kick ::
  "'x notify_fn \<Rightarrow> 'a vring_virtqueue \<Rightarrow> vmem \<Rightarrow> 'x \<Rightarrow> (bool \<times> 'a vring_virtqueue \<times> vmem \<times> 'x) option" where
  "virtqueue_kick notify vq m x = do {
     (needs_kick, vq) \<leftarrow> virtqueue_kick_prepare vq m;
     if needs_kick then virtqueue_notify notify vq m x else Some (True, vq, m, x)
   }"

section \<open>Adding a buffer\<close>

text \<open>
  The two loops that fill the descriptors, over the pairs of a scatter entry and whether the device
  writes it. \<open>Inl\<close> is the jump to \<open>unmap_release\<close> with the position reached; \<open>Inr\<close> carries the
  positions \<open>prev\<close> (\<open>None\<close> while it is uninitialised) and \<open>i\<close>.
\<close>

fun fill_descs ::
  "dma_ops \<Rightarrow> 'a vring_virtqueue \<Rightarrow> addr \<Rightarrow> (scatter \<times> bool) list \<Rightarrow> u32 option \<Rightarrow> u32 \<Rightarrow> vmem \<Rightarrow>
   ((u32 \<times> vmem) + (u32 option \<times> u32 \<times> vmem)) option" where
  "fill_descs dma vq tab [] prev i m = Some (Inr (prev, i, m))"
| "fill_descs dma vq tab ((sg, wr) # sgs) prev i m =
     (let a = vring_map_one_sg dma vq sg wr in
      if vring_mapping_error dma vq a then Some (Inl (i, m))
      else do {
        m \<leftarrow> desc_upd m tab (unat i) (\<lambda>d. d\<lparr>d_flags := (if wr then VRING_DESC_F_NEXT OR VRING_DESC_F_WRITE else VRING_DESC_F_NEXT),
               d_addr := a, d_len := sg_length sg\<rparr>);
        d \<leftarrow> desc_get m tab (unat i);
        fill_descs dma vq tab sgs (Some i) (ucast (d_next d)) m
      })"

text \<open>The loop after \<open>unmap_release\<close>; it follows the queue's own table.\<close>

fun unmap_loop ::
  "addr \<Rightarrow> u32 \<Rightarrow> nat \<Rightarrow> u32 \<Rightarrow> vmem \<Rightarrow> 'a vring_virtqueue \<Rightarrow> 'a vring_virtqueue option" where
  "unmap_loop tab err_idx 0 i m vq = Some vq"
| "unmap_loop tab err_idx (Suc n) i m vq =
     (if i = err_idx then Some vq
      else do {
        d \<leftarrow> desc_get m tab (unat i);
        e \<leftarrow> desc_get m (vq_desc vq) (unat i);
        unmap_loop tab err_idx n (ucast (d_next e)) m (vring_unmap_one d vq)
      })"

definition add_release ::
  "addr \<Rightarrow> bool \<Rightarrow> u32 \<Rightarrow> u32 \<Rightarrow> u32 \<Rightarrow> 'a vring_virtqueue \<Rightarrow> vmem \<Rightarrow> (int \<times> 'a vring_virtqueue \<times> vmem) option" where
  "add_release tab indirect total_sg head i vq m = do {
     vq \<leftarrow> unmap_loop tab i (unat total_sg) head m vq;
     let vq = vq\<lparr>vq_num_free := vq_num_free vq + total_sg\<rparr>;
     Some (- EIO, vq, if indirect then kfree_desc tab m else m)
   }"

text \<open>From the filled descriptors on: the indirect entry, the free list, the token and the ring.\<close>

definition add_publish ::
  "addr \<Rightarrow> bool \<Rightarrow> u32 \<Rightarrow> u32 \<Rightarrow> u32 \<Rightarrow> 'a \<Rightarrow> 'a vring_virtqueue \<Rightarrow> vmem \<Rightarrow> ('a vring_virtqueue \<times> vmem) option" where
  "add_publish tab indirect descs_used head i data vq m = do {
     let vq = vq\<lparr>vq_num_free := vq_num_free vq - descs_used\<rparr>;
     fh \<leftarrow> (if indirect then do { d \<leftarrow> desc_get m (vq_desc vq) (unat head); Some (ucast (d_next d)) } else Some i);
     let vq = vq\<lparr>vq_free_head := fh\<rparr>;
     st \<leftarrow> aget (vq_desc_state vq) (unat head);
     let st = st\<lparr>ds_data := Some data\<rparr>;
     let st = (if indirect then st\<lparr>ds_indir := tab\<rparr> else st);
     let vq = vq\<lparr>vq_desc_state := (vq_desc_state vq)[unat head := st]\<rparr>;
     a \<leftarrow> m_avail m (vq_avail vq);
     r \<leftarrow> aset (a_ring a) (unat (ucast (vq_avail_idx_shadow vq) AND (vq_num vq - 1) :: u32)) (ucast head);
     let vq = vq\<lparr>vq_avail_idx_shadow := vq_avail_idx_shadow vq + 1\<rparr>;
     let m = m\<lparr>m_avail := (m_avail m)(vq_avail vq \<mapsto> a\<lparr>a_ring := r, a_idx := vq_avail_idx_shadow vq\<rparr>)\<rparr>;
     Some (vq\<lparr>vq_num_added := vq_num_added vq + 1\<rparr>, m)
   }"

definition virtqueue_add ::
  "dma_ops \<Rightarrow> (nat \<Rightarrow> addr) \<Rightarrow> 'x notify_fn \<Rightarrow> scatter list list \<Rightarrow> u32 \<Rightarrow> nat \<Rightarrow> nat \<Rightarrow> 'a option \<Rightarrow>
   'a vring_virtqueue \<Rightarrow> vmem \<Rightarrow> 'x \<Rightarrow> (int \<times> 'a vring_virtqueue \<times> vmem \<times> 'x) option" where
  "virtqueue_add dma kmalloc notify sgs total_sg out_sgs in_sgs data vq m x =
     (case data of None \<Rightarrow> None | Some tok \<Rightarrow>
      if vq_broken vq then Some (- EIO, vq, m, x)
      else if total_sg > vq_num vq \<or> total_sg = 0 then None
      else do {
        let head = vq_free_head vq;
        let (desc, m) = (if vq_indirect vq \<and> total_sg > 1 \<and> vq_num_free vq \<noteq> 0
                         then alloc_indirect kmalloc total_sg m else (0, m));
        let indirect = (desc \<noteq> 0);
        let tab = (if indirect then desc else vq_desc vq);
        let i = (if indirect then 0 else head);
        let descs_used = (if indirect then 1 else total_sg);
        if vq_num_free vq < descs_used then do {
          (m, x) \<leftarrow> (if out_sgs \<noteq> 0 then do { (ok, m, x) \<leftarrow> notify (vq_index vq) (m, x); Some (m, x) } else Some (m, x));
          Some (- ENOSPC, vq, if indirect then kfree_desc desc m else m, x)
        }
        else if length sgs < out_sgs + in_sgs then None
        else do {
          let outs = map (\<lambda>sg. (sg, False)) (concat (take out_sgs sgs));
          let ins = map (\<lambda>sg. (sg, True)) (concat (take in_sgs (drop out_sgs sgs)));
          f \<leftarrow> fill_descs dma vq tab (outs @ ins) None i m;
          case f of
            Inl (i, m) \<Rightarrow> do { (r, vq, m) \<leftarrow> add_release tab indirect total_sg head i vq m; Some (r, vq, m, x) }
          | Inr (prev, i, m) \<Rightarrow> do {
              prev \<leftarrow> prev;
              m \<leftarrow> desc_upd m tab (unat prev) (\<lambda>d. d\<lparr>d_flags := d_flags d AND NOT VRING_DESC_F_NEXT\<rparr>);
              let a = vring_map_single dma vq desc (ucast total_sg * 16) False;
              if indirect \<and> vring_mapping_error dma vq a
              then do { (r, vq, m) \<leftarrow> add_release tab indirect total_sg head i vq m; Some (r, vq, m, x) }
              else do {
                m \<leftarrow> (if indirect then desc_upd m (vq_desc vq) (unat head)
                        (\<lambda>d. d\<lparr>d_flags := VRING_DESC_F_INDIRECT, d_addr := a, d_len := total_sg * 16\<rparr>) else Some m);
                (vq, m) \<leftarrow> add_publish tab indirect descs_used head i tok vq m;
                if vq_num_added vq = 65535 then do {
                  (ok, vq, m, x) \<leftarrow> virtqueue_kick notify vq m x;
                  Some (0, vq, m, x)
                }
                else Some (0, vq, m, x)
              }
            }
        }
      })"

definition virtqueue_add_sgs ::
  "dma_ops \<Rightarrow> (nat \<Rightarrow> addr) \<Rightarrow> 'x notify_fn \<Rightarrow> scatter list list \<Rightarrow> nat \<Rightarrow> nat \<Rightarrow> 'a option \<Rightarrow>
   'a vring_virtqueue \<Rightarrow> vmem \<Rightarrow> 'x \<Rightarrow> (int \<times> 'a vring_virtqueue \<times> vmem \<times> 'x) option" where
  "virtqueue_add_sgs dma kmalloc notify sgs out_sgs in_sgs data vq m x =
     (if length sgs < out_sgs + in_sgs then None
      else virtqueue_add dma kmalloc notify sgs (word_of_nat (length (concat (take (out_sgs + in_sgs) sgs))))
        out_sgs in_sgs data vq m x)"

definition virtqueue_add_outbuf ::
  "dma_ops \<Rightarrow> (nat \<Rightarrow> addr) \<Rightarrow> 'x notify_fn \<Rightarrow> scatter list \<Rightarrow> u32 \<Rightarrow> 'a option \<Rightarrow>
   'a vring_virtqueue \<Rightarrow> vmem \<Rightarrow> 'x \<Rightarrow> (int \<times> 'a vring_virtqueue \<times> vmem \<times> 'x) option" where
  "virtqueue_add_outbuf dma kmalloc notify sg n data vq m x =
     virtqueue_add dma kmalloc notify [sg] n 1 0 data vq m x"

definition virtqueue_add_inbuf ::
  "dma_ops \<Rightarrow> (nat \<Rightarrow> addr) \<Rightarrow> 'x notify_fn \<Rightarrow> scatter list \<Rightarrow> u32 \<Rightarrow> 'a option \<Rightarrow>
   'a vring_virtqueue \<Rightarrow> vmem \<Rightarrow> 'x \<Rightarrow> (int \<times> 'a vring_virtqueue \<times> vmem \<times> 'x) option" where
  "virtqueue_add_inbuf dma kmalloc notify sg n data vq m x =
     virtqueue_add dma kmalloc notify [sg] n 0 1 data vq m x"

section \<open>Taking a used buffer back\<close>

text \<open>The \<open>while\<close> loop of \<open>detach_buf\<close>: it does not end on a table whose chain is a cycle.\<close>

partial_function (option) detach_walk ::
  "u32 \<Rightarrow> vmem \<Rightarrow> 'a vring_virtqueue \<Rightarrow> (u32 \<times> vring_desc \<times> 'a vring_virtqueue) option" where
  "detach_walk i m vq = do {
     d \<leftarrow> desc_get m (vq_desc vq) (unat i);
     if d_flags d AND VRING_DESC_F_NEXT \<noteq> 0
     then detach_walk (ucast (d_next d)) m
       ((vring_unmap_one d vq)\<lparr>vq_num_free := vq_num_free (vring_unmap_one d vq) + 1\<rparr>)
     else Some (i, d, vq)
   }"

definition detach_buf :: "'a vring_virtqueue \<Rightarrow> vmem \<Rightarrow> u32 \<Rightarrow> ('a vring_virtqueue \<times> vmem) option" where
  "detach_buf vq m head = do {
     st \<leftarrow> aget (vq_desc_state vq) (unat head);
     let st = st\<lparr>ds_data := None\<rparr>;
     let vq = vq\<lparr>vq_desc_state := (vq_desc_state vq)[unat head := st]\<rparr>;
     (i, d, vq) \<leftarrow> detach_walk head m vq;
     let vq = vring_unmap_one d vq;
     m \<leftarrow> desc_upd m (vq_desc vq) (unat i) (\<lambda>d. d\<lparr>d_next := ucast (vq_free_head vq)\<rparr>);
     let vq = vq\<lparr>vq_free_head := head, vq_num_free := vq_num_free vq + 1\<rparr>;
     if ds_indir st \<noteq> 0 then do {
       h \<leftarrow> desc_get m (vq_desc vq) (unat head);
       if d_flags h AND VRING_DESC_F_INDIRECT = 0 \<or> d_len h = 0 \<or> unat (d_len h) mod 16 \<noteq> 0 then None
       else do {
         vq \<leftarrow> opt_fold (\<lambda>j vq. do { e \<leftarrow> desc_get m (ds_indir st) j; Some (vring_unmap_one e vq) })
                 [0..<unat (d_len h) div 16] vq;
         Some (vq\<lparr>vq_desc_state := (vq_desc_state vq)[unat head := st\<lparr>ds_indir := 0\<rparr>]\<rparr>, kfree_desc (ds_indir st) m)
       }
     }
     else Some (vq, m)
   }"

definition more_used :: "'a vring_virtqueue \<Rightarrow> vmem \<Rightarrow> bool option" where
  "more_used vq m = do { u \<leftarrow> m_used m (vq_used vq); Some (vq_last_used_idx vq \<noteq> u_idx u) }"

text \<open>The token, and the length when the code stores it.\<close>

definition virtqueue_get_buf ::
  "'a vring_virtqueue \<Rightarrow> vmem \<Rightarrow> ('a option \<times> u32 option \<times> 'a vring_virtqueue \<times> vmem) option" where
  "virtqueue_get_buf vq m =
     (if vq_broken vq then Some (None, None, vq, m)
      else do {
        more \<leftarrow> more_used vq m;
        if \<not> more then Some (None, None, vq, m)
        else do {
          let last_used = unat (ucast (vq_last_used_idx vq) AND (vq_num vq - 1) :: u32);
          u \<leftarrow> m_used m (vq_used vq);
          e \<leftarrow> aget (u_ring u) last_used;
          let i = ue_id e;
          if i \<ge> vq_num vq then Some (None, Some (ue_len e), vq\<lparr>vq_broken := True\<rparr>, m)
          else do {
            st \<leftarrow> aget (vq_desc_state vq) (unat i);
            case ds_data st of
              None \<Rightarrow> Some (None, Some (ue_len e), vq\<lparr>vq_broken := True\<rparr>, m)
            | Some ret \<Rightarrow> do {
                (vq, m) \<leftarrow> detach_buf vq m i;
                let vq = vq\<lparr>vq_last_used_idx := vq_last_used_idx vq + 1\<rparr>;
                m \<leftarrow> (if vq_avail_flags_shadow vq AND VRING_AVAIL_F_NO_INTERRUPT = 0
                     then set_used_event (vq_vring vq) (vq_last_used_idx vq) m else Some m);
                Some (Some ret, Some (ue_len e), vq, m)
              }
          }
        }
      })"

section \<open>Callbacks\<close>

definition virtqueue_disable_cb :: "'a vring_virtqueue \<Rightarrow> vmem \<Rightarrow> ('a vring_virtqueue \<times> vmem) option" where
  "virtqueue_disable_cb vq m =
     (if vq_avail_flags_shadow vq AND VRING_AVAIL_F_NO_INTERRUPT = 0 then do {
        let vq = vq\<lparr>vq_avail_flags_shadow := vq_avail_flags_shadow vq OR VRING_AVAIL_F_NO_INTERRUPT\<rparr>;
        m \<leftarrow> (if vq_event vq then Some m else avail_upd m (vq_avail vq) (\<lambda>a. a\<lparr>a_flags := vq_avail_flags_shadow vq\<rparr>));
        Some (vq, m)
      }
      else Some (vq, m))"

text \<open>The first statement of both ways to enable callbacks.\<close>

definition clear_no_interrupt :: "'a vring_virtqueue \<Rightarrow> vmem \<Rightarrow> ('a vring_virtqueue \<times> vmem) option" where
  "clear_no_interrupt vq m =
     (if vq_avail_flags_shadow vq AND VRING_AVAIL_F_NO_INTERRUPT \<noteq> 0 then do {
        let vq = vq\<lparr>vq_avail_flags_shadow := vq_avail_flags_shadow vq AND NOT VRING_AVAIL_F_NO_INTERRUPT\<rparr>;
        m \<leftarrow> (if vq_event vq then Some m else avail_upd m (vq_avail vq) (\<lambda>a. a\<lparr>a_flags := vq_avail_flags_shadow vq\<rparr>));
        Some (vq, m)
      }
      else Some (vq, m))"

definition virtqueue_enable_cb_prepare :: "'a vring_virtqueue \<Rightarrow> vmem \<Rightarrow> (u16 \<times> 'a vring_virtqueue \<times> vmem) option" where
  "virtqueue_enable_cb_prepare vq m = do {
     (vq, m) \<leftarrow> clear_no_interrupt vq m;
     m \<leftarrow> set_used_event (vq_vring vq) (vq_last_used_idx vq) m;
     Some (vq_last_used_idx vq, vq, m)
   }"

definition virtqueue_poll :: "'a vring_virtqueue \<Rightarrow> vmem \<Rightarrow> u16 \<Rightarrow> bool option" where
  "virtqueue_poll vq m last_used_idx = do { u \<leftarrow> m_used m (vq_used vq); Some (last_used_idx \<noteq> u_idx u) }"

definition virtqueue_enable_cb :: "'a vring_virtqueue \<Rightarrow> vmem \<Rightarrow> (bool \<times> 'a vring_virtqueue \<times> vmem) option" where
  "virtqueue_enable_cb vq m = do {
     (l, vq, m) \<leftarrow> virtqueue_enable_cb_prepare vq m;
     p \<leftarrow> virtqueue_poll vq m l;
     Some (\<not> p, vq, m)
   }"

definition virtqueue_enable_cb_delayed :: "'a vring_virtqueue \<Rightarrow> vmem \<Rightarrow> (bool \<times> 'a vring_virtqueue \<times> vmem) option" where
  "virtqueue_enable_cb_delayed vq m = do {
     (vq, m) \<leftarrow> clear_no_interrupt vq m;
     let bufs = (word_of_nat (unat (vq_avail_idx_shadow vq - vq_last_used_idx vq) * 3 div 4) :: u16);
     m \<leftarrow> set_used_event (vq_vring vq) (vq_last_used_idx vq + bufs) m;
     u \<leftarrow> m_used m (vq_used vq);
     Some (\<not> u_idx u - vq_last_used_idx vq > bufs, vq, m)
   }"

function detach_unused_from ::
  "nat \<Rightarrow> 'a vring_virtqueue \<Rightarrow> vmem \<Rightarrow> ('a option \<times> 'a vring_virtqueue \<times> vmem) option" where
  "detach_unused_from i vq m =
     (if i < unat (vq_num vq) then do {
        st \<leftarrow> aget (vq_desc_state vq) i;
        case ds_data st of
          None \<Rightarrow> detach_unused_from (Suc i) vq m
        | Some buf \<Rightarrow> do {
            (vq, m) \<leftarrow> detach_buf vq m (word_of_nat i);
            let vq = vq\<lparr>vq_avail_idx_shadow := vq_avail_idx_shadow vq - 1\<rparr>;
            m \<leftarrow> avail_upd m (vq_avail vq) (\<lambda>a. a\<lparr>a_idx := vq_avail_idx_shadow vq\<rparr>);
            Some (Some buf, vq, m)
          }
      }
      else if vq_num_free vq \<noteq> vq_num vq then None
      else Some (None, vq, m))"
  by pat_completeness auto
termination
  by (relation "measure (\<lambda>(i, vq, m). unat (vq_num vq) - i)") auto

declare detach_unused_from.simps [simp del]

definition virtqueue_detach_unused_buf ::
  "'a vring_virtqueue \<Rightarrow> vmem \<Rightarrow> ('a option \<times> 'a vring_virtqueue \<times> vmem) option" where
  "virtqueue_detach_unused_buf vq m = detach_unused_from 0 vq m"

text \<open>The driver's callback acts on \<open>'s\<close>; the result says whether the interrupt was handled.\<close>

definition vring_interrupt :: "('s \<Rightarrow> 's) \<Rightarrow> 'a vring_virtqueue \<Rightarrow> vmem \<Rightarrow> 's \<Rightarrow> (bool \<times> 's) option" where
  "vring_interrupt callback vq m s = do {
     more \<leftarrow> more_used vq m;
     if \<not> more then Some (False, s)
     else if vq_broken vq then Some (True, s)
     else Some (True, if vq_callback vq then callback s else s)
   }"

section \<open>Creating a queue\<close>

definition link_free :: "nat \<Rightarrow> vring_desc list \<Rightarrow> vring_desc list" where
  "link_free n t = map (\<lambda>i. if i < n - 1 then (t ! i)\<lparr>d_next := word_of_nat (Suc i)\<rparr> else t ! i) [0..<length t]"

definition vring_new_virtqueue_inner ::
  "bool \<Rightarrow> u32 \<Rightarrow> vring \<Rightarrow> u64 \<Rightarrow> bool \<Rightarrow> vmem \<Rightarrow> ('a vring_virtqueue option \<times> vmem) option" where
  "vring_new_virtqueue_inner kmalloc_ok index vr features callback m =
     (if \<not> kmalloc_ok then Some (None, m)
      else do {
        let ev = bit features 29;
        let fl = (if callback then 0 else VRING_AVAIL_F_NO_INTERRUPT);
        m \<leftarrow> (if callback \<or> ev then Some m else avail_upd m (vr_avail vr) (\<lambda>a. a\<lparr>a_flags := fl\<rparr>));
        t \<leftarrow> m_desc m (vr_desc vr);
        if length t < unat (vr_num vr - 1) then None
        else Some (Some \<lparr>vq_index = index, vq_num_free = vr_num vr, vq_callback = callback,
            vq_features = features, vq_vring = vr, vq_broken = False,
            vq_indirect = bit features VIRTIO_RING_F_INDIRECT_DESC, vq_event = ev, vq_free_head = 0,
            vq_num_added = 0, vq_last_used_idx = 0, vq_avail_flags_shadow = fl, vq_avail_idx_shadow = 0,
            vq_we_own_ring = False, vq_queue_size_in_bytes = 0, vq_queue_dma_addr = 0,
            vq_desc_state = replicate (unat (vr_num vr)) \<lparr>ds_data = None, ds_indir = 0\<rparr>, vq_unmaps = []\<rparr>,
          m\<lparr>m_desc := (m_desc m)(vr_desc vr \<mapsto> link_free (Suc (unat (vr_num vr - 1))) t)\<rparr>)
      })"

text \<open>The zeroed pages of a new ring, seen as its three objects.\<close>

definition place_ring :: "vring \<Rightarrow> vmem \<Rightarrow> vmem" where
  "place_ring vr m =
     (let n = unat (vr_num vr) in
      m\<lparr>m_desc := (m_desc m)(vr_desc vr \<mapsto> replicate n \<lparr>d_addr = 0, d_len = 0, d_flags = 0, d_next = 0\<rparr>),
        m_avail := (m_avail m)(vr_avail vr \<mapsto> \<lparr>a_flags = 0, a_idx = 0, a_ring = replicate (Suc n) 0\<rparr>),
        m_used := (m_used m)(vr_used vr \<mapsto>
          \<lparr>u_flags = 0, u_idx = 0, u_ring = replicate n \<lparr>ue_id = 0, ue_len = 0\<rparr>, u_avail_event = 0\<rparr>)\<rparr>)"

definition free_ring :: "vring \<Rightarrow> vmem \<Rightarrow> vmem" where
  "free_ring vr m = m\<lparr>m_desc := (m_desc m)(vr_desc vr := None), m_avail := (m_avail m)(vr_avail vr := None),
     m_used := (m_used m)(vr_used vr := None)\<rparr>"

text \<open>
  The loop that halves the size until the allocation succeeds: the size reached and the block, null
  when the loop ended without one.
\<close>

function shrink_ring :: "(u32 \<Rightarrow> addr) \<Rightarrow> u64 \<Rightarrow> u32 \<Rightarrow> u32 \<times> addr" where
  "shrink_ring alloc align n =
     (if n \<noteq> 0 \<and> vring_size n align > 4096 then
        (if alloc (vring_size n align) \<noteq> 0 then (n, alloc (vring_size n align))
         else shrink_ring alloc align (n div 2))
      else (n, 0))"
  by pat_completeness auto
termination
proof (relation "measure (\<lambda>(alloc, align, n). unat n)", goal_cases)
  case (2 alloc align n)
  then have "0 < unat n" by (simp add: unat_gt_0)
  then show ?case by (simp add: unat_div)
qed simp

declare shrink_ring.simps [simp del]

definition vring_create_virtqueue ::
  "(u32 \<Rightarrow> addr) \<Rightarrow> bool \<Rightarrow> u32 \<Rightarrow> u32 \<Rightarrow> u64 \<Rightarrow> u64 \<Rightarrow> bool \<Rightarrow> vmem \<Rightarrow>
   ('a vring_virtqueue option \<times> vmem) option" where
  "vring_create_virtqueue alloc kmalloc_ok index n align features callback m =
     (if n AND (n - 1) \<noteq> 0 then Some (None, m)
      else let (n, block) = shrink_ring alloc align n in
        if n = 0 then Some (None, m)
        else let block = (if block = 0 then alloc (vring_size n align) else block) in
          if block = 0 then Some (None, m)
          else do {
            let vr = vring_init n block align;
            (vq, m') \<leftarrow> vring_new_virtqueue_inner kmalloc_ok index vr features callback (place_ring vr m);
            case vq of
              None \<Rightarrow> Some (None, free_ring vr m')
            | Some vq \<Rightarrow> Some (Some (vq\<lparr>vq_queue_dma_addr := block,
                vq_queue_size_in_bytes := ucast (vring_size n align), vq_we_own_ring := True\<rparr>), m')
          })"

text \<open>The queue is gone from the device's list and its ring from memory.\<close>

definition vring_del_virtqueue :: "'a vring_virtqueue \<Rightarrow> 'a vring_virtqueue list \<Rightarrow> vmem \<Rightarrow> 'a vring_virtqueue list \<times> vmem" where
  "vring_del_virtqueue vq vqs m =
     (filter (\<lambda>v. vq_index v \<noteq> vq_index vq) vqs, if vq_we_own_ring vq then free_ring (vq_vring vq) m else m)"

definition vring_transport_features :: "u64 \<Rightarrow> u64" where
  "vring_transport_features f =
     fold (\<lambda>i f. if i \<in> {VIRTIO_RING_F_INDIRECT_DESC, 29, 32, VIRTIO_F_IOMMU_PLATFORM} then f else unset_bit i f) [28..<34] f"

definition virtqueue_get_vring_size :: "'a vring_virtqueue \<Rightarrow> u32" where
  "virtqueue_get_vring_size vq = vq_num vq"

definition virtqueue_get_desc_addr :: "'a vring_virtqueue \<Rightarrow> addr option" where
  "virtqueue_get_desc_addr vq = (if vq_we_own_ring vq then Some (vq_queue_dma_addr vq) else None)"

definition virtqueue_get_avail_addr :: "'a vring_virtqueue \<Rightarrow> addr option" where
  "virtqueue_get_avail_addr vq =
     (if vq_we_own_ring vq then Some (vq_queue_dma_addr vq + (vq_avail vq - vq_desc vq)) else None)"

definition virtqueue_get_used_addr :: "'a vring_virtqueue \<Rightarrow> addr option" where
  "virtqueue_get_used_addr vq =
     (if vq_we_own_ring vq then Some (vq_queue_dma_addr vq + (vq_used vq - vq_desc vq)) else None)"

end
