(* ===== verification/Kstring.thy ===== *)
theory Kstring
  imports LKL_Prelude
begin

text \<open>
  The kernel's number parsing: \<open>lib/kstrtox.c\<close>, the \<open>simple_strto*\<close> functions and
  \<open>vsscanf\<close> of \<open>lib/vsprintf.c\<close>, and \<open>lib/cmdline.c\<close>; and the decimal and
  hexadecimal output of the host's \<open>snprintf\<close>.

  A C string is the list of its characters; the terminating NUL is what \<open>hd0\<close> reads at the end
  of the list. A pointer into a string is the rest of the string from there on. \<open>long\<close> and
  \<open>long long\<close> have 64 bits; a signed result is the word, read with \<open>sint\<close>.
\<close>

section \<open>Characters\<close>

abbreviation (input) NUL :: char where "NUL \<equiv> CHR 0x00"

definition hd0 :: "string \<Rightarrow> char" where
  "hd0 s = (case s of [] \<Rightarrow> NUL | c # _ \<Rightarrow> c)"

lemma hd0_simps [simp]: "hd0 [] = NUL" "hd0 (c # s) = c"
  by (simp_all add: hd0_def)

definition code :: "char \<Rightarrow> nat" where
  "code c = of_char c"

definition isdigit :: "char \<Rightarrow> bool" where
  "isdigit c \<longleftrightarrow> 48 \<le> code c \<and> code c \<le> 57"

definition isxdigit :: "char \<Rightarrow> bool" where
  "isxdigit c \<longleftrightarrow> isdigit c \<or> 65 \<le> code c \<and> code c \<le> 70 \<or> 97 \<le> code c \<and> code c \<le> 102"

text \<open>The characters with the bit \<open>_S\<close> in the table of \<open>lib/ctype.c\<close>.\<close>

definition isspace :: "char \<Rightarrow> bool" where
  "isspace c \<longleftrightarrow> 9 \<le> code c \<and> code c \<le> 13 \<or> code c = 32 \<or> code c = 160"

definition tolower :: "char \<Rightarrow> nat" where
  "tolower c = code c OR 32"

definition skip_spaces :: "string \<Rightarrow> string" where
  "skip_spaces s = dropWhile isspace s"

section \<open>Parsing integers\<close>

definition parse_integer_fixup_radix :: "string \<Rightarrow> u32 \<Rightarrow> string \<times> u32" where
  "parse_integer_fixup_radix s base =
     (let base = (if base = 0 then
                    (if hd0 s = CHR ''0'' then
                       (if tolower (hd0 (drop 1 s)) = 120 \<and> isxdigit (hd0 (drop 2 s)) then 16 else 8)
                     else 10)
                  else base)
      in (if base = 16 \<and> hd0 s = CHR ''0'' \<and> tolower (hd0 (drop 1 s)) = 120 then (drop 2 s, base) else (s, base)))"

definition digit_val :: "char \<Rightarrow> nat option" where
  "digit_val c =
     (if isdigit c then Some (code c - 48)
      else if 97 \<le> tolower c \<and> tolower c \<le> 102 then Some (tolower c - 97 + 10)
      else None)"

text \<open>
  The loop of \<open>_parse_integer\<close>. Its result is the number of characters consumed, the overflow
  bit the code ors into it, and the value.
\<close>

fun parse_integer_loop :: "string \<Rightarrow> u32 \<Rightarrow> u64 \<Rightarrow> nat \<Rightarrow> bool \<Rightarrow> nat \<times> bool \<times> u64" where
  "parse_integer_loop [] base res rv ov = (rv, ov, res)"
| "parse_integer_loop (c # s) base res rv ov =
     (if c = NUL then (rv, ov, res)
      else case digit_val c of
        None \<Rightarrow> (rv, ov, res)
      | Some val \<Rightarrow>
          if val \<ge> unat base then (rv, ov, res)
          else parse_integer_loop s base (res * ucast base + word_of_nat val) (Suc rv)
            (ov \<or> drop_bit 60 res \<noteq> 0 \<and> unat res > (2 ^ 64 - 1 - val) div unat base))"

definition parse_integer :: "string \<Rightarrow> u32 \<Rightarrow> nat \<times> bool \<times> u64" where
  "parse_integer s base = parse_integer_loop s base 0 0 False"

definition simple_strtoull :: "string \<Rightarrow> u32 \<Rightarrow> u64 \<times> string" where
  "simple_strtoull cp base =
     (let (cp, base) = parse_integer_fixup_radix cp base;
          (rv, ov, result) = parse_integer cp base
      in (result, drop rv cp))"

definition simple_strtoul :: "string \<Rightarrow> u32 \<Rightarrow> u64 \<times> string" where
  "simple_strtoul cp base = simple_strtoull cp base"

definition simple_strtol :: "string \<Rightarrow> u32 \<Rightarrow> u64 \<times> string" where
  "simple_strtol cp base =
     (if hd0 cp = CHR ''-'' then (let (r, e) = simple_strtoul (drop 1 cp) base in (- r, e))
      else simple_strtoul cp base)"

definition simple_strtoll :: "string \<Rightarrow> u32 \<Rightarrow> u64 \<times> string" where
  "simple_strtoll cp base =
     (if hd0 cp = CHR ''-'' then (let (r, e) = simple_strtoull (drop 1 cp) base in (- r, e))
      else simple_strtoull cp base)"

abbreviation (input) ERANGE :: int where "ERANGE \<equiv> 34"

text \<open>\<open>Inl\<close> is the error code, \<open>Inr\<close> the number stored.\<close>

definition kstrtoull_inner :: "string \<Rightarrow> u32 \<Rightarrow> int + u64" where
  "kstrtoull_inner s base =
     (let (s, base) = parse_integer_fixup_radix s base;
          (rv, ov, res) = parse_integer s base
      in if ov then Inl (- ERANGE)
         else if rv = 0 then Inl (- EINVAL)
         else let s = drop rv s; s = (if hd0 s = CHR 0x0A then drop 1 s else s) in
           if hd0 s \<noteq> NUL then Inl (- EINVAL) else Inr res)"

definition kstrtoull :: "string \<Rightarrow> u32 \<Rightarrow> int + u64" where
  "kstrtoull s base = kstrtoull_inner (if hd0 s = CHR ''+'' then drop 1 s else s) base"

definition kstrtoll :: "string \<Rightarrow> u32 \<Rightarrow> int + u64" where
  "kstrtoll s base =
     (if hd0 s = CHR ''-'' then
        case kstrtoull_inner (drop 1 s) base of
          Inl e \<Rightarrow> Inl e
        | Inr tmp \<Rightarrow> if sint (- tmp) > 0 then Inl (- ERANGE) else Inr (- tmp)
      else
        case kstrtoull s base of
          Inl e \<Rightarrow> Inl e
        | Inr tmp \<Rightarrow> if sint tmp < 0 then Inl (- ERANGE) else Inr tmp)"

section \<open>Command line options\<close>

text \<open>The cases of the switch fall through: the suffix \<open>E\<close> shifts six times, \<open>K\<close> once.\<close>

definition memparse :: "string \<Rightarrow> u64 \<times> string" where
  "memparse ptr =
     (let (ret, e) = simple_strtoull ptr 0; c = hd0 e;
          k = (if c \<in> {CHR ''E'', CHR ''e''} then 6 else if c \<in> {CHR ''P'', CHR ''p''} then 5
               else if c \<in> {CHR ''T'', CHR ''t''} then 4 else if c \<in> {CHR ''G'', CHR ''g''} then 3
               else if c \<in> {CHR ''M'', CHR ''m''} then 2 else if c \<in> {CHR ''K'', CHR ''k''} then 1 else 0) :: nat
      in (push_bit (10 * k) ret, if k = 0 then e else drop 1 e))"

text \<open>Result, the number stored (when one is) and the rest of the string.\<close>

definition get_option :: "string \<Rightarrow> int \<times> int option \<times> string" where
  "get_option str =
     (if hd0 str = NUL then (0, None, str)
      else
        let (v, e) = simple_strtol str 0; n = sint (ucast v :: u32) in
        if length e = length str then (0, Some n, e)
        else if hd0 e = CHR '','' then (2, Some n, drop 1 e)
        else if hd0 e = CHR ''-'' then (3, Some n, e)
        else (1, Some n, e))"

function parse_option_str :: "string \<Rightarrow> string \<Rightarrow> bool" where
  "parse_option_str str option =
     (if hd0 str = NUL then False
      else
        let str' = (if take (length option) str = option then drop (length option) str else str) in
        if take (length option) str = option \<and> (hd0 str' = NUL \<or> hd0 str' = CHR '','') then True
        else let s = dropWhile (\<lambda>c. c \<noteq> NUL \<and> c \<noteq> CHR '','') str' in
          if hd0 s = CHR '','' then parse_option_str (drop 1 s) option
          else parse_option_str [] option)"
  by pat_completeness auto
termination
proof (relation "measure (\<lambda>(str, option). length str)", goal_cases)
  case (2 str option str' s)
  have "length s \<le> length str'" unfolding 2(4) by (rule length_dropWhile_le)
  also have "\<dots> \<le> length str" using 2(2) by simp
  finally have "length s \<le> length str" .
  moreover have "s \<noteq> []" using 2(5) by auto
  ultimately show ?case by (cases s) simp_all
next
  case (3 str option str' s)
  then show ?case by (cases str) simp_all
qed simp

section \<open>Scanning\<close>

text \<open>What a conversion stores through the next argument: an integer of the argument's type or a string.\<close>

datatype scan_out = OutInt int | OutStr string

text \<open>\<open>skip_atoi\<close>, called at a digit: the number and the rest of the format.\<close>

fun skip_atoi :: "string \<Rightarrow> int \<Rightarrow> int \<times> string" where
  "skip_atoi [] i = (i, [])"
| "skip_atoi (c # s) i =
     (let i = i * 10 + int (code c) - 48 in if isdigit (hd0 s) then skip_atoi s i else (i, s))"

text \<open>The length modifiers, with \<open>hh\<close> and \<open>ll\<close> as the code names them.\<close>

datatype qualifier = QNone | Qh | QH | Ql | QL | Qz

definition scan_qualifier :: "string \<Rightarrow> qualifier \<times> string" where
  "scan_qualifier fmt =
     (let c = hd0 fmt in
      if c = CHR ''h'' then (if hd0 (drop 1 fmt) = CHR ''h'' then (QH, drop 2 fmt) else (Qh, drop 1 fmt))
      else if c = CHR ''l'' then (if hd0 (drop 1 fmt) = CHR ''l'' then (QL, drop 2 fmt) else (Ql, drop 1 fmt))
      else if c = CHR ''L'' then (QL, drop 1 fmt)
      else if c = CHR ''z'' \<or> c = CHR ''Z'' then (Qz, drop 1 fmt)
      else (QNone, fmt))"

text \<open>The value as the argument's type holds it.\<close>

definition scan_store :: "qualifier \<Rightarrow> bool \<Rightarrow> u64 \<Rightarrow> int" where
  "scan_store q is_sign v =
     (case q of
        QH \<Rightarrow> if is_sign then sint (ucast v :: u8) else uint (ucast v :: u8)
      | Qh \<Rightarrow> if is_sign then sint (ucast v :: u16) else uint (ucast v :: u16)
      | Ql \<Rightarrow> if is_sign then sint v else uint v
      | QL \<Rightarrow> if is_sign then sint v else uint v
      | Qz \<Rightarrow> uint v
      | QNone \<Rightarrow> if is_sign then sint (ucast v :: u32) else uint (ucast v :: u32))"

text \<open>Division towards zero of the signed and the unsigned reading, as \<open>div_s64\<close> and \<open>div_u64\<close>.\<close>

definition scan_div :: "bool \<Rightarrow> u32 \<Rightarrow> u64 \<Rightarrow> u64" where
  "scan_div is_sign base v =
     (if is_sign then word_of_int (sgn (sint v) * (\<bar>sint v\<bar> div uint base)) else v div ucast base)"

text \<open>
  The integer conversions: \<open>None\<close> is the \<open>break\<close> on a string that does not start with a digit,
  otherwise the stored value and the rest of the string.
\<close>

definition scan_integer :: "u32 \<Rightarrow> bool \<Rightarrow> qualifier \<Rightarrow> int \<Rightarrow> string \<Rightarrow> (scan_out \<times> string) option" where
  "scan_integer base is_sign q field_width str =
     (let str = skip_spaces str;
          digit = (if is_sign \<and> hd0 str = CHR ''-'' then hd0 (drop 1 str) else hd0 str) in
      if digit = NUL \<or> base = 16 \<and> \<not> isxdigit digit \<or> base = 10 \<and> \<not> isdigit digit \<or>
         base = 8 \<and> (\<not> isdigit digit \<or> code digit > 55) \<or> base = 0 \<and> \<not> isdigit digit
      then None
      else
        let (v, nxt) = (if is_sign then (if q \<noteq> QL then simple_strtol str base else simple_strtoll str base)
                        else (if q \<noteq> QL then simple_strtoul str base else simple_strtoull str base));
            k = length str - length nxt;
            b = (if base = 0 then snd (parse_integer_fixup_radix str base) else base);
            (v, nxt) = (if field_width > 0 \<and> int k > field_width
                        then ((scan_div is_sign b ^^ (k - nat field_width)) v, drop (nat field_width) str) else (v, nxt))
        in Some (OutInt (scan_store q is_sign v), nxt))"

text \<open>The conversions \<open>%c\<close> and \<open>%s\<close>: at most \<open>n\<close> characters.\<close>

fun scan_chars :: "nat \<Rightarrow> string \<Rightarrow> string \<times> string" where
  "scan_chars n [] = ([], [])"
| "scan_chars n (c # s) =
     (if n > 1 \<and> hd0 s \<noteq> NUL then (let (t, r) = scan_chars (n - 1) s in (c # t, r)) else ([c], s))"

fun scan_word :: "nat \<Rightarrow> string \<Rightarrow> string \<times> string" where
  "scan_word 0 s = ([], s)"
| "scan_word (Suc n) s =
     (if hd0 s = NUL \<or> isspace (hd0 s) then ([], s)
      else let (t, r) = scan_word n (drop 1 s) in (hd0 s # t, r))"

text \<open>The conversion \<open>%[...]\<close>; \<open>None\<close> is the early \<open>return num\<close>. The bitmap is the set of characters.\<close>

definition scan_set :: "int \<Rightarrow> string \<Rightarrow> string \<Rightarrow> (scan_out \<times> string \<times> string) option" where
  "scan_set field_width fmt str =
     (if field_width = - 1 then None
      else
        let negate = (hd0 fmt = CHR ''^''); fmt = (if negate then drop 1 fmt else fmt);
            chars = takeWhile (\<lambda>c. c \<noteq> NUL \<and> c \<noteq> CHR '']'') fmt; fmt = drop (length chars) fmt in
        if hd0 fmt = NUL \<or> chars = [] then None
        else
          let ok = (\<lambda>c. c \<noteq> NUL \<and> (c \<in> set chars) \<noteq> negate) in
          if \<not> ok (hd0 str) then None
          else
            let t = take (nat field_width) (takeWhile ok str)
            in Some (OutStr t, drop 1 fmt, drop (length t) str))"

text \<open>
  One conversion. Each part gives the rest of the format and of the string, the values stored and the
  change of \<open>num\<close>; \<open>None\<close> stops the scan. First \<open>%*\<close>, which skips a word of the string.
\<close>

type_synonym scan_step = "(string \<times> string \<times> scan_out list \<times> int) option"

definition scan_skip :: "string \<Rightarrow> string \<Rightarrow> scan_step" where
  "scan_skip fmt str =
     (let f = dropWhile (\<lambda>c. \<not> isspace c \<and> c \<noteq> CHR ''%'' \<and> c \<noteq> NUL \<and> c \<noteq> CHR ''['') fmt in
      if hd0 str = NUL \<or> hd0 f = CHR ''['' then None
      else Some (f, dropWhile (\<lambda>c. \<not> isspace c \<and> c \<noteq> NUL) str, [], 0))"

text \<open>The field width, kept in 16 bits: -1 when there is none, and the scan stops at one that is not positive.\<close>

definition scan_width :: "string \<Rightarrow> (int \<times> string) option" where
  "scan_width fmt =
     (if isdigit (hd0 fmt) then
        let (i, f) = skip_atoi fmt 0; w = sint (word_of_int i :: u16) in if w \<le> 0 then None else Some (w, f)
      else Some (- 1, fmt))"

text \<open>The \<open>switch\<close> on the conversion character \<open>c\<close>, with the rest of the format after it.\<close>

definition scan_switch :: "char \<Rightarrow> int \<Rightarrow> qualifier \<Rightarrow> string \<Rightarrow> string \<Rightarrow> scan_step" where
  "scan_switch c w q fmt str =
     (let int_conv = (\<lambda>base sg. map_option (\<lambda>(v, r). (fmt, r, [v], 1)) (scan_integer base sg q w str)) in
      if c = CHR ''c'' then (let (t, r) = scan_chars (if w = - 1 then 1 else nat w) str in Some (fmt, r, [OutStr t], 1))
      else if c = CHR ''s'' then
        (let (t, r) = scan_word (if w = - 1 then 32767 else nat w) (skip_spaces str) in Some (fmt, r, [OutStr t], 1))
      else if c = CHR ''['' then map_option (\<lambda>(v, f, r). (f, r, [v], 1)) (scan_set w fmt str)
      else if c = CHR ''o'' then int_conv 8 False
      else if c = CHR ''x'' \<or> c = CHR ''X'' then int_conv 16 False
      else if c = CHR ''i'' then int_conv 0 True
      else if c = CHR ''d'' then int_conv 10 True
      else if c = CHR ''u'' then int_conv 10 False
      else if c = CHR ''%'' then (if hd0 str = CHR ''%'' then Some (fmt, drop 1 str, [], 0) else None)
      else None)"

definition scan_conv :: "string \<Rightarrow> string \<Rightarrow> string \<Rightarrow> scan_step" where
  "scan_conv buf fmt str =
     (if hd0 fmt = CHR ''*'' then scan_skip fmt str
      else do {
        (w, fmt) \<leftarrow> scan_width fmt;
        let (q, fmt) = scan_qualifier fmt;
        if hd0 fmt = NUL then None
        else if hd0 fmt = CHR ''n'' then Some (drop 1 fmt, str, [OutInt (int (length buf) - int (length str))], 0)
        else if hd0 str = NUL then None
        else scan_switch (hd0 fmt) w q (drop 1 fmt) str
      })"

lemma skip_atoi_length: "length (snd (skip_atoi s i)) \<le> length s"
  by (induction s i rule: skip_atoi.induct) (auto simp: Let_def)

lemma scan_width_length: "scan_width fmt = Some (w, f) \<Longrightarrow> length f \<le> length fmt"
  using skip_atoi_length [of fmt 0] by (auto simp: scan_width_def Let_def split: prod.splits if_splits)

lemma scan_qualifier_length: "length (snd (scan_qualifier fmt)) \<le> length fmt"
  by (simp add: scan_qualifier_def Let_def)

lemma scan_set_length: "scan_set w fmt str = Some (v, f, r) \<Longrightarrow> length f \<le> length fmt"
  by (auto simp: scan_set_def Let_def split: if_splits)

lemma scan_switch_length: "scan_switch c w q fmt str = Some (f, r, vs, n) \<Longrightarrow> length f \<le> length fmt"
  by (auto simp: scan_switch_def Let_def dest: scan_set_length split: if_splits prod.splits)

lemma scan_conv_length:
  assumes "scan_conv buf fmt str = Some (f, r, vs, n)"
  shows "length f \<le> length fmt"
proof (cases "hd0 fmt = CHR ''*''")
  case True
  with assms show ?thesis by (auto simp: scan_conv_def scan_skip_def Let_def length_dropWhile_le split: if_splits)
next
  case False
  then obtain w g where g: "scan_width fmt = Some (w, g)" using assms by (auto simp: scan_conv_def bind_eq_Some_conv)
  let ?f = "snd (scan_qualifier g)"
  have "length ?f \<le> length fmt"
    using scan_width_length [OF g] scan_qualifier_length [of g] by linarith
  moreover from assms False g have "f = drop 1 ?f \<or> (\<exists>q. scan_switch (hd0 ?f) w q (drop 1 ?f) str = Some (f, r, vs, n))"
    by (auto simp: scan_conv_def Let_def split: if_splits prod.splits)
  then have "length f \<le> length ?f" by (auto dest: scan_switch_length)
  ultimately show ?thesis by linarith
qed

function vsscanf_loop :: "string \<Rightarrow> string \<Rightarrow> string \<Rightarrow> int \<Rightarrow> scan_out list \<Rightarrow> int \<times> scan_out list" where
  "vsscanf_loop buf fmt str num outs =
     (if hd0 fmt = NUL then (num, outs)
      else
        let f = (if isspace (hd0 fmt) then skip_spaces (drop 1 fmt) else fmt);
            s = (if isspace (hd0 fmt) then skip_spaces str else str) in
        if hd0 f \<noteq> CHR ''%'' \<and> hd0 f \<noteq> NUL then
          (if hd0 f \<noteq> hd0 s then (num, outs) else vsscanf_loop buf (drop 1 f) (drop 1 s) num outs)
        else if hd0 f = NUL then (num, outs)
        else (case scan_conv buf (drop 1 f) s of
            None \<Rightarrow> (num, outs)
          | Some (f, s, vs, n) \<Rightarrow> vsscanf_loop buf f s (num + n) (outs @ vs)))"
  by pat_completeness auto
termination
proof (relation "measure (\<lambda>(buf, fmt, str, num, outs). length fmt)", goal_cases)
  case 1
  then show ?case by simp
next
  case (2 buf fmt str num outs f s)
  have "length f \<le> length fmt" using 2(2) by (auto simp: skip_spaces_def intro: order_trans [OF length_dropWhile_le])
  moreover have "f \<noteq> []" using 2(4) by auto
  ultimately show ?case by (cases f) simp_all
next
  case (3 buf fmt str num outs f s x f' y s' z vs n)
  have "length f \<le> length fmt" using 3(2) by (auto simp: skip_spaces_def intro: order_trans [OF length_dropWhile_le])
  moreover have "f \<noteq> []" using 3 by auto
  moreover have "length f' \<le> length (drop 1 f)" by (rule scan_conv_length [of buf _ s f' s' vs n]) (use 3 in simp)
  ultimately show ?case by (cases f) simp_all
qed

declare vsscanf_loop.simps [simp del]

definition vsscanf :: "string \<Rightarrow> string \<Rightarrow> int \<times> scan_out list" where
  "vsscanf buf fmt = vsscanf_loop buf fmt buf 0 []"

definition sscanf :: "string \<Rightarrow> string \<Rightarrow> int \<times> scan_out list" where
  "sscanf buf fmt = vsscanf buf fmt"

section \<open>Printing numbers\<close>

text \<open>The digits of \<open>%d\<close> for a non-negative number and of \<open>%x\<close>, most significant first.\<close>

definition digit_char :: "nat \<Rightarrow> char" where
  "digit_char d = char_of (if d < 10 then 48 + d else 87 + d)"

function num_str :: "nat \<Rightarrow> nat \<Rightarrow> string" where
  "num_str b n = (if b < 2 \<or> n < b then [digit_char n] else num_str b (n div b) @ [digit_char (n mod b)])"
  by pat_completeness auto
termination
  by (relation "measure snd") auto

declare num_str.simps [simp del]

abbreviation dec_str :: "nat \<Rightarrow> string" where "dec_str \<equiv> num_str 10"
abbreviation hex_str :: "nat \<Rightarrow> string" where "hex_str \<equiv> num_str 16"

definition int_str :: "int \<Rightarrow> string" where
  "int_str i = (if i < 0 then CHR ''-'' # dec_str (nat (- i)) else dec_str (nat i))"

text \<open>\<open>%0nx\<close>: padded with zeros to the width.\<close>

definition pad0 :: "nat \<Rightarrow> string \<Rightarrow> string" where
  "pad0 n s = replicate (n - length s) CHR ''0'' @ s"

lemma num_str_induct [case_names small large]:
  assumes "2 \<le> (b :: nat)" "\<And>n. n < b \<Longrightarrow> P n" "\<And>n. b \<le> n \<Longrightarrow> P (n div b) \<Longrightarrow> P n"
  shows "P n"
proof (induction n rule: less_induct)
  case (less n)
  then show ?case using assms by (cases "n < b") auto
qed

lemma code_digit_char: "d < 16 \<Longrightarrow> code (digit_char d) = (if d < 10 then 48 + d else 87 + d)"
  by (simp add: code_def digit_char_def)

lemma less_16: "d < (16 :: nat) \<Longrightarrow> d \<in> {0, 1, 2, 3, 4, 5, 6, 7, 8, 9, 10, 11, 12, 13, 14, 15}"
  by (auto simp: less_Suc_eq numeral_eq_Suc)

lemma digit_val_digit_char: "d < 16 \<Longrightarrow> digit_val (digit_char d) = Some d"
  by (drule less_16) (auto simp: digit_val_def isdigit_def tolower_def code_digit_char)

lemma isxdigit_digit_char: "d < 16 \<Longrightarrow> isxdigit (digit_char d)"
  by (simp add: isxdigit_def isdigit_def code_digit_char)

lemma digit_char_not_NUL: "d < 16 \<Longrightarrow> digit_char d \<noteq> NUL"
  using code_digit_char [of d] by (auto simp: code_def split: if_splits)

lemma parse_integer_step:
  assumes "unat base = b" "2 \<le> b" "b \<le> 16" "d < b" "n * b + d < 2 ^ 64"
  shows "parse_integer_loop (digit_char d # s) base (word_of_nat n) rv False =
    parse_integer_loop s base (word_of_nat (n * b + d)) (Suc rv) False"
proof -
  have "n * 1 \<le> n * b" using assms(2) by (intro mult_le_mono2) simp
  with assms(5) have n: "n < 2 ^ 64" by linarith
  have "n \<le> (2 ^ 64 - 1 - d) div b"
    using assms(2,5) by (subst less_eq_div_iff_mult_less_eq) auto
  then have "\<not> unat (word_of_nat n :: u64) > (2 ^ 64 - 1 - d) div b" using n by (simp add: unat_of_nat)
  moreover have "(ucast base :: u64) = word_of_nat b" using assms(1) by auto
  ultimately show ?thesis
    using assms digit_val_digit_char [of d] digit_char_not_NUL [of d] by simp
qed

text \<open>Parsing undoes printing, up to what follows the number.\<close>

lemma parse_num_str:
  assumes "unat base = b" "2 \<le> b" "b \<le> 16"
  shows "n < 2 ^ 64 \<Longrightarrow> parse_integer_loop (num_str b n @ s) base 0 0 False =
    parse_integer_loop s base (word_of_nat n) (length (num_str b n)) False"
proof (induction n arbitrary: s rule: num_str_induct [OF assms(2)])
  case (1 n)
  then show ?case using parse_integer_step [OF assms, of n 0 s 0] by (simp add: num_str.simps [of b n])
next
  case (2 n)
  have "n div b < 2 ^ 64" using 2(3) by (meson div_le_dividend le_less_trans)
  have e: "num_str b n = num_str b (n div b) @ [digit_char (n mod b)]"
    using 2(1) assms(2) by (simp add: num_str.simps [of b n])
  show ?case
    using 2(2) [OF \<open>n div b < 2 ^ 64\<close>, of "digit_char (n mod b) # s"] 2(3) assms
      parse_integer_step [OF assms, of "n mod b" "n div b" s "length (num_str b (n div b))"]
    by (simp add: e)
qed

definition stops :: "nat \<Rightarrow> string \<Rightarrow> bool" where
  "stops b s \<longleftrightarrow> s = [] \<or> hd s = NUL \<or> (case digit_val (hd s) of None \<Rightarrow> True | Some v \<Rightarrow> b \<le> v)"

lemma parse_stops: "stops (unat base) s \<Longrightarrow> parse_integer_loop s base res rv ov = (rv, ov, res)"
  by (cases s) (auto simp: stops_def split: option.splits)

lemma parse_integer_num_str:
  "unat base = b \<Longrightarrow> 2 \<le> b \<Longrightarrow> b \<le> 16 \<Longrightarrow> n < 2 ^ 64 \<Longrightarrow> stops b s \<Longrightarrow>
   parse_integer (num_str b n @ s) base = (length (num_str b n), False, word_of_nat n)"
  by (simp add: parse_integer_def parse_num_str parse_stops)

lemma num_str_head:
  assumes "2 \<le> b" "b \<le> 16"
  shows "\<exists>d s. num_str b n = digit_char d # s \<and> d < b \<and> (d = 0 \<longrightarrow> n = 0)"
proof (induction n rule: num_str_induct [OF assms(1)])
  case (1 n)
  then show ?case by (auto simp: num_str.simps [of b n])
next
  case (2 n)
  have "n div b \<noteq> 0" using 2(1) assms by (simp add: div_eq_0_iff)
  then show ?case using 2 assms by (auto simp: num_str.simps [of b n])
qed

lemma fixup_radix_hex: "parse_integer_fixup_radix (''0x'' @ hex_str n @ s) 0 = (hex_str n @ s, 16)"
proof -
  obtain d r where d: "hex_str n = digit_char d # r" "d < 16" using num_str_head [of 16 n] by auto
  with isxdigit_digit_char show ?thesis by (simp add: parse_integer_fixup_radix_def tolower_def code_def)
qed

lemma fixup_radix_10: "parse_integer_fixup_radix s 10 = (s, 10)"
  by (simp add: parse_integer_fixup_radix_def)

lemma strtoull_hex: "n < 2 ^ 64 \<Longrightarrow> stops 16 s \<Longrightarrow> simple_strtoull (''0x'' @ hex_str n @ s) 0 = (word_of_nat n, s)"
  using parse_integer_num_str [of 16 16 n s] by (simp add: simple_strtoull_def fixup_radix_hex [simplified])

lemma strtoull_dec: "n < 2 ^ 64 \<Longrightarrow> stops 10 s \<Longrightarrow> simple_strtoull (dec_str n @ s) 10 = (word_of_nat n, s)"
  using parse_integer_num_str [of 10 10 n s] by (simp add: simple_strtoull_def fixup_radix_10)

text \<open>
  C31: the kernel reads back the decimal numbers the host prints and the hexadecimal ones with their
  prefix, with any text after them that does not continue the number; parsing stops right there.
\<close>

theorem simple_strtoull_print:
  assumes "n < 2 ^ 64"
  shows "(stops 10 s \<longrightarrow> simple_strtoull (dec_str n @ s) 10 = (word_of_nat n, s)) \<and>
    (stops 16 s \<longrightarrow> simple_strtoull (''0x'' @ hex_str n @ s) 0 = (word_of_nat n, s))"
  using assms strtoull_hex strtoull_dec by blast

theorem simple_strtoull_print_witness:
  "simple_strtoull (dec_str 4096 @ '':5'') 10 = (4096, '':5'') \<and>
   simple_strtoull (''0x'' @ hex_str 256 @ '':5'') 0 = (256, '':5'')"
proof -
  have "stops 10 '':5''" "stops 16 '':5''"
    by (simp_all add: stops_def digit_val_def isdigit_def tolower_def code_def)
  then show ?thesis
    using simple_strtoull_print [of 4096 "'':5''"] simple_strtoull_print [of 256 "'':5''"] by simp
qed

end
