(* ===== verification/Virtio_Core.thy ===== *)
theory Virtio_Core
  imports Virtqueue Kstring
begin

text \<open>
  The kernel's virtio bus, \<open>drivers/virtio/virtio.c\<close>, with the inline helpers of
  \<open>include/linux/virtio_config.h\<close>: matching drivers, negotiating features, the device status and
  configuration changes.

  The transport is a record of operations on the device and a world \<open>'w\<close> (\<open>struct
  virtio_config_ops\<close>), so is the driver. A transport extends the device's record with its own
  fields, as the code does with \<open>container_of\<close>. The driver core (\<open>device_register\<close>,
  \<open>ida_simple_get\<close>) is an argument.
\<close>

section \<open>State\<close>

record virtio_device_id =
  id_device :: u32
  id_vendor :: u32

record 'a virtio_device =
  vd_index :: int
  vd_config_enabled :: bool
  vd_config_change_pending :: bool
  vd_id :: virtio_device_id
  vd_vqs :: "'a vring_virtqueue list"
  vd_features :: u64

text \<open>\<open>find_vqs\<close> takes a callback flag and a name flag for each queue; \<open>None\<close> is an error's absent queue.\<close>

record ('v, 'w) virtio_config_ops =
  cfg_get :: "'v \<Rightarrow> u32 \<Rightarrow> nat \<Rightarrow> 'w \<Rightarrow> (u8 list \<times> 'w) option"
  cfg_set :: "'v \<Rightarrow> u32 \<Rightarrow> u8 list \<Rightarrow> nat \<Rightarrow> 'w \<Rightarrow> 'w option"
  cfg_generation :: "'v \<Rightarrow> 'w \<Rightarrow> (u32 \<times> 'w) option"
  cfg_get_status :: "'v \<Rightarrow> 'w \<Rightarrow> (u8 \<times> 'w) option"
  cfg_set_status :: "'v \<Rightarrow> u8 \<Rightarrow> 'w \<Rightarrow> 'w option"
  cfg_reset :: "'v \<Rightarrow> 'w \<Rightarrow> 'w option"
  cfg_find_vqs :: "'v \<Rightarrow> (bool \<times> bool) list \<Rightarrow> 'w \<Rightarrow> (int \<times> 'v \<times> 'w) option"
  cfg_del_vqs :: "'v \<Rightarrow> 'w \<Rightarrow> ('v \<times> 'w) option"
  cfg_get_features :: "'v \<Rightarrow> 'w \<Rightarrow> (u64 \<times> 'w) option"
  cfg_finalize_features :: "'v \<Rightarrow> 'w \<Rightarrow> (int \<times> 'v \<times> 'w) option"

record ('v, 'w) virtio_driver =
  id_table :: "virtio_device_id list"
  feature_table :: "u32 list"
  feature_table_legacy :: "u32 list option"
  drv_probe :: "'v \<Rightarrow> 'w \<Rightarrow> (int \<times> 'v \<times> 'w) option"
  drv_scan :: "('v \<Rightarrow> 'w \<Rightarrow> ('v \<times> 'w) option) option"
  drv_remove :: "'v \<Rightarrow> 'w \<Rightarrow> ('v \<times> 'w) option"
  drv_config_changed :: "('v \<Rightarrow> 'w \<Rightarrow> ('v \<times> 'w) option) option"

abbreviation (input) VIRTIO_CONFIG_S_ACKNOWLEDGE :: u8 where "VIRTIO_CONFIG_S_ACKNOWLEDGE \<equiv> 1"
abbreviation (input) VIRTIO_CONFIG_S_DRIVER :: u8 where "VIRTIO_CONFIG_S_DRIVER \<equiv> 2"
abbreviation (input) VIRTIO_CONFIG_S_DRIVER_OK :: u8 where "VIRTIO_CONFIG_S_DRIVER_OK \<equiv> 4"
abbreviation (input) STATUS_FEATURES_OK :: u8 where "STATUS_FEATURES_OK \<equiv> 8"
abbreviation (input) VIRTIO_CONFIG_S_FAILED :: u8 where "VIRTIO_CONFIG_S_FAILED \<equiv> 0x80"
abbreviation (input) VIRTIO_TRANSPORT_F_START :: nat where "VIRTIO_TRANSPORT_F_START \<equiv> 28"
abbreviation (input) VIRTIO_TRANSPORT_F_END :: nat where "VIRTIO_TRANSPORT_F_END \<equiv> 34"
abbreviation (input) F_VERSION_1 :: nat where "F_VERSION_1 \<equiv> 32"
abbreviation (input) VIRTIO_DEV_ANY_ID :: u32 where "VIRTIO_DEV_ANY_ID \<equiv> 0xffffffff"

section \<open>Attributes in sysfs\<close>

definition upper_char :: "char \<Rightarrow> char" where
  "upper_char c = (if 97 \<le> code c \<and> code c \<le> 122 then char_of (code c - 32) else c)"

definition device_show :: "('a, 'z) virtio_device_scheme \<Rightarrow> string" where
  "device_show dev = ''0x'' @ pad0 4 (hex_str (unat (id_device (vd_id dev)))) @ [CHR 0x0A]"

definition vendor_show :: "('a, 'z) virtio_device_scheme \<Rightarrow> string" where
  "vendor_show dev = ''0x'' @ pad0 4 (hex_str (unat (id_vendor (vd_id dev)))) @ [CHR 0x0A]"

definition modalias_show :: "('a, 'z) virtio_device_scheme \<Rightarrow> string" where
  "modalias_show dev =
     ''virtio:d'' @ pad0 8 (map upper_char (hex_str (unat (id_device (vd_id dev))))) @
     ''v'' @ pad0 8 (map upper_char (hex_str (unat (id_vendor (vd_id dev))))) @ [CHR 0x0A]"

definition features_show :: "('a, 'z) virtio_device_scheme \<Rightarrow> string" where
  "features_show dev =
     map (\<lambda>i. if bit (vd_features dev) i then CHR ''1'' else CHR ''0'') [0..<64] @ [CHR 0x0A]"

definition status_show ::
  "('v, 'w) virtio_config_ops \<Rightarrow> 'v \<Rightarrow> 'w \<Rightarrow> (string \<times> 'w) option" where
  "status_show cfg dev w = do {
     (s, w) \<leftarrow> cfg_get_status cfg dev w;
     Some (''0x'' @ pad0 8 (hex_str (unat s)) @ [CHR 0x0A], w)
   }"

section \<open>Matching\<close>

definition virtio_id_match :: "('a, 'z) virtio_device_scheme \<Rightarrow> virtio_device_id \<Rightarrow> bool" where
  "virtio_id_match dev i =
     (if id_device i \<noteq> id_device (vd_id dev) \<and> id_device i \<noteq> VIRTIO_DEV_ANY_ID then False
      else id_vendor i = VIRTIO_DEV_ANY_ID \<or> id_vendor i = id_vendor (vd_id dev))"

text \<open>The table ends at an entry with device 0; running past the end of the array is undefined.\<close>

fun virtio_dev_match :: "('a, 'z) virtio_device_scheme \<Rightarrow> virtio_device_id list \<Rightarrow> bool option" where
  "virtio_dev_match dev [] = None"
| "virtio_dev_match dev (i # ids) =
     (if id_device i = 0 then Some False
      else if virtio_id_match dev i then Some True
      else virtio_dev_match dev ids)"

section \<open>Status, features and configuration changes\<close>

definition add_status :: "('v, 'w) virtio_config_ops \<Rightarrow> 'v \<Rightarrow> u8 \<Rightarrow> 'w \<Rightarrow> 'w option" where
  "add_status cfg dev s w = do {
     (cur, w) \<leftarrow> cfg_get_status cfg dev w;
     cfg_set_status cfg dev (cur OR s) w
   }"

definition virtio_check_driver_offered_feature :: "('v, 'w) virtio_driver \<Rightarrow> u32 \<Rightarrow> unit option" where
  "virtio_check_driver_offered_feature drv fbit =
     (if fbit \<in> set (feature_table drv) then Some ()
      else case feature_table_legacy drv of
        None \<Rightarrow> None
      | Some t \<Rightarrow> if fbit \<in> set t then Some () else None)"

definition virtio_has_feature ::
  "('v, 'w) virtio_driver \<Rightarrow> ('a, 'z) virtio_device_scheme \<Rightarrow> u32 \<Rightarrow> bool option" where
  "virtio_has_feature drv dev fbit = do {
     _ \<leftarrow> (if unat fbit < VIRTIO_TRANSPORT_F_START then virtio_check_driver_offered_feature drv fbit else Some ());
     if unat fbit \<ge> 64 then None else Some (bit (vd_features dev) (unat fbit))
   }"

definition virtio_config_changed_locked ::
  "(('a, 'z) virtio_device_scheme, 'w) virtio_driver option \<Rightarrow> ('a, 'z) virtio_device_scheme \<Rightarrow> 'w \<Rightarrow>
   (('a, 'z) virtio_device_scheme \<times> 'w) option" where
  "virtio_config_changed_locked drv dev w =
     (if \<not> vd_config_enabled dev then Some (dev\<lparr>vd_config_change_pending := True\<rparr>, w)
      else case Option.bind drv drv_config_changed of
        None \<Rightarrow> Some (dev, w)
      | Some f \<Rightarrow> f dev w)"

definition virtio_config_changed ::
  "(('a, 'z) virtio_device_scheme, 'w) virtio_driver option \<Rightarrow> ('a, 'z) virtio_device_scheme \<Rightarrow> 'w \<Rightarrow>
   (('a, 'z) virtio_device_scheme \<times> 'w) option" where
  "virtio_config_changed drv dev w = virtio_config_changed_locked drv dev w"

definition virtio_config_disable :: "('a, 'z) virtio_device_scheme \<Rightarrow> ('a, 'z) virtio_device_scheme" where
  "virtio_config_disable dev = dev\<lparr>vd_config_enabled := False\<rparr>"

definition virtio_config_enable ::
  "(('a, 'z) virtio_device_scheme, 'w) virtio_driver option \<Rightarrow> ('a, 'z) virtio_device_scheme \<Rightarrow> 'w \<Rightarrow>
   (('a, 'z) virtio_device_scheme \<times> 'w) option" where
  "virtio_config_enable drv dev w = do {
     let dev = dev\<lparr>vd_config_enabled := True\<rparr>;
     (dev, w) \<leftarrow> (if vd_config_change_pending dev then virtio_config_changed_locked drv dev w else Some (dev, w));
     Some (dev\<lparr>vd_config_change_pending := False\<rparr>, w)
   }"

definition virtio_finalize_features ::
  "(('a, 'z) virtio_device_scheme, 'w) virtio_config_ops \<Rightarrow> ('a, 'z) virtio_device_scheme \<Rightarrow> 'w \<Rightarrow>
   (int \<times> ('a, 'z) virtio_device_scheme \<times> 'w) option" where
  "virtio_finalize_features cfg dev w = do {
     (ret, dev, w) \<leftarrow> cfg_finalize_features cfg dev w;
     if ret \<noteq> 0 then Some (ret, dev, w)
     else if \<not> bit (vd_features dev) F_VERSION_1 then Some (0, dev, w)
     else do {
       w \<leftarrow> add_status cfg dev STATUS_FEATURES_OK w;
       (s, w) \<leftarrow> cfg_get_status cfg dev w;
       Some (if s AND STATUS_FEATURES_OK = 0 then - ENODEV else 0, dev, w)
     }
   }"

definition virtio_device_ready :: "('v, 'w) virtio_config_ops \<Rightarrow> 'v \<Rightarrow> 'w \<Rightarrow> 'w option" where
  "virtio_device_ready cfg dev w = do {
     (s, w) \<leftarrow> cfg_get_status cfg dev w;
     if s AND VIRTIO_CONFIG_S_DRIVER_OK \<noteq> 0 then None
     else cfg_set_status cfg dev (s OR VIRTIO_CONFIG_S_DRIVER_OK) w
   }"

section \<open>Probing and removing\<close>

text \<open>The loop over a feature table, with its \<open>BUG_ON\<close>.\<close>

fun feature_bits :: "u32 list \<Rightarrow> u64 \<Rightarrow> u64 option" where
  "feature_bits [] acc = Some acc"
| "feature_bits (f # fs) acc = (if unat f \<ge> 64 then None else feature_bits fs (set_bit (unat f) acc))"

definition keep_transport :: "u64 \<Rightarrow> u64 \<Rightarrow> u64" where
  "keep_transport device_features f =
     fold (\<lambda>i f. if bit device_features i then set_bit i f else f)
       [VIRTIO_TRANSPORT_F_START..<VIRTIO_TRANSPORT_F_END] f"

text \<open>The features the driver and the device agree on before the transport has its say.\<close>

definition negotiate :: "('v, 'w) virtio_driver \<Rightarrow> u64 \<Rightarrow> u64 option" where
  "negotiate drv device_features = do {
     driver_features \<leftarrow> feature_bits (feature_table drv) 0;
     driver_features_legacy \<leftarrow> (case feature_table_legacy drv of
         Some t \<Rightarrow> feature_bits t 0 | None \<Rightarrow> Some driver_features);
     Some (keep_transport device_features
       ((if bit device_features F_VERSION_1 then driver_features else driver_features_legacy) AND device_features))
   }"

definition virtio_dev_probe ::
  "(('a, 'z) virtio_device_scheme, 'w) virtio_config_ops \<Rightarrow> (('a, 'z) virtio_device_scheme, 'w) virtio_driver \<Rightarrow>
   ('a, 'z) virtio_device_scheme \<Rightarrow> 'w \<Rightarrow> (int \<times> ('a, 'z) virtio_device_scheme \<times> 'w) option" where
  "virtio_dev_probe cfg drv dev w = do {
     w \<leftarrow> add_status cfg dev VIRTIO_CONFIG_S_DRIVER w;
     (device_features, w) \<leftarrow> cfg_get_features cfg dev w;
     f \<leftarrow> negotiate drv device_features;
     let dev = dev\<lparr>vd_features := f\<rparr>;
     let fail = (\<lambda>err dev w. do { w \<leftarrow> add_status cfg dev VIRTIO_CONFIG_S_FAILED w; Some (err, dev, w) });
     (err, dev, w) \<leftarrow> virtio_finalize_features cfg dev w;
     if err \<noteq> 0 then fail err dev w
     else do {
       (err, dev, w) \<leftarrow> drv_probe drv dev w;
       if err \<noteq> 0 then fail err dev w
       else do {
         (s, w) \<leftarrow> cfg_get_status cfg dev w;
         w \<leftarrow> (if s AND VIRTIO_CONFIG_S_DRIVER_OK = 0 then virtio_device_ready cfg dev w else Some w);
         (dev, w) \<leftarrow> (case drv_scan drv of None \<Rightarrow> Some (dev, w) | Some scan \<Rightarrow> scan dev w);
         (dev, w) \<leftarrow> virtio_config_enable (Some drv) dev w;
         Some (0, dev, w)
       }
     }
   }"

text \<open>The status that is read after \<open>remove\<close> only decides about a warning.\<close>

definition virtio_dev_remove ::
  "(('a, 'z) virtio_device_scheme, 'w) virtio_config_ops \<Rightarrow> (('a, 'z) virtio_device_scheme, 'w) virtio_driver \<Rightarrow>
   ('a, 'z) virtio_device_scheme \<Rightarrow> 'w \<Rightarrow> (int \<times> ('a, 'z) virtio_device_scheme \<times> 'w) option" where
  "virtio_dev_remove cfg drv dev w = do {
     (dev, w) \<leftarrow> drv_remove drv (virtio_config_disable dev) w;
     (_, w) \<leftarrow> cfg_get_status cfg dev w;
     w \<leftarrow> add_status cfg dev VIRTIO_CONFIG_S_ACKNOWLEDGE w;
     Some (0, dev, w)
   }"

text \<open>\<open>index\<close> is what \<open>ida_simple_get\<close> returned.\<close>

definition register_virtio_device ::
  "(('a, 'z) virtio_device_scheme, 'w) virtio_config_ops \<Rightarrow>
   (('a, 'z) virtio_device_scheme \<Rightarrow> 'w \<Rightarrow> (int \<times> ('a, 'z) virtio_device_scheme \<times> 'w) option) \<Rightarrow> int \<Rightarrow>
   ('a, 'z) virtio_device_scheme \<Rightarrow> 'w \<Rightarrow> (int \<times> ('a, 'z) virtio_device_scheme \<times> 'w) option" where
  "register_virtio_device cfg device_register index dev w = do {
     (err, dev, w) \<leftarrow>
       (if index < 0 then Some (index, dev, w)
        else do {
          let dev = dev\<lparr>vd_index := index, vd_config_enabled := False, vd_config_change_pending := False\<rparr>;
          w \<leftarrow> cfg_reset cfg dev w;
          w \<leftarrow> add_status cfg dev VIRTIO_CONFIG_S_ACKNOWLEDGE w;
          device_register (dev\<lparr>vd_vqs := []\<rparr>) w
        });
     w \<leftarrow> (if err \<noteq> 0 then add_status cfg dev VIRTIO_CONFIG_S_FAILED w else Some w);
     Some (err, dev, w)
   }"

definition virtio_break_device :: "('a, 'z) virtio_device_scheme \<Rightarrow> ('a, 'z) virtio_device_scheme" where
  "virtio_break_device dev = dev\<lparr>vd_vqs := map (vq_broken_update (\<lambda>_. True)) (vd_vqs dev)\<rparr>"

section \<open>What is negotiated\<close>

lemma feature_bits_bit:
  "feature_bits fs acc = Some r \<Longrightarrow> bit r i \<longleftrightarrow> bit acc i \<or> (\<exists>f \<in> set fs. i = unat f)"
proof (induction fs arbitrary: acc)
  case (Cons f fs)
  then have "unat f < 64" "feature_bits fs (set_bit (unat f) acc) = Some r" by (auto split: if_splits)
  then show ?case using Cons.IH by (auto simp: bit_set_bit_iff)
qed simp

lemma feature_bits_defined: "\<forall>f \<in> set fs. unat f < 64 \<Longrightarrow> feature_bits fs acc \<noteq> None"
  by (induction fs arbitrary: acc) auto

lemma bit_keep_transport:
  "bit (keep_transport d f) i \<longleftrightarrow> bit f i \<or> (28 \<le> i \<and> i < 34 \<and> bit d i)"
proof -
  have "bit (fold (\<lambda>i f. if bit d i then set_bit i f else f) is f) i \<longleftrightarrow> bit f i \<or> (i \<in> set is \<and> bit d i)" for "is"
  proof (induction "is" arbitrary: f)
    case (Cons j js)
    have "bit d i \<Longrightarrow> i < 64" using bit_imp_le_length [of d i] by simp
    then show ?case by (cases "bit d j") (auto simp: Cons.IH bit_set_bit_iff)
  qed simp
  then show ?thesis by (simp add: keep_transport_def del: upt_rec_numeral)
qed

lemma bit_vring_transport_features:
  "bit (vring_transport_features f) i \<longleftrightarrow> bit f i \<and> (28 \<le> i \<and> i < 34 \<longrightarrow> i \<in> {28, 29, 32, 33})"
proof -
  have "bit (fold (\<lambda>i f. if i \<in> K then f else unset_bit i f) is f) i \<longleftrightarrow> bit f i \<and> (i \<in> set is \<longrightarrow> i \<in> K)"
    for "is" and K :: "nat set"
    by (induction "is" arbitrary: f) (simp_all add: bit_unset_bit_iff, blast)
  from this [of "{28, 29, 32, 33}" "[28..<34]"] show ?thesis
    by (simp only: vring_transport_features_def set_upt atLeastLessThan_iff)
qed

text \<open>
  C35: the features the bus settles on are, bit by bit, those the device offers that are either in the
  driver's table (its table for legacy devices when the device is not of version 1) or transport
  features; nothing the device does not offer is ever accepted.
\<close>

theorem negotiate_bits:
  assumes "negotiate drv dfs = Some f"
  shows "bit f i \<longleftrightarrow> bit dfs i \<and> ((28 \<le> i \<and> i < 34) \<or>
    (\<exists>t \<in> set (if bit dfs 32 then feature_table drv
               else (case feature_table_legacy drv of Some t \<Rightarrow> t | None \<Rightarrow> feature_table drv)). i = unat t))"
proof -
  let ?legacy = "case feature_table_legacy drv of Some t \<Rightarrow> t | None \<Rightarrow> feature_table drv"
  from assms obtain y z where y: "feature_bits (feature_table drv) 0 = Some y" and z: "feature_bits ?legacy 0 = Some z"
    and f: "f = keep_transport dfs ((if bit dfs 32 then y else z) AND dfs)"
    by (cases "feature_table_legacy drv") (auto simp: negotiate_def bind_eq_Some_conv)
  show ?thesis
    using feature_bits_bit [OF y, of i] feature_bits_bit [OF z, of i]
    by (cases "bit dfs 32") (auto simp: f bit_keep_transport bit_and_iff)
qed

definition demo_driver :: "(unit virtio_device, unit) virtio_driver" where
  "demo_driver = \<lparr>id_table = [\<lparr>id_device = 2, id_vendor = VIRTIO_DEV_ANY_ID\<rparr>, \<lparr>id_device = 0, id_vendor = 0\<rparr>],
     feature_table = [1, 2, 6], feature_table_legacy = Some [0, 1, 2, 6],
     drv_probe = (\<lambda>d w. Some (0, d, w)), drv_scan = None, drv_remove = (\<lambda>d w. Some (d, w)), drv_config_changed = None\<rparr>"

theorem negotiate_bits_witness:
  "\<exists>f. negotiate demo_driver 0x120000003 = Some f \<and> \<not> bit f 0 \<and> bit f 1 \<and> \<not> bit f 6 \<and> bit f 29 \<and> bit f 32"
proof -
  obtain f where f: "negotiate demo_driver 0x120000003 = Some f"
    by (simp add: negotiate_def demo_driver_def)
  have "bit (0x120000003 :: u64) 0" "bit (0x120000003 :: u64) 1" "\<not> bit (0x120000003 :: u64) 6"
    "bit (0x120000003 :: u64) 29" "bit (0x120000003 :: u64) 32"
    by (simp_all add: bit_numeral_rec)
  then show ?thesis
    using negotiate_bits [OF f, of 0] negotiate_bits [OF f, of 1] negotiate_bits [OF f, of 6]
      negotiate_bits [OF f, of 29] negotiate_bits [OF f, of 32] f
    by (simp add: demo_driver_def)
qed

end
