(* ===== verification/Virtio_Queue.thy ===== *)
theory Virtio_Queue
  imports Vring
begin

text \<open>
  The device side of a virtqueue, the first half of \<open>tools/lkl/lib/virtio.c\<close>: taking requests from
  the available ring, gathering the buffers of a descriptor chain, handing the request to the device's
  \<open>enqueue\<close> operation and reporting it in the used ring.

  Interrupts the device raises (\<open>lkl_trigger_irq\<close>) are recorded in order in \<open>w_irqs\<close>. \<open>'d\<close> is
  the state of the host's disk or network device behind the queue.
\<close>

section \<open>State\<close>

record virtio_queue =
  num_max :: u32
  num :: u32
  ready :: u32
  max_merge_len :: u32
  q_desc :: addr
  q_avail :: addr
  q_used :: addr
  last_avail_idx :: u16
  last_used_idx_signaled :: u16

record virtio_dev =
  device_id :: u32
  vendor_id :: u32
  device_features :: u64
  device_features_sel :: u32
  driver_features :: u64
  driver_features_sel :: u32
  queue_sel :: u32
  queue :: "virtio_queue list"
  queue_notify :: u32
  int_status :: u32
  status :: u32
  config_gen :: u32
  irq :: int
  config_data :: "u8 list"
  config_len :: int
  base :: addr
  virtio_mmio_id :: u32

record iovec =
  iov_base :: addr
  iov_len :: u64

text \<open>The buffers in use are the first \<open>buf_count\<close> cells of the array.\<close>

record virtio_req =
  buf :: "iovec list"
  total_len :: u32

abbreviation buf_count :: "virtio_req \<Rightarrow> nat" where
  "buf_count r \<equiv> length (buf r)"

abbreviation (input) VIRTIO_REQ_MAX_BUFS :: nat where "VIRTIO_REQ_MAX_BUFS \<equiv> 19"

text \<open>\<open>struct _virtio_req\<close>: the request with the queue it came from and its index there.\<close>

record virtio_req_ctx =
  rq_req :: virtio_req
  rq_q :: nat
  rq_idx :: u16

record 'd vworld =
  w_mem :: vmem
  w_irqs :: "int list"
  w_disk :: 'd

record 'd virtio_dev_ops =
  op_check_features :: "virtio_dev \<Rightarrow> int"
  op_enqueue :: "virtio_dev \<Rightarrow> nat \<Rightarrow> virtio_req_ctx \<Rightarrow> 'd vworld \<Rightarrow> (int \<times> virtio_dev \<times> 'd vworld) option"
  op_acquire_queue :: "(virtio_dev \<Rightarrow> nat \<Rightarrow> 'd vworld \<Rightarrow> 'd vworld) option"
  op_release_queue :: "(virtio_dev \<Rightarrow> nat \<Rightarrow> 'd vworld \<Rightarrow> 'd vworld) option"

section \<open>Ring accessors\<close>

definition ring_pos :: "virtio_queue \<Rightarrow> u16 \<Rightarrow> nat" where
  "ring_pos q i = unat (ucast i AND (num q - 1) :: u32)"

definition avail_idx_of :: "virtio_queue \<Rightarrow> vmem \<Rightarrow> u16 option" where
  "avail_idx_of q m = map_option a_idx (m_avail m (q_avail q))"

definition virtio_get_used_event :: "virtio_queue \<Rightarrow> vmem \<Rightarrow> u16 option" where
  "virtio_get_used_event q m = do {
     a \<leftarrow> m_avail m (q_avail q);
     aget (a_ring a) (unat (num q))
   }"

text \<open>
  The store goes to the address of \<open>used->ring[num]\<close>: the event index when \<open>num\<close> is the number
  of elements, the lower half of an element's \<open>id\<close> when it is smaller.
\<close>

definition virtio_set_avail_event :: "virtio_queue \<Rightarrow> u16 \<Rightarrow> vmem \<Rightarrow> vmem option" where
  "virtio_set_avail_event q val m = do {
     u \<leftarrow> m_used m (q_used q);
     let n = unat (num q);
     u \<leftarrow> (if n = length (u_ring u) then Some (u\<lparr>u_avail_event := val\<rparr>)
           else do {
             e \<leftarrow> aget (u_ring u) n;
             r \<leftarrow> aset (u_ring u) n (e\<lparr>ue_id := (ue_id e AND 0xFFFF0000) OR ucast val\<rparr>);
             Some (u\<lparr>u_ring := r\<rparr>)
           });
     Some (m\<lparr>m_used := (m_used m)(q_used q := Some u)\<rparr>)
   }"

definition virtio_deliver_irq :: "virtio_dev \<Rightarrow> 'd vworld \<Rightarrow> virtio_dev \<times> 'd vworld" where
  "virtio_deliver_irq dev w =
     (dev\<lparr>int_status := int_status dev OR 1\<rparr>, w\<lparr>w_irqs := w_irqs w @ [irq dev]\<rparr>)"

definition virtio_get_used_idx :: "virtio_queue \<Rightarrow> vmem \<Rightarrow> u16 option" where
  "virtio_get_used_idx q m = map_option u_idx (m_used m (q_used q))"

definition virtio_add_used :: "virtio_queue \<Rightarrow> u16 \<Rightarrow> u16 \<Rightarrow> u16 \<Rightarrow> vmem \<Rightarrow> vmem option" where
  "virtio_add_used q used_idx avail_idx len m = do {
     a \<leftarrow> m_avail m (q_avail q);
     desc_idx \<leftarrow> aget (a_ring a) (ring_pos q avail_idx);
     u \<leftarrow> m_used m (q_used q);
     r \<leftarrow> aset (u_ring u) (ring_pos q used_idx) \<lparr>ue_id = ucast desc_idx, ue_len = ucast len\<rparr>;
     Some (m\<lparr>m_used := (m_used m)(q_used q \<mapsto> u\<lparr>u_ring := r\<rparr>)\<rparr>)
   }"

definition virtio_sync_used_idx :: "virtio_queue \<Rightarrow> u16 \<Rightarrow> vmem \<Rightarrow> vmem option" where
  "virtio_sync_used_idx q idx m = do {
     u \<leftarrow> m_used m (q_used q);
     Some (m\<lparr>m_used := (m_used m)(q_used q \<mapsto> u\<lparr>u_idx := idx\<rparr>)\<rparr>)
   }"

section \<open>Completing a request\<close>

text \<open>The loop over the request's buffers; the result carries \<open>used_idx\<close> and \<open>avail_idx\<close>.\<close>

fun complete_bufs ::
  "virtio_queue \<Rightarrow> iovec list \<Rightarrow> u16 \<Rightarrow> u16 \<Rightarrow> u32 \<Rightarrow> vmem \<Rightarrow> (u16 \<times> u16 \<times> vmem) option" where
  "complete_bufs q [] used_idx avail_idx len m = Some (used_idx, avail_idx, m)"
| "complete_bufs q (b # bs) used_idx avail_idx len m =
     (let used_len = (if max_merge_len q = 0 then ucast len
                      else ucast (if ucast len < iov_len b then ucast len else iov_len b)) :: u16
      in do {
        m \<leftarrow> virtio_add_used q used_idx avail_idx used_len m;
        let len = len - ucast used_len;
        if len = 0 then Some (used_idx + 1, avail_idx + 1, m)
        else complete_bufs q bs (used_idx + 1) (avail_idx + 1) len m
      })"

definition virtio_req_complete ::
  "virtio_dev \<Rightarrow> virtio_req_ctx \<Rightarrow> u32 \<Rightarrow> 'd vworld \<Rightarrow> (virtio_dev \<times> 'd vworld) option" where
  "virtio_req_complete dev rq len w = do {
     q \<leftarrow> aget (queue dev) (rq_q rq);
     used_idx \<leftarrow> virtio_get_used_idx q (w_mem w);
     (used_idx, avail, m) \<leftarrow> complete_bufs q (buf (rq_req rq)) used_idx (rq_idx rq) len (w_mem w);
     m \<leftarrow> virtio_sync_used_idx q used_idx m;
     let q = q\<lparr>last_avail_idx := avail\<rparr>;
     aidx \<leftarrow> avail_idx_of q m;
     let send_irq = (last_avail_idx q = aidx);
     uidx \<leftarrow> virtio_get_used_idx q m;
     need \<leftarrow> (if send_irq then Some True
             else do { ev \<leftarrow> virtio_get_used_event q m;
                       Some (vring_need_event ev uidx (last_used_idx_signaled q)) });
     let w = w\<lparr>w_mem := m\<rparr>;
     if need
     then let q = q\<lparr>last_used_idx_signaled := uidx\<rparr> in
       Some (virtio_deliver_irq (dev\<lparr>queue := (queue dev)[rq_q rq := q]\<rparr>) w)
     else Some (dev\<lparr>queue := (queue dev)[rq_q rq := q]\<rparr>, w)
   }"

section \<open>Gathering a descriptor chain\<close>

text \<open>A descriptor is named by its position in the table of its queue.\<close>

definition vring_desc_at_le_idx :: "virtio_queue \<Rightarrow> u16 \<Rightarrow> nat" where
  "vring_desc_at_le_idx q le_idx = ring_pos q le_idx"

definition vring_desc_at_avail_idx :: "virtio_queue \<Rightarrow> vmem \<Rightarrow> u16 \<Rightarrow> nat option" where
  "vring_desc_at_avail_idx q m idx = do {
     a \<leftarrow> m_avail m (q_avail q);
     desc_idx \<leftarrow> aget (a_ring a) (ring_pos q idx);
     Some (vring_desc_at_le_idx q desc_idx)
   }"

definition read_desc :: "virtio_queue \<Rightarrow> vmem \<Rightarrow> nat \<Rightarrow> vring_desc option" where
  "read_desc q m i = do { t \<leftarrow> m_desc m (q_desc q); aget t i }"

definition add_dev_buf_from_vring_desc :: "virtio_req \<Rightarrow> vring_desc \<Rightarrow> virtio_req option" where
  "add_dev_buf_from_vring_desc req d =
     (if buf_count req < VIRTIO_REQ_MAX_BUFS \<and> d_addr d \<noteq> 0 \<and> d_len d \<noteq> 0
      then Some (req\<lparr>buf := buf req @ [\<lparr>iov_base = d_addr d, iov_len = ucast (d_len d)\<rparr>],
                     total_len := total_len req + d_len d\<rparr>)
      else None)"

text \<open>The next descriptor (\<open>None\<close> for the null pointer) and the updated index.\<close>

definition get_next_desc :: "virtio_queue \<Rightarrow> vmem \<Rightarrow> vring_desc \<Rightarrow> u16 \<Rightarrow> (nat option \<times> u16) option" where
  "get_next_desc q m d idx =
     (if max_merge_len q \<noteq> 0 then do {
        let idx = idx + 1;
        a \<leftarrow> m_avail m (q_avail q);
        if idx = a_idx a then Some (None, idx)
        else do {
          desc_idx \<leftarrow> aget (a_ring a) (ring_pos q idx);
          Some (Some (vring_desc_at_le_idx q desc_idx), idx)
        }
      }
      else if d_flags d AND VRING_DESC_F_NEXT = 0 then Some (None, idx)
      else Some (Some (vring_desc_at_le_idx q (d_next d)), idx))"

text \<open>The \<open>do ... while\<close> loop of \<open>virtio_process_one\<close>: the request and the descriptor it stopped at.\<close>

function gather :: "virtio_queue \<Rightarrow> vmem \<Rightarrow> nat \<Rightarrow> u16 \<Rightarrow> virtio_req \<Rightarrow> (virtio_req \<times> nat option) option" where
  "gather q m i idx req = do {
     d \<leftarrow> read_desc q m i;
     req \<leftarrow> add_dev_buf_from_vring_desc req d;
     if max_merge_len q \<noteq> 0 \<and> total_len req > max_merge_len q then Some (req, Some i)
     else do {
       (next, idx) \<leftarrow> get_next_desc q m d idx;
       case next of
         None \<Rightarrow> Some (req, None)
       | Some j \<Rightarrow> if buf_count req < VIRTIO_REQ_MAX_BUFS then gather q m j idx req else Some (req, Some j)
     }
   }"
  by pat_completeness auto
termination
  by (relation "measure (\<lambda>(q, m, i, idx, req). VIRTIO_REQ_MAX_BUFS - buf_count req)")
    (auto simp: add_dev_buf_from_vring_desc_def split: if_splits)

declare gather.simps [simp del]

section \<open>Processing a queue\<close>

definition virtio_process_one ::
  "'d virtio_dev_ops \<Rightarrow> virtio_dev \<Rightarrow> nat \<Rightarrow> 'd vworld \<Rightarrow> (int \<times> virtio_dev \<times> 'd vworld) option" where
  "virtio_process_one ops dev qidx w = do {
     q \<leftarrow> aget (queue dev) qidx;
     let idx = last_avail_idx q;
     i \<leftarrow> vring_desc_at_avail_idx q (w_mem w) idx;
     (req, last) \<leftarrow> gather q (w_mem w) i idx \<lparr>buf = [], total_len = 0\<rparr>;
     bad \<leftarrow> (case last of
         None \<Rightarrow> Some False
       | Some j \<Rightarrow> do { d \<leftarrow> read_desc q (w_mem w) j; Some (d_flags d AND VRING_DESC_F_NEXT \<noteq> 0) });
     if bad then None
     else op_enqueue ops dev qidx \<lparr>rq_req = req, rq_q = qidx, rq_idx = idx\<rparr> w
   }"

partial_function (option) process_loop ::
  "'d virtio_dev_ops \<Rightarrow> virtio_dev \<Rightarrow> nat \<Rightarrow> 'd vworld \<Rightarrow> (virtio_dev \<times> 'd vworld) option" where
  "process_loop ops dev qidx w = do {
     q \<leftarrow> aget (queue dev) qidx;
     aidx \<leftarrow> avail_idx_of q (w_mem w);
     if last_avail_idx q = aidx then Some (dev, w)
     else do {
       (ret, dev, w) \<leftarrow> virtio_process_one ops dev qidx w;
       if ret < 0 then Some (dev, w)
       else do {
         q \<leftarrow> aget (queue dev) qidx;
         aidx \<leftarrow> avail_idx_of q (w_mem w);
         m \<leftarrow> (if last_avail_idx q = aidx then virtio_set_avail_event q aidx (w_mem w) else Some (w_mem w));
         process_loop ops dev qidx (w\<lparr>w_mem := m\<rparr>)
       }
     }
   }"

definition virtio_process_queue ::
  "'d virtio_dev_ops \<Rightarrow> virtio_dev \<Rightarrow> nat \<Rightarrow> 'd vworld \<Rightarrow> (virtio_dev \<times> 'd vworld) option" where
  "virtio_process_queue ops dev qidx w = do {
     q \<leftarrow> aget (queue dev) qidx;
     if ready q = 0 then Some (dev, w)
     else do {
       let w = (case op_acquire_queue ops of None \<Rightarrow> w | Some f \<Rightarrow> f dev qidx w);
       (dev, w) \<leftarrow> process_loop ops dev qidx w;
       let w = (case op_release_queue ops of None \<Rightarrow> w | Some f \<Rightarrow> f dev qidx w);
       Some (dev, w)
     }
   }"

section \<open>Well-formed queues\<close>

text \<open>The ring size is a power of two and the three objects the queue points to have its size.\<close>

definition queue_ok :: "virtio_queue \<Rightarrow> vmem \<Rightarrow> bool" where
  "queue_ok q m \<longleftrightarrow> (\<exists>k \<le> 15. num q = 2 ^ k) \<and>
     (\<exists>t. m_desc m (q_desc q) = Some t \<and> length t = unat (num q)) \<and>
     (\<exists>a. m_avail m (q_avail q) = Some a \<and> length (a_ring a) = Suc (unat (num q))) \<and>
     (\<exists>u. m_used m (q_used q) = Some u \<and> length (u_ring u) = unat (num q))"

lemma queue_okE:
  assumes "queue_ok q m"
  obtains k t a u where "k \<le> 15" "num q = 2 ^ k" "unat (num q) = 2 ^ k"
    "m_desc m (q_desc q) = Some t" "length t = unat (num q)"
    "m_avail m (q_avail q) = Some a" "length (a_ring a) = Suc (unat (num q))"
    "m_used m (q_used q) = Some u" "length (u_ring u) = unat (num q)"
proof -
  from assms obtain k where k: "k \<le> 15" "num q = 2 ^ k" by (auto simp: queue_ok_def)
  then have "unat (num q) = 2 ^ k" by (simp add: unat_pow2_word)
  with assms k that show ?thesis by (auto simp: queue_ok_def)
qed

lemma ring_pos_mod: "queue_ok q m \<Longrightarrow> ring_pos q i = unat i mod unat (num q)"
  by (auto simp: ring_pos_def unat_and_pow2 unat_ucast_up elim!: queue_okE)

lemma ring_pos_less: "queue_ok q m \<Longrightarrow> ring_pos q i < unat (num q)"
  by (auto simp: ring_pos_mod elim: queue_okE)

section \<open>Chains\<close>

definition iov_of :: "vring_desc \<Rightarrow> iovec" where
  "iov_of d = \<lparr>iov_base = d_addr d, iov_len = ucast (d_len d)\<rparr>"

text \<open>
  A list of table positions is a chain when each descriptor but the last continues to the next
  position, the last one does not continue, and every descriptor names a non-empty buffer.
\<close>

fun is_chain :: "virtio_queue \<Rightarrow> vring_desc list \<Rightarrow> nat list \<Rightarrow> bool" where
  "is_chain q t [] \<longleftrightarrow> False"
| "is_chain q t [i] \<longleftrightarrow> i < length t \<and> d_addr (t ! i) \<noteq> 0 \<and> d_len (t ! i) \<noteq> 0 \<and>
     d_flags (t ! i) AND VRING_DESC_F_NEXT = 0"
| "is_chain q t (i # j # xs) \<longleftrightarrow> i < length t \<and> d_addr (t ! i) \<noteq> 0 \<and> d_len (t ! i) \<noteq> 0 \<and>
     d_flags (t ! i) AND VRING_DESC_F_NEXT \<noteq> 0 \<and> ring_pos q (d_next (t ! i)) = j \<and> is_chain q t (j # xs)"

definition chain_req :: "vring_desc list \<Rightarrow> nat list \<Rightarrow> virtio_req" where
  "chain_req t xs = \<lparr>buf = map (\<lambda>i. iov_of (t ! i)) xs, total_len = sum_list (map (\<lambda>i. d_len (t ! i)) xs)\<rparr>"

lemma gather_chain:
  assumes "max_merge_len q = 0" "m_desc m (q_desc q) = Some t" "is_chain q t xs"
    and "buf_count req + length xs \<le> VIRTIO_REQ_MAX_BUFS"
  shows "gather q m (hd xs) idx req =
    Some (\<lparr>buf = buf req @ buf (chain_req t xs), total_len = total_len req + total_len (chain_req t xs)\<rparr>, None)"
  using assms(3,4)
proof (induction xs arbitrary: req rule: induct_list012)
  case (2 i)
  with assms(1,2) show ?case
    by (simp add: gather.simps read_desc_def add_dev_buf_from_vring_desc_def get_next_desc_def
        chain_req_def iov_of_def)
next
  case (3 i j xs)
  let ?req = "req\<lparr>buf := buf req @ [iov_of (t ! i)], total_len := total_len req + d_len (t ! i)\<rparr>"
  from 3 assms(1,2) have "gather q m i idx req = gather q m j idx ?req"
    by (subst gather.simps) (simp add: read_desc_def add_dev_buf_from_vring_desc_def get_next_desc_def
        vring_desc_at_le_idx_def iov_of_def)
  with "3.IH"(2) [of ?req] "3.prems" show ?case by (simp add: chain_req_def add.assoc)
qed simp

text \<open>The positions and heads of the requests the driver has published.\<close>

definition avail_head :: "virtio_queue \<Rightarrow> vmem \<Rightarrow> u16 \<Rightarrow> u16" where
  "avail_head q m idx = a_ring (the (m_avail m (q_avail q))) ! ring_pos q idx"

definition pending_count :: "virtio_queue \<Rightarrow> vmem \<Rightarrow> nat" where
  "pending_count q m = unat (a_idx (the (m_avail m (q_avail q))) - last_avail_idx q)"

text \<open>\<open>xs\<close> is the chain of the request published at index \<open>idx\<close>, and it fits a request.\<close>

definition request_at :: "virtio_queue \<Rightarrow> vmem \<Rightarrow> u16 \<Rightarrow> nat list \<Rightarrow> bool" where
  "request_at q m idx xs \<longleftrightarrow> is_chain q (the (m_desc m (q_desc q))) xs \<and>
     hd xs = ring_pos q (avail_head q m idx) \<and> length xs \<le> VIRTIO_REQ_MAX_BUFS"

lemma process_one_enqueues:
  assumes "aget (queue dev) qidx = Some q" "queue_ok q (w_mem w)" "max_merge_len q = 0"
    and "request_at q (w_mem w) (last_avail_idx q) xs"
  shows "virtio_process_one ops dev qidx w = op_enqueue ops dev qidx
    \<lparr>rq_req = chain_req (the (m_desc (w_mem w) (q_desc q))) xs, rq_q = qidx, rq_idx = last_avail_idx q\<rparr> w"
proof -
  from assms(2) obtain t a where t: "m_desc (w_mem w) (q_desc q) = Some t"
    and a: "m_avail (w_mem w) (q_avail q) = Some a" "length (a_ring a) = Suc (unat (num q))"
    by (rule queue_okE)
  from a ring_pos_less [OF assms(2), of "last_avail_idx q"] assms(4)
  have "vring_desc_at_avail_idx q (w_mem w) (last_avail_idx q) = Some (hd xs)"
    by (simp add: vring_desc_at_avail_idx_def vring_desc_at_le_idx_def request_at_def avail_head_def)
  moreover have "gather q (w_mem w) (hd xs) (last_avail_idx q) \<lparr>buf = [], total_len = 0\<rparr> =
      Some (chain_req t xs, None)"
    using gather_chain [OF assms(3) t, of xs "\<lparr>buf = [], total_len = 0\<rparr>"] assms(4) t
    by (simp add: request_at_def chain_req_def)
  ultimately show ?thesis using assms(1) t by (simp add: virtio_process_one_def)
qed

section \<open>One request completed\<close>

text \<open>What completing one request does to the used ring.\<close>

definition used_push :: "virtio_queue \<Rightarrow> u16 \<Rightarrow> vring_used \<Rightarrow> vring_used" where
  "used_push q head u = u\<lparr>u_ring := (u_ring u)[ring_pos q (u_idx u) := \<lparr>ue_id = ucast head, ue_len = 0\<rparr>],
     u_idx := u_idx u + 1\<rparr>"

text \<open>The driver is told when nothing is left to do or when it asked to be told at this index.\<close>

definition must_signal :: "virtio_queue \<Rightarrow> vmem \<Rightarrow> u16 \<Rightarrow> bool" where
  "must_signal q m idx \<longleftrightarrow>
     (let a = the (m_avail m (q_avail q)) in
      idx + 1 = a_idx a \<or>
      vring_need_event (a_ring a ! unat (num q)) (u_idx (the (m_used m (q_used q))) + 1)
        (last_used_idx_signaled q))"

definition completed_queue :: "virtio_queue \<Rightarrow> vmem \<Rightarrow> u16 \<Rightarrow> virtio_queue" where
  "completed_queue q m idx = q\<lparr>last_avail_idx := idx + 1, last_used_idx_signaled :=
     (if must_signal q m idx then u_idx (the (m_used m (q_used q))) + 1 else last_used_idx_signaled q)\<rparr>"

definition completed_mem :: "virtio_queue \<Rightarrow> vmem \<Rightarrow> u16 \<Rightarrow> vmem" where
  "completed_mem q m idx = m\<lparr>m_used := (m_used m)
     (q_used q \<mapsto> used_push q (avail_head q m idx) (the (m_used m (q_used q))))\<rparr>"

lemma complete_zero:
  assumes "aget (queue dev) (rq_q rq) = Some q" "queue_ok q (w_mem w)" "max_merge_len q = 0"
    and "buf (rq_req rq) \<noteq> []"
  shows "virtio_req_complete dev rq 0 w =
    (let q' = completed_queue q (w_mem w) (rq_idx rq);
         dev' = dev\<lparr>queue := (queue dev)[rq_q rq := q']\<rparr>;
         w' = w\<lparr>w_mem := completed_mem q (w_mem w) (rq_idx rq)\<rparr>
     in Some (if must_signal q (w_mem w) (rq_idx rq) then virtio_deliver_irq dev' w' else (dev', w')))"
proof -
  obtain b bs where b: "buf (rq_req rq) = b # bs" using assms(4) by (cases "buf (rq_req rq)") auto
  from assms(2) obtain a u where a: "m_avail (w_mem w) (q_avail q) = Some a" "length (a_ring a) = Suc (unat (num q))"
    and u: "m_used (w_mem w) (q_used q) = Some u" "length (u_ring u) = unat (num q)"
    by (rule queue_okE)
  note pos = ring_pos_less [OF assms(2)]
  have "virtio_add_used q (u_idx u) (rq_idx rq) 0 (w_mem w) = Some ((w_mem w)\<lparr>m_used := (m_used (w_mem w))
      (q_used q \<mapsto> u\<lparr>u_ring := (u_ring u)[ring_pos q (u_idx u) := \<lparr>ue_id = ucast (avail_head q (w_mem w) (rq_idx rq)), ue_len = 0\<rparr>]\<rparr>)\<rparr>)"
    using a u pos [of "rq_idx rq"] pos [of "u_idx u"] by (simp add: virtio_add_used_def avail_head_def)
  with a u assms(1,3) b show ?thesis
    by (simp add: virtio_req_complete_def virtio_get_used_idx_def virtio_sync_used_idx_def
        avail_idx_of_def virtio_get_used_event_def completed_queue_def completed_mem_def used_push_def
        must_signal_def Let_def)
qed

section \<open>Draining a queue\<close>

definition pending_heads :: "virtio_queue \<Rightarrow> vmem \<Rightarrow> nat \<Rightarrow> u16 list" where
  "pending_heads q m n = map (\<lambda>k. avail_head q m (last_avail_idx q + word_of_nat k)) [0..<n]"

text \<open>The requests published and not yet taken, oldest first, with the chain of each.\<close>

definition pending_requests :: "virtio_queue \<Rightarrow> vmem \<Rightarrow> nat list list \<Rightarrow> bool" where
  "pending_requests q m xss \<longleftrightarrow> pending_count q m = length xss \<and>
     (\<forall>k < length xss. request_at q m (last_avail_idx q + word_of_nat k) (xss ! k))"

lemma pending_heads_Suc:
  "pending_heads q m (Suc n) = avail_head q m (last_avail_idx q) #
     pending_heads (q\<lparr>last_avail_idx := last_avail_idx q + 1, last_used_idx_signaled := s\<rparr>) m n"
  unfolding pending_heads_def upt_conv_Cons [OF zero_less_Suc]
  by (simp only: map_Suc_upt [symmetric] list.map map_map comp_def)
    (simp add: avail_head_def ring_pos_def add.assoc)

text \<open>Completing a request touches neither the descriptors nor the available ring.\<close>

lemma frame_used [frame]:
  "avail_head q (m\<lparr>m_used := f\<rparr>) = avail_head q m"
  "avail_head q (m\<lparr>m_byte := b\<rparr>) = avail_head q m"
  "pending_heads q (m\<lparr>m_used := f\<rparr>) = pending_heads q m"
  "pending_heads q (m\<lparr>m_byte := b\<rparr>) = pending_heads q m"
  "request_at q (m\<lparr>m_used := f\<rparr>) = request_at q m"
  "request_at q (m\<lparr>m_byte := b\<rparr>) = request_at q m"
  "pending_requests q (m\<lparr>m_used := f\<rparr>) = pending_requests q m"
  "pending_requests q (m\<lparr>m_byte := b\<rparr>) = pending_requests q m"
  "must_signal q (m\<lparr>m_byte := b\<rparr>) = must_signal q m"
  "completed_queue q (m\<lparr>m_byte := b\<rparr>) = completed_queue q m"
  "completed_mem q (m\<lparr>m_byte := b\<rparr>) idx = (completed_mem q m idx)\<lparr>m_byte := b\<rparr>"
  "queue_ok q (m\<lparr>m_byte := b\<rparr>) = queue_ok q m"
  by (simp_all add: avail_head_def pending_heads_def request_at_def pending_requests_def
      pending_count_def must_signal_def completed_queue_def completed_mem_def queue_ok_def fun_eq_iff)

lemma frame_queue [frame]:
  "ring_pos (q\<lparr>last_avail_idx := i, last_used_idx_signaled := s\<rparr>) = ring_pos q"
  "used_push (q\<lparr>last_avail_idx := i, last_used_idx_signaled := s\<rparr>) = used_push q"
  "avail_head (q\<lparr>last_avail_idx := i, last_used_idx_signaled := s\<rparr>) = avail_head q"
  "queue_ok (q\<lparr>last_avail_idx := i, last_used_idx_signaled := s\<rparr>) = queue_ok q"
  by (simp_all add: ring_pos_def used_push_def avail_head_def queue_ok_def fun_eq_iff)

lemma is_chain_frame [frame]:
  "is_chain (q\<lparr>last_avail_idx := i, last_used_idx_signaled := s\<rparr>) t xs = is_chain q t xs"
  by (induction xs rule: induct_list012) (simp_all add: frame)

lemma pending_requests_Cons:
  assumes "pending_requests q m (xs # xss)"
  shows "request_at q m (last_avail_idx q) xs \<and>
    pending_requests (q\<lparr>last_avail_idx := last_avail_idx q + 1, last_used_idx_signaled := s\<rparr>) m xss"
proof -
  let ?q = "q\<lparr>last_avail_idx := last_avail_idx q + 1, last_used_idx_signaled := s\<rparr>"
  have r: "request_at q m (last_avail_idx q + word_of_nat k) ((xs # xss) ! k)" if "k \<le> length xss" for k
    using assms that by (simp add: pending_requests_def)
  have "request_at ?q m (last_avail_idx ?q + word_of_nat k) (xss ! k)" if "k < length xss" for k
    using r [of "Suc k"] that by (simp add: request_at_def frame add.assoc)
  moreover have "pending_count ?q m = length xss"
    using assms by (simp add: pending_requests_def pending_count_def unat_diff_step)
  ultimately show ?thesis using r [of 0] by (simp add: pending_requests_def)
qed

text \<open>
  The state of device and world after a queue was drained: the used ring has the heads in the order
  they were published, the available event is the index reached, buffers and disk are \<open>b\<close> and \<open>d\<close>.
\<close>

definition drained_used :: "virtio_queue \<Rightarrow> vmem \<Rightarrow> nat \<Rightarrow> vring_used" where
  "drained_used q m n =
     (let u = the (m_used m (q_used q)) in
      (fold (used_push q) (pending_heads q m n) u)
        \<lparr>u_avail_event := (if n = 0 then u_avail_event u else a_idx (the (m_avail m (q_avail q))))\<rparr>)"

definition drained ::
  "nat \<Rightarrow> virtio_queue \<Rightarrow> nat \<Rightarrow> (addr \<Rightarrow> u8) \<Rightarrow> 'd \<Rightarrow>
   virtio_dev \<Rightarrow> 'd vworld \<Rightarrow> virtio_dev \<Rightarrow> 'd vworld \<Rightarrow> bool" where
  "drained qi q n b d dev w dev' w' \<longleftrightarrow>
     (\<exists>sig irqs. dev' = dev\<lparr>queue := (queue dev)[qi :=
          q\<lparr>last_avail_idx := a_idx (the (m_avail (w_mem w) (q_avail q))), last_used_idx_signaled := sig\<rparr>],
          int_status := int_status dev OR (if irqs = [] then 0 else 1)\<rparr> \<and>
        w' = w\<lparr>w_mem := (w_mem w)\<lparr>m_byte := b,
          m_used := (m_used (w_mem w))(q_used q \<mapsto> drained_used q (w_mem w) n)\<rparr>,
          w_irqs := w_irqs w @ irqs, w_disk := d\<rparr> \<and>
        set irqs \<subseteq> {irq dev} \<and> (n \<noteq> 0 \<longrightarrow> irqs \<noteq> []))"

lemma used_push_sel:
  "u_idx (used_push q h u) = u_idx u + 1" "length (u_ring (used_push q h u)) = length (u_ring u)"
  by (simp_all add: used_push_def)

lemma used_push_event: "used_push q h (u\<lparr>u_avail_event := e\<rparr>) = (used_push q h u)\<lparr>u_avail_event := e\<rparr>"
  by (simp add: used_push_def)

lemma fold_used_push_event:
  "fold (used_push q) hs (u\<lparr>u_avail_event := e\<rparr>) = (fold (used_push q) hs u)\<lparr>u_avail_event := e\<rparr>"
  by (induction hs arbitrary: u) (simp_all add: used_push_event)

lemma fold_used_push_event_same [simp]: "u_avail_event (fold (used_push q) hs u) = u_avail_event u"
  by (induction hs arbitrary: u) (simp_all add: used_push_def)

text \<open>In a ring of power-of-two size the free-running index names consecutive cells, across the
  wrap-around of 16 bits as well.\<close>

lemma ring_pos_add:
  assumes "queue_ok q m"
  shows "ring_pos q (i + word_of_nat j) = (unat i + j) mod unat (num q)"
proof -
  from assms obtain k where "k \<le> 15" "unat (num q) = 2 ^ k" by (rule queue_okE)
  then have "unat (num q) dvd 2 ^ 16" using le_imp_power_dvd [of k 16 "2 :: nat"] by simp
  then show ?thesis by (simp add: ring_pos_mod [OF assms] unat_add_of_nat mod_mod_cancel)
qed

lemma fold_used_push_nth:
  assumes "queue_ok q m" "length (u_ring u) = unat (num q)" "length hs \<le> unat (num q)"
  shows "length (u_ring (fold (used_push q) hs u)) = unat (num q) \<and>
    u_idx (fold (used_push q) hs u) = u_idx u + word_of_nat (length hs) \<and>
    (\<forall>k < length hs. u_ring (fold (used_push q) hs u) ! ring_pos q (u_idx u + word_of_nat k) =
       \<lparr>ue_id = ucast (hs ! k), ue_len = 0\<rparr>)"
  using assms(3)
proof (induction hs rule: rev_induct)
  case (snoc h hs)
  let ?u = "fold (used_push q) hs u"
  from snoc have IH: "length (u_ring ?u) = unat (num q)" "u_idx ?u = u_idx u + word_of_nat (length hs)"
    and nth: "k < length hs \<Longrightarrow> u_ring ?u ! ring_pos q (u_idx u + word_of_nat k) = \<lparr>ue_id = ucast (hs ! k), ue_len = 0\<rparr>" for k
    by auto
  have ne: "ring_pos q (u_idx u + word_of_nat k) \<noteq> ring_pos q (u_idx u + word_of_nat (length hs))" if "k < length hs" for k
    using that snoc.prems mod_add_inj [of "unat (u_idx u)" k "unat (num q)" "length hs"]
    by (auto simp: ring_pos_add [OF assms(1)])
  have lt: "ring_pos q i < length (u_ring ?u)" for i
    using IH ring_pos_less [OF assms(1)] by simp
  have "u_ring (used_push q h ?u) ! ring_pos q (u_idx u + word_of_nat k) = \<lparr>ue_id = ucast ((hs @ [h]) ! k), ue_len = 0\<rparr>"
    if "k \<le> length hs" for k
    using that nth [of k] ne [of k] lt
    by (cases "k = length hs") (auto simp: used_push_def IH nth_append nth_list_update)
  with IH show ?case by (simp add: used_push_sel less_Suc_eq_le add.assoc)
qed (simp add: assms)

text \<open>The memory after one completed request: the event index is stored with the last one.\<close>

definition stepped_mem :: "virtio_queue \<Rightarrow> vmem \<Rightarrow> nat \<Rightarrow> (addr \<Rightarrow> u8) \<Rightarrow> vmem" where
  "stepped_mem q m n b =
     (let u = the (m_used m (q_used q)) in
      m\<lparr>m_byte := b, m_used := (m_used m)(q_used q \<mapsto> (used_push q (avail_head q m (last_avail_idx q)) u)
        \<lparr>u_avail_event := (if n = 0 then a_idx (the (m_avail m (q_avail q))) else u_avail_event u)\<rparr>)\<rparr>)"

lemma drained_used_Suc:
  "drained_used (completed_queue q m (last_avail_idx q)) (stepped_mem q m n b) n = drained_used q m (Suc n)"
proof (cases n)
  case 0
  then show ?thesis
    by (simp add: drained_used_def stepped_mem_def completed_queue_def pending_heads_def Let_def)
next
  case (Suc k)
  let ?q = "completed_queue q m (last_avail_idx q)"
  have "pending_heads q m (Suc n) = avail_head q m (last_avail_idx q) # pending_heads ?q (stepped_mem q m n b) n"
    by (subst pending_heads_Suc [where s = "last_used_idx_signaled ?q"])
      (simp add: completed_queue_def stepped_mem_def Let_def frame)
  with Suc show ?thesis
    by (simp add: drained_used_def stepped_mem_def completed_queue_def frame Let_def fold_used_push_event)
qed

lemma drained_Suc:
  assumes "must_signal q (w_mem w) (last_avail_idx q) \<or> n \<noteq> 0"
    and "sigs = (if must_signal q (w_mem w) (last_avail_idx q) then [irq dev] else [])"
    and "drained qi (completed_queue q (w_mem w) (last_avail_idx q)) n b' d'
      (dev\<lparr>queue := (queue dev)[qi := completed_queue q (w_mem w) (last_avail_idx q)],
        int_status := int_status dev OR (if sigs = [] then 0 else 1)\<rparr>)
      (w\<lparr>w_mem := stepped_mem q (w_mem w) n b, w_irqs := w_irqs w @ sigs, w_disk := d\<rparr>) dev' w'"
  shows "drained qi q (Suc n) b' d' dev w dev' w'"
proof -
  let ?q = "completed_queue q (w_mem w) (last_avail_idx q)" and ?m = "stepped_mem q (w_mem w) n b"
  have fr: "q_used ?q = q_used q" "q_avail ?q = q_avail q" "m_avail ?m = m_avail (w_mem w)"
    "\<And>i s. ?q\<lparr>last_avail_idx := i, last_used_idx_signaled := s\<rparr> = q\<lparr>last_avail_idx := i, last_used_idx_signaled := s\<rparr>"
    "\<And>f v. ?m\<lparr>m_byte := b', m_used := (m_used ?m)(q_used q \<mapsto> v)\<rparr> =
       (w_mem w)\<lparr>m_byte := b', m_used := (m_used (w_mem w))(q_used q \<mapsto> v)\<rparr>"
    by (simp_all add: completed_queue_def stepped_mem_def Let_def)
  from assms(3) obtain sig irqs where
    d: "dev' = dev\<lparr>queue := (queue dev)[qi :=
          q\<lparr>last_avail_idx := a_idx (the (m_avail (w_mem w) (q_avail q))), last_used_idx_signaled := sig\<rparr>],
          int_status := int_status dev OR (if sigs = [] then 0 else 1) OR (if irqs = [] then 0 else 1)\<rparr>" and
    w: "w' = w\<lparr>w_mem := (w_mem w)\<lparr>m_byte := b',
          m_used := (m_used (w_mem w))(q_used q \<mapsto> drained_used q (w_mem w) (Suc n))\<rparr>,
          w_irqs := w_irqs w @ sigs @ irqs, w_disk := d'\<rparr>" and
    i: "set irqs \<subseteq> {irq dev}" "n \<noteq> 0 \<longrightarrow> irqs \<noteq> []"
    unfolding drained_def by (elim exE conjE) (rule that, simp_all add: fr drained_used_Suc or.assoc)
  show ?thesis
    unfolding drained_def
    by (rule exI [of _ sig], rule exI [of _ "sigs @ irqs"]) (use assms(1,2) d w i in auto)
qed

lemma vworld_updates:
  "w\<lparr>w_disk := d, w_mem := m\<rparr> = w\<lparr>w_mem := m, w_disk := d\<rparr>"
  "w\<lparr>w_irqs := i, w_mem := m\<rparr> = w\<lparr>w_mem := m, w_irqs := i\<rparr>"
  "w\<lparr>w_disk := d, w_irqs := i\<rparr> = w\<lparr>w_irqs := i, w_disk := d\<rparr>"
  by simp_all

locale virtqueue_backend =
  fixes ops :: "'d virtio_dev_ops"
    and serve :: "virtio_req \<Rightarrow> (addr \<Rightarrow> u8) \<times> 'd \<Rightarrow> ((addr \<Rightarrow> u8) \<times> 'd) option"
  assumes unlocked: "op_acquire_queue ops = None" "op_release_queue ops = None"
    and enqueue: "op_enqueue ops dev qi rq w = do {
      (b, d) \<leftarrow> serve (rq_req rq) (m_byte (w_mem w), w_disk w);
      (dev, w) \<leftarrow> virtio_req_complete dev rq 0 (w\<lparr>w_mem := (w_mem w)\<lparr>m_byte := b\<rparr>, w_disk := d\<rparr>);
      Some (0, dev, w)
    }"
begin

lemma process_one:
  assumes q: "aget (queue dev) qi = Some q" "queue_ok q (w_mem w)" "max_merge_len q = 0"
    and r: "request_at q (w_mem w) (last_avail_idx q) xs"
    and s: "serve (chain_req (the (m_desc (w_mem w) (q_desc q))) xs) (m_byte (w_mem w), w_disk w) = Some (b, d)"
  shows "virtio_process_one ops dev qi w =
    (let q' = completed_queue q (w_mem w) (last_avail_idx q);
         dev' = dev\<lparr>queue := (queue dev)[qi := q']\<rparr>;
         w' = w\<lparr>w_mem := (completed_mem q (w_mem w) (last_avail_idx q))\<lparr>m_byte := b\<rparr>, w_disk := d\<rparr>
     in Some (0, if must_signal q (w_mem w) (last_avail_idx q) then virtio_deliver_irq dev' w' else (dev', w')))"
proof -
  have "xs \<noteq> []" using r by (auto simp: request_at_def)
  then have "buf (chain_req t xs) \<noteq> []" for t by (simp add: chain_req_def)
  with q show ?thesis
    by (simp add: process_one_enqueues [OF q r] enqueue s complete_zero frame Let_def virtio_deliver_irq_def)
qed

lemma drained_nil:
  assumes "aget (queue dev) qi = Some q" "queue_ok q (w_mem w)" "pending_count q (w_mem w) = 0"
  shows "process_loop ops dev qi w = Some (dev, w) \<and> drained qi q 0 (m_byte (w_mem w)) (w_disk w) dev w dev w"
proof -
  from assms(2) obtain a u where a: "m_avail (w_mem w) (q_avail q) = Some a" "m_used (w_mem w) (q_used q) = Some u"
    by (rule queue_okE)
  with assms(3) have l: "last_avail_idx q = a_idx a" by (simp add: pending_count_def unat_diff_0_iff)
  from assms(1) have d: "(queue dev)[qi := q] = queue dev" by (auto simp: aget_Some_iff)
  have m: "(m_used (w_mem w))(q_used q \<mapsto> u) = m_used (w_mem w)" using a by auto
  have "drained qi q 0 (m_byte (w_mem w)) (w_disk w) dev w dev w"
    unfolding drained_def
    by (rule exI [of _ "last_used_idx_signaled q"], rule exI [of _ "[]"])
      (simp add: drained_used_def pending_heads_def a l [symmetric] d m)
  with assms(1) a l show ?thesis
    by (subst process_loop.simps) (simp add: avail_idx_of_def)
qed

lemma process_loop_step:
  assumes q: "aget (queue dev) qi = Some q" "queue_ok q (w_mem w)" "max_merge_len q = 0"
    and p: "pending_requests q (w_mem w) (xs # xss)"
    and s: "serve (chain_req (the (m_desc (w_mem w) (q_desc q))) xs) (m_byte (w_mem w), w_disk w) = Some (b, d)"
    and sigs: "sigs = (if must_signal q (w_mem w) (last_avail_idx q) then [irq dev] else [])"
  shows "process_loop ops dev qi w = process_loop ops
    (dev\<lparr>queue := (queue dev)[qi := completed_queue q (w_mem w) (last_avail_idx q)],
       int_status := int_status dev OR (if sigs = [] then 0 else 1)\<rparr>) qi
    (w\<lparr>w_mem := stepped_mem q (w_mem w) (length xss) b, w_irqs := w_irqs w @ sigs, w_disk := d\<rparr>)"
proof -
  let ?m = "w_mem w" and ?l = "last_avail_idx q"
  from q(2) obtain a u where a: "m_avail ?m (q_avail q) = Some a" and u: "m_used ?m (q_used q) = Some u"
    "length (u_ring u) = unat (num q)" by (rule queue_okE)
  have n: "unat (a_idx a - ?l) = Suc (length xss)"
    using p a by (simp add: pending_requests_def pending_count_def)
  then have l: "?l \<noteq> a_idx a" "?l + 1 = a_idx a \<longleftrightarrow> xss = []"
    using unat_diff_step [OF n] unat_diff_0_iff [of "a_idx a" "?l + 1"] by auto
  have r: "request_at q ?m ?l xs" using pending_requests_Cons [OF p] by simp
  have ev: "virtio_set_avail_event (completed_queue q ?m ?l) (a_idx a) ((completed_mem q ?m ?l)\<lparr>m_byte := b\<rparr>) =
      Some (stepped_mem q ?m 0 b)"
    using u a by (simp add: virtio_set_avail_event_def completed_queue_def completed_mem_def stepped_mem_def used_push_def Let_def)
  have ne: "(completed_mem q ?m ?l)\<lparr>m_byte := b\<rparr> = stepped_mem q ?m (length xss) b" if "xss \<noteq> []"
    using that u by (simp add: completed_mem_def stepped_mem_def used_push_def)
  have q': "last_avail_idx (completed_queue q ?m ?l) = ?l + 1" "q_avail (completed_queue q ?m ?l) = q_avail q"
    by (simp_all add: completed_queue_def)
  have m': "m_avail (completed_mem q ?m ?l) = m_avail ?m" by (simp add: completed_mem_def)
  from q(1) have i: "qi < length (queue dev)" by (simp add: aget_Some_iff)
  show ?thesis
    by (subst process_loop.simps)
      (use q(1) i a l ev ne in \<open>auto simp: avail_idx_of_def process_one [OF q r s] Let_def q' m' sigs virtio_deliver_irq_def vworld_updates\<close>)
qed

lemma drain:
  assumes "aget (queue dev) qi = Some q" "queue_ok q (w_mem w)" "max_merge_len q = 0"
    and "pending_requests q (w_mem w) xss"
    and "opt_fold serve (map (chain_req (the (m_desc (w_mem w) (q_desc q)))) xss) (m_byte (w_mem w), w_disk w) = Some (b, d)"
  shows "\<exists>dev' w'. process_loop ops dev qi w = Some (dev', w') \<and> drained qi q (length xss) b d dev w dev' w'"
  using assms
proof (induction xss arbitrary: dev q w)
  case Nil
  then show ?case using drained_nil [of dev qi q w] by (auto simp: pending_requests_def)
next
  case (Cons xs xss)
  let ?m = "w_mem w" and ?l = "last_avail_idx q" and ?n = "length xss"
  let ?q = "completed_queue q ?m ?l"
  define sigs where "sigs = (if must_signal q ?m ?l then [irq dev] else [])"
  from Cons.prems(5) obtain b1 d1 where s1: "serve (chain_req (the (m_desc ?m (q_desc q))) xs) (m_byte ?m, w_disk w) = Some (b1, d1)"
    and s2: "opt_fold serve (map (chain_req (the (m_desc ?m (q_desc q)))) xss) (b1, d1) = Some (b, d)"
    by (auto simp: bind_eq_Some_conv)
  define dev1 where "dev1 = dev\<lparr>queue := (queue dev)[qi := ?q], int_status := int_status dev OR (if sigs = [] then 0 else 1)\<rparr>"
  define w2 where "w2 = w\<lparr>w_mem := stepped_mem q ?m ?n b1, w_irqs := w_irqs w @ sigs, w_disk := d1\<rparr>"
  have step: "process_loop ops dev qi w = process_loop ops dev1 qi w2"
    unfolding dev1_def w2_def by (rule process_loop_step [OF Cons.prems(1-4) s1 sigs_def])
  have p: "pending_requests ?q (w_mem w2) xss"
    using pending_requests_Cons [OF Cons.prems(4), of "last_used_idx_signaled ?q"]
    by (simp add: completed_queue_def w2_def stepped_mem_def Let_def frame)
  have q': "aget (queue dev1) qi = Some ?q" "queue_ok ?q (w_mem w2)" "max_merge_len ?q = 0"
    using Cons.prems(1-3)
    by (auto simp: aget_Some_iff dev1_def w2_def completed_queue_def stepped_mem_def frame Let_def queue_ok_def used_push_def)
  have s2': "opt_fold serve (map (chain_req (the (m_desc (w_mem w2) (q_desc ?q)))) xss) (m_byte (w_mem w2), w_disk w2) = Some (b, d)"
    using s2 by (simp add: w2_def completed_queue_def stepped_mem_def Let_def)
  have sig: "must_signal q ?m ?l \<or> ?n \<noteq> 0"
    using Cons.prems(4) unat_diff_step [of "a_idx (the (m_avail ?m (q_avail q)))" ?l "length xss"]
    by (auto simp: must_signal_def pending_requests_def pending_count_def Let_def unat_diff_0_iff)
  obtain dev' w' where "process_loop ops dev1 qi w2 = Some (dev', w')" "drained qi ?q ?n b d dev1 w2 dev' w'"
    using Cons.IH [OF q' p s2'] by blast
  with step drained_Suc [OF sig sigs_def] show ?case
    by (auto simp: dev1_def w2_def)
qed

lemma process_queue:
  assumes "aget (queue dev) qi = Some q" "ready q \<noteq> 0" "queue_ok q (w_mem w)" "max_merge_len q = 0"
    and "pending_requests q (w_mem w) xss"
    and "opt_fold serve (map (chain_req (the (m_desc (w_mem w) (q_desc q)))) xss) (m_byte (w_mem w), w_disk w) = Some (b, d)"
  shows "\<exists>dev' w'. virtio_process_queue ops dev qi w = Some (dev', w') \<and> drained qi q (length xss) b d dev w dev' w'"
  using drain [OF assms(1,3-6)] assms(1,2) unlocked by (auto simp: virtio_process_queue_def)

lemma process_queue_fifo:
  assumes "aget (queue dev) qi = Some q" "ready q \<noteq> 0" "queue_ok q (w_mem w)" "max_merge_len q = 0"
    and "pending_requests q (w_mem w) xss" "length xss \<le> unat (num q)"
    and "opt_fold serve (map (chain_req (the (m_desc (w_mem w) (q_desc q)))) xss) (m_byte (w_mem w), w_disk w) = Some (b, d)"
    and "m_used (w_mem w) (q_used q) = Some u"
  shows "\<exists>dev' w' u'. virtio_process_queue ops dev qi w = Some (dev', w') \<and>
    m_byte (w_mem w') = b \<and> w_disk w' = d \<and> m_used (w_mem w') (q_used q) = Some u' \<and>
    last_avail_idx (queue dev' ! qi) = a_idx (the (m_avail (w_mem w) (q_avail q))) \<and>
    u_idx u' = u_idx u + word_of_nat (length xss) \<and>
    (\<forall>k < length xss. u_ring u' ! ring_pos q (u_idx u + word_of_nat k) =
       \<lparr>ue_id = ucast (avail_head q (w_mem w) (last_avail_idx q + word_of_nat k)), ue_len = 0\<rparr>) \<and>
    (xss \<noteq> [] \<longrightarrow> u_avail_event u' = a_idx (the (m_avail (w_mem w) (q_avail q))) \<and>
       (\<exists>irqs. w_irqs w' = w_irqs w @ irq dev # irqs) \<and> int_status dev' AND 1 = 1)"
proof -
  from process_queue [OF assms(1-5) assms(7)] obtain dev' w' where
    p: "virtio_process_queue ops dev qi w = Some (dev', w')" "drained qi q (length xss) b d dev w dev' w'" by blast
  have "qi < length (queue dev)" using assms(1) by (simp add: aget_Some_iff)
  moreover have "length (u_ring u) = unat (num q)" using assms(3,8) by (auto elim: queue_okE)
  note fifo = fold_used_push_nth [OF assms(3) this, of "pending_heads q (w_mem w) (length xss)"]
  moreover have "\<exists>irqs'. irqs = x # irqs'" if "set irqs \<subseteq> {x}" "irqs \<noteq> []" for irqs and x :: int
    using that by (cases irqs) auto
  moreover have "(x OR 1) AND 1 = (1 :: u32)" for x by (rule bit_word_eqI) (auto simp: bit_simps)
  ultimately show ?thesis using p assms(6,8)
    by (intro exI [of _ dev'] exI [of _ w'] exI [of _ "drained_used q (w_mem w) (length xss)"])
      (auto simp: pending_heads_def Let_def drained_def drained_used_def)
qed

end

end
