(* ===== verification/Iomem.thy ===== *)
theory Iomem
  imports LKL_Prelude
begin

text \<open>
  The memory-mapped I/O regions of the host library, \<open>tools/lkl/lib/iomem.c\<close>. A device
  registers a region and receives an address whose upper bits are the region's number and
  whose lower 24 bits are the offset; an access decodes the address and calls the read or
  the write operation of the region's device.

  \<open>'w\<close> is the state the device operations act on. A device operation may itself run into
  undefined behaviour, so it returns an \<open>option\<close>.
\<close>

section \<open>Regions\<close>

record 'w lkl_iomem_ops =
  ops_read :: "addr \<Rightarrow> int \<Rightarrow> u8 list \<Rightarrow> int \<Rightarrow> 'w \<Rightarrow> (int \<times> u8 list \<times> 'w) option"
  ops_write :: "addr \<Rightarrow> int \<Rightarrow> u8 list \<Rightarrow> int \<Rightarrow> 'w \<Rightarrow> (int \<times> 'w) option"

record 'w iomem_region =
  ir_data :: addr
  ir_size :: int
  ir_ops :: "'w lkl_iomem_ops option"

type_synonym 'w iomem_regions = "'w iomem_region list"

abbreviation (input) IOMEM_OFFSET_BITS :: nat where "IOMEM_OFFSET_BITS \<equiv> 24"
abbreviation (input) MAX_IOMEM_REGIONS :: nat where "MAX_IOMEM_REGIONS \<equiv> 256"

text \<open>The zero-initialised static array.\<close>

definition iomem_regions_init :: "'w iomem_regions" where
  "iomem_regions_init =
     replicate MAX_IOMEM_REGIONS \<lparr>ir_data = 0, ir_size = 0, ir_ops = None\<rparr>"

section \<open>Addresses\<close>

text \<open>
  The index macro yields a \<open>uintptr_t\<close>, which the callers store in a 32-bit \<open>int\<close> or
  \<open>unsigned int\<close>. The converse macro shifts an \<open>int\<close>, so its 32-bit result is
  sign-extended to the pointer's width.
\<close>

definition IOMEM_ADDR_TO_INDEX :: "addr \<Rightarrow> u64" where
  "IOMEM_ADDR_TO_INDEX a = drop_bit IOMEM_OFFSET_BITS a"

definition IOMEM_ADDR_TO_OFFSET :: "addr \<Rightarrow> u64" where
  "IOMEM_ADDR_TO_OFFSET a = a AND (push_bit IOMEM_OFFSET_BITS 1 - 1)"

definition IOMEM_INDEX_TO_ADDR :: "int \<Rightarrow> addr" where
  "IOMEM_INDEX_TO_ADDR i = scast (push_bit IOMEM_OFFSET_BITS (word_of_int i :: u32))"

definition int_of_index :: "u64 \<Rightarrow> int" where
  "int_of_index x = sint (ucast x :: u32)"

section \<open>Operations\<close>

text \<open>\<open>for (i = 1; i < MAX; i++) if (!iomem_regions[i].ops) break;\<close>\<close>

function free_region :: "'w iomem_regions \<Rightarrow> nat \<Rightarrow> nat" where
  "free_region rs i =
     (if i < MAX_IOMEM_REGIONS
      then (if ir_ops (rs ! i) = None then i else free_region rs (Suc i))
      else i)"
  by pat_completeness auto
termination
  by (relation "measure (\<lambda>(rs, i). MAX_IOMEM_REGIONS - i)") auto

declare free_region.simps [simp del]

definition register_iomem ::
  "'w iomem_regions \<Rightarrow> addr \<Rightarrow> int \<Rightarrow> 'w lkl_iomem_ops \<Rightarrow> addr \<times> 'w iomem_regions" where
  "register_iomem rs data sz ops =
     (if sz > 2 ^ IOMEM_OFFSET_BITS - 1 then (0, rs)
      else let i = free_region rs 1 in
        if i \<ge> MAX_IOMEM_REGIONS then (0, rs)
        else (IOMEM_INDEX_TO_ADDR (int i),
              rs[i := \<lparr>ir_data = data, ir_size = sz, ir_ops = Some ops\<rparr>]))"

definition unregister_iomem :: "'w iomem_regions \<Rightarrow> addr \<Rightarrow> 'w iomem_regions" where
  "unregister_iomem rs base =
     (let index = unat (ucast (IOMEM_ADDR_TO_INDEX base) :: u32) in
      if index \<ge> MAX_IOMEM_REGIONS then rs
      else rs[index := (rs ! index)\<lparr>ir_size := 0, ir_ops := None\<rparr>])"

definition lkl_ioremap :: "'w iomem_regions \<Rightarrow> addr \<Rightarrow> int \<Rightarrow> addr option" where
  "lkl_ioremap rs a sz =
     (let index = int_of_index (IOMEM_ADDR_TO_INDEX a) in
      if index \<ge> int MAX_IOMEM_REGIONS then Some 0
      else do {
        r \<leftarrow> iget rs index;
        Some (if ir_ops r \<noteq> None \<and> sz \<le> ir_size r then IOMEM_INDEX_TO_ADDR index else 0)
      })"

text \<open>
  The buffer \<open>res\<close> is the source of a write and the destination of a read; the result
  carries its contents after the call.
\<close>

definition lkl_iomem_access ::
  "'w iomem_regions \<Rightarrow> addr \<Rightarrow> u8 list \<Rightarrow> int \<Rightarrow> bool \<Rightarrow> 'w \<Rightarrow> (int \<times> u8 list \<times> 'w) option" where
  "lkl_iomem_access rs a res sz write w =
     (let index = int_of_index (IOMEM_ADDR_TO_INDEX a);
          offset = uint (IOMEM_ADDR_TO_OFFSET a) in
      if index > int MAX_IOMEM_REGIONS then Some (- 1, res, w)
      else do {
        r \<leftarrow> iget rs index;
        case ir_ops r of
          None \<Rightarrow> Some (- 1, res, w)
        | Some ops \<Rightarrow>
            if offset + sz > ir_size r then Some (- 1, res, w)
            else if write then do {
              (ret, w') \<leftarrow> ops_write ops (ir_data r) offset res sz w;
              Some (ret, res, w')
            }
            else ops_read ops (ir_data r) offset res sz w
      })"

section \<open>Addresses and region numbers\<close>

lemma offset_mask: "IOMEM_ADDR_TO_OFFSET a = take_bit 24 a"
  using and_pow2_minus_1 [of a 24] by (simp add: IOMEM_ADDR_TO_OFFSET_def)

lemma index_to_addr_int:
  "- 128 \<le> i \<Longrightarrow> i < 128 \<Longrightarrow> IOMEM_INDEX_TO_ADDR i = word_of_int (i * 2 ^ 24)"
proof -
  assume "- 128 \<le> i" "i < 128"
  then have "sint (word_of_int (i * 2 ^ 24) :: u32) = i * 2 ^ 24"
    by (intro sint_word_of_int_small) simp_all
  moreover have "push_bit 24 (word_of_int i :: u32) = word_of_int (i * 2 ^ 24)"
    by (simp add: push_bit_eq_mult)
  ultimately show ?thesis
    by (simp add: IOMEM_INDEX_TO_ADDR_def scast_eq)
qed

lemma index_of_addr:
  assumes "- 128 \<le> i" "i < 128" "0 \<le> off" "off < 2 ^ 24"
  shows "int_of_index (IOMEM_ADDR_TO_INDEX (IOMEM_INDEX_TO_ADDR i + word_of_int off)) = i"
    and "uint (IOMEM_ADDR_TO_OFFSET (IOMEM_INDEX_TO_ADDR i + word_of_int off)) = off"
proof -
  define k where "k = i * 2 ^ 24 + off"
  have a: "IOMEM_INDEX_TO_ADDR i + word_of_int off = word_of_int k"
    using assms by (simp add: index_to_addr_int k_def)
  have "uint (word_of_int k :: u64) mod 2 ^ 24 = k mod 2 ^ 24"
    by (simp only: uint_word_of_int mod_mod_cancel [of "2 ^ 24 :: int" "2 ^ 64"]) (simp add: mod_mod_cancel)
  then show "uint (IOMEM_ADDR_TO_OFFSET (IOMEM_INDEX_TO_ADDR i + word_of_int off)) = off"
    unfolding a offset_mask uint_take_bit_mod using assms by (simp add: k_def)
  have "ucast (drop_bit 24 (word_of_int k :: u64)) = (word_of_int (drop_bit 24 k) :: u32)"
    by (rule bit_word_eqI) (simp add: bit_simps)
  moreover have "drop_bit 24 k = i"
    using assms by (simp add: k_def drop_bit_eq_div)
  ultimately show "int_of_index (IOMEM_ADDR_TO_INDEX (IOMEM_INDEX_TO_ADDR i + word_of_int off)) = i"
    unfolding a int_of_index_def IOMEM_ADDR_TO_INDEX_def using assms
    by (simp add: sint_word_of_int_small)
qed

lemma index_to_addr_high:
  "IOMEM_INDEX_TO_ADDR i = IOMEM_INDEX_TO_ADDR (i - 256)"
proof -
  have "(4294967296 :: u32) = 0" by simp
  then have "push_bit 24 (word_of_int (i - 256) :: u32) = push_bit 24 (word_of_int i)"
    by (simp add: push_bit_eq_mult left_diff_distrib)
  then show ?thesis by (simp add: IOMEM_INDEX_TO_ADDR_def)
qed

section \<open>Well-formed region tables\<close>

definition iomem_wf :: "'w iomem_regions \<Rightarrow> bool" where
  "iomem_wf rs \<longleftrightarrow> length rs = MAX_IOMEM_REGIONS \<and> ir_ops (rs ! 0) = None \<and>
     (\<forall>r \<in> set rs. ir_size r < 2 ^ IOMEM_OFFSET_BITS)"

text \<open>A region below number 128 is free: the addresses of the others do not decode.\<close>

definition iomem_room :: "'w iomem_regions \<Rightarrow> bool" where
  "iomem_room rs \<longleftrightarrow> free_region rs 1 < 128"

lemma free_region_ge: "i \<le> free_region rs i"
proof (induction rs i rule: free_region.induct)
  case (1 rs i)
  then show ?case
    by (cases "i < MAX_IOMEM_REGIONS \<and> ir_ops (rs ! i) \<noteq> None")
      (auto simp: free_region.simps [of rs i] Suc_le_eq dest: Suc_leD)
qed

lemma free_region_free: "free_region rs i < MAX_IOMEM_REGIONS \<Longrightarrow> ir_ops (rs ! free_region rs i) = None"
proof (induction rs i rule: free_region.induct)
  case (1 rs i)
  then show ?case
    by (cases "ir_ops (rs ! i) = None") (auto simp: free_region.simps [of rs i] split: if_splits)
qed

lemma free_region_eq:
  assumes "i \<le> n" "n < MAX_IOMEM_REGIONS" "ir_ops (rs ! n) = None"
    and "\<And>j. i \<le> j \<Longrightarrow> j < n \<Longrightarrow> ir_ops (rs ! j) \<noteq> None"
  shows "free_region rs i = n"
  using assms
proof (induction rs i rule: free_region.induct)
  case (1 rs i)
  show ?case
  proof (cases "i = n")
    case False
    with "1.prems" have "ir_ops (rs ! i) \<noteq> None" by auto
    with "1.prems" have "free_region rs i = free_region rs (Suc i)"
      by (subst free_region.simps) auto
    with "1" False show ?thesis by auto
  qed (use "1.prems" in \<open>simp add: free_region.simps [of rs n]\<close>)
qed

lemma iomem_wf_init: "iomem_wf (iomem_regions_init :: 'w iomem_regions)"
  by (simp add: iomem_wf_def iomem_regions_init_def)

lemma register_iomem_wf:
  assumes "iomem_wf rs" "register_iomem rs data sz ops = (base, rs')"
  shows "iomem_wf rs'"
  using assms free_region_ge [of 1 rs]
  by (auto simp: iomem_wf_def register_iomem_def Let_def split: if_splits
           dest!: set_update_subset_insert [THEN subsetD])

lemma unregister_iomem_wf: "iomem_wf rs \<Longrightarrow> iomem_wf (unregister_iomem rs base)"
  by (auto simp: iomem_wf_def unregister_iomem_def Let_def nth_list_update
           dest!: set_update_subset_insert [THEN subsetD])

section \<open>The bus a device sees\<close>

text \<open>
  The device operations, the device and the offset an address stands for: what a client of
  the region table relies on.
\<close>

definition iomem_target :: "'w iomem_regions \<Rightarrow> addr \<Rightarrow> ('w lkl_iomem_ops \<times> addr \<times> int \<times> int) option" where
  "iomem_target rs a = do {
     r \<leftarrow> iget rs (int_of_index (IOMEM_ADDR_TO_INDEX a));
     ops \<leftarrow> ir_ops r;
     Some (ops, ir_data r, ir_size r, uint (IOMEM_ADDR_TO_OFFSET a))
   }"

lemma lkl_iomem_access_target:
  assumes "iomem_wf rs" "iomem_target rs a = Some (ops, data, rsz, off)" "off + sz \<le> rsz"
  shows "lkl_iomem_access rs a res sz write w =
           (if write then map_option (\<lambda>(ret, w'). (ret, res, w')) (ops_write ops data off res sz w)
            else ops_read ops data off res sz w)"
proof -
  let ?i = "int_of_index (IOMEM_ADDR_TO_INDEX a)"
  from assms(2) obtain r where r: "iget rs ?i = Some r" "ir_ops r = Some ops"
    and d: "data = ir_data r" "rsz = ir_size r" "off = uint (IOMEM_ADDR_TO_OFFSET a)"
    by (auto simp: iomem_target_def split: bind_splits)
  from r(1) assms(1) have "\<not> int MAX_IOMEM_REGIONS < ?i"
    by (auto simp: iget_Some_iff iomem_wf_def)
  with r d assms(3) show ?thesis
    by (auto simp: lkl_iomem_access_def Let_def split: bind_splits)
qed

text \<open>
  A registered region answers under its own addresses, registrations do not disturb one
  another, and a removed region answers no more. \<open>room\<close> says that a registration succeeds
  with an address that decodes.
\<close>

locale mmio_bus =
  fixes reg :: "'r \<Rightarrow> addr \<Rightarrow> int \<Rightarrow> 'o \<Rightarrow> addr \<times> 'r"
    and unreg :: "'r \<Rightarrow> addr \<Rightarrow> 'r"
    and target :: "'r \<Rightarrow> addr \<Rightarrow> ('o \<times> addr \<times> int \<times> int) option"
    and bus_wf :: "'r \<Rightarrow> bool"
    and room :: "'r \<Rightarrow> bool"
  assumes reg_wf: "bus_wf r \<Longrightarrow> reg r d sz ops = (b, r') \<Longrightarrow> bus_wf r'"
    and unreg_wf: "bus_wf r \<Longrightarrow> bus_wf (unreg r b)"
    and reg_ok: "bus_wf r \<Longrightarrow> room r \<Longrightarrow> sz < 2 ^ 24 \<Longrightarrow> fst (reg r d sz ops) \<noteq> 0"
    and reg_target: "bus_wf r \<Longrightarrow> room r \<Longrightarrow> reg r d sz ops = (b, r') \<Longrightarrow> b \<noteq> 0 \<Longrightarrow>
        0 \<le> off \<Longrightarrow> off < 2 ^ 24 \<Longrightarrow> target r' (b + word_of_int off) = Some (ops, d, sz, off)"
    and reg_fresh: "bus_wf r \<Longrightarrow> room r \<Longrightarrow> reg r d sz ops = (b, r') \<Longrightarrow> b \<noteq> 0 \<Longrightarrow>
        0 \<le> off \<Longrightarrow> off < 2 ^ 24 \<Longrightarrow> target r (b + word_of_int off) = None"
    and reg_other: "bus_wf r \<Longrightarrow> reg r d sz ops = (b, r') \<Longrightarrow> target r a = Some t \<Longrightarrow>
        target r' a = Some t"
    and unreg_target: "bus_wf r \<Longrightarrow> room r \<Longrightarrow> reg r d sz ops = (b, r') \<Longrightarrow> b \<noteq> 0 \<Longrightarrow>
        target (unreg r' b) = target r"
begin

text \<open>Two live devices never answer under the same address.\<close>

lemma live_regions_disjoint:
  assumes "bus_wf r" "room r" "reg r d1 s1 o1 = (b1, r1)" "b1 \<noteq> 0"
    and "room r1" "reg r1 d2 s2 o2 = (b2, r2)" "b2 \<noteq> 0"
    and "0 \<le> x" "x < 2 ^ 24" "0 \<le> y" "y < 2 ^ 24"
  shows "b1 + word_of_int x \<noteq> b2 + word_of_int y"
proof
  assume eq: "b1 + word_of_int x = b2 + word_of_int y"
  from assms have wf1: "bus_wf r1" by (blast intro: reg_wf)
  from assms have "target r1 (b1 + word_of_int x) = Some (o1, d1, s1, x)" by (blast intro: reg_target)
  moreover from assms wf1 have "target r1 (b2 + word_of_int y) = None" by (blast intro: reg_fresh)
  ultimately show False using eq by simp
qed

text \<open>Adding and removing a second device leaves the first one reachable.\<close>

lemma survives_neighbour:
  assumes "bus_wf r" "room r" "reg r d1 s1 o1 = (b1, r1)" "b1 \<noteq> 0"
    and "room r1" "reg r1 d2 s2 o2 = (b2, r2)" "b2 \<noteq> 0"
    and "0 \<le> off" "off < 2 ^ 24"
  shows "target r2 (b1 + word_of_int off) = Some (o1, d1, s1, off)"
    and "target (unreg r2 b2) (b1 + word_of_int off) = Some (o1, d1, s1, off)"
proof -
  from assms have wf1: "bus_wf r1" by (blast intro: reg_wf)
  from assms have t: "target r1 (b1 + word_of_int off) = Some (o1, d1, s1, off)"
    by (blast intro: reg_target)
  with assms wf1 show "target r2 (b1 + word_of_int off) = Some (o1, d1, s1, off)"
    by (blast intro: reg_other)
  from assms wf1 t show "target (unreg r2 b2) (b1 + word_of_int off) = Some (o1, d1, s1, off)"
    by (simp add: unreg_target)
qed

end

text \<open>What a successful registration in a table with room does.\<close>

lemma register_iomem_cases:
  assumes "iomem_wf rs" "iomem_room rs" "register_iomem rs data sz ops = (base, rs')" "base \<noteq> 0"
  obtains n where "1 \<le> n" "n < 128" "base = IOMEM_INDEX_TO_ADDR (int n)" "ir_ops (rs ! n) = None"
    and "rs' = rs[n := \<lparr>ir_data = data, ir_size = sz, ir_ops = Some ops\<rparr>]" "length rs = 256"
proof
  let ?n = "free_region rs 1"
  show "1 \<le> ?n" by (rule free_region_ge)
  show "?n < 128" using assms(2) by (simp add: iomem_room_def)
  then show "ir_ops (rs ! ?n) = None" by (simp add: free_region_free)
  show "length rs = 256" using assms(1) by (simp add: iomem_wf_def)
  show "base = IOMEM_INDEX_TO_ADDR (int ?n)"
    and "rs' = rs[?n := \<lparr>ir_data = data, ir_size = sz, ir_ops = Some ops\<rparr>]"
    using assms(3,4) by (auto simp: register_iomem_def Let_def split: if_splits)
qed

lemma iomem_target_at:
  assumes "1 \<le> n" "n < 128" "0 \<le> off" "off < 2 ^ 24" "length rs = 256"
  shows "iomem_target rs (IOMEM_INDEX_TO_ADDR (int n) + word_of_int off) =
           map_option (\<lambda>ops. (ops, ir_data (rs ! n), ir_size (rs ! n), off)) (ir_ops (rs ! n))"
  using assms by (cases "ir_ops (rs ! n)") (simp_all add: iomem_target_def index_of_addr)

lemma unregister_registered:
  assumes "iomem_wf rs" "iomem_room rs" "register_iomem rs data sz ops = (base, rs')" "base \<noteq> 0"
  shows "iomem_target (unregister_iomem rs' base) = iomem_target rs"
proof
  fix a
  from assms obtain n where n: "1 \<le> n" "n < 128" "base = IOMEM_INDEX_TO_ADDR (int n)"
    "ir_ops (rs ! n) = None" "length rs = 256"
    and rs': "rs' = rs[n := \<lparr>ir_data = data, ir_size = sz, ir_ops = Some ops\<rparr>]"
    by (rule register_iomem_cases)
  have "int_of_index (IOMEM_ADDR_TO_INDEX base) = int n"
    using index_of_addr(1) [of "int n" 0] n by simp
  then have "uint (ucast (IOMEM_ADDR_TO_INDEX base) :: u32) = int n"
    using n(2) unfolding int_of_index_def by (simp add: uint_sint take_bit_int_eq_self)
  then have "unat (ucast (IOMEM_ADDR_TO_INDEX base) :: u32) = n"
    by (simp only: unat_eq_nat_uint nat_int)
  with n rs' show "iomem_target (unregister_iomem rs' base) a = iomem_target rs a"
    by (auto simp: iomem_target_def unregister_iomem_def iget_def aget_def nth_list_update
             split: bind_splits if_splits)
qed

lemma iomem_target_update_free:
  assumes "ir_ops (rs ! n) = None" "iomem_target rs a = Some t"
  shows "iomem_target (rs[n := r]) a = Some t"
proof (cases "nat (int_of_index (IOMEM_ADDR_TO_INDEX a)) = n")
  case True
  with assms show ?thesis by (auto simp: iomem_target_def iget_Some_iff split: bind_splits)
next
  case False
  then have "iget (rs[n := r]) (int_of_index (IOMEM_ADDR_TO_INDEX a)) =
      iget rs (int_of_index (IOMEM_ADDR_TO_INDEX a))"
    by (simp add: iget_def aget_def)
  with assms show ?thesis by (simp add: iomem_target_def)
qed

lemma register_iomem_keeps:
  assumes "register_iomem rs d sz ops = (b, rs')" "iomem_target rs a = Some t"
  shows "iomem_target rs' a = Some t"
  using assms free_region_free [of rs 1]
  by (auto simp: register_iomem_def Let_def iomem_target_update_free split: if_splits)

interpretation iomem: mmio_bus register_iomem unregister_iomem iomem_target iomem_wf iomem_room
proof
  fix rs rs' :: "'w iomem_regions" and d b a sz ops t and off :: int
  show "iomem_wf rs \<Longrightarrow> register_iomem rs d sz ops = (b, rs') \<Longrightarrow> iomem_wf rs'"
    by (rule register_iomem_wf)
  show "iomem_wf rs \<Longrightarrow> iomem_wf (unregister_iomem rs b)"
    by (rule unregister_iomem_wf)
  show "iomem_wf rs \<Longrightarrow> iomem_room rs \<Longrightarrow> sz < 2 ^ 24 \<Longrightarrow> fst (register_iomem rs d sz ops) \<noteq> 0"
    using index_of_addr(1) [of "int (free_region rs 1)" 0] free_region_ge [of 1 rs]
    by (auto simp: register_iomem_def iomem_room_def Let_def int_of_index_def IOMEM_ADDR_TO_INDEX_def)
  assume "iomem_wf rs" and reg: "register_iomem rs d sz ops = (b, rs')"
  show "iomem_target rs a = Some t \<Longrightarrow> iomem_target rs' a = Some t"
    using reg by (rule register_iomem_keeps)
  assume "iomem_room rs" "b \<noteq> 0"
  with \<open>iomem_wf rs\<close> reg show "iomem_target (unregister_iomem rs' b) = iomem_target rs"
    by (blast intro: unregister_registered)
  assume "0 \<le> off" "off < 2 ^ 24"
  with \<open>iomem_wf rs\<close> \<open>iomem_room rs\<close> \<open>b \<noteq> 0\<close> reg
  show "iomem_target rs' (b + word_of_int off) = Some (ops, d, sz, off)"
    and "iomem_target rs (b + word_of_int off) = None"
    by (auto elim!: register_iomem_cases simp: iomem_target_at)
qed

section \<open>Properties\<close>

text \<open>
  C22: a device that registers a region of \<open>sz\<close> bytes (in a well-formed table with a free
  region below number 128) receives a non-null address, and every access of that address plus an
  offset inside the region reaches exactly that device's read or write operation, with the
  device's own pointer and the same offset.
\<close>

theorem register_then_access:
  assumes wf: "iomem_wf rs" and room: "iomem_room rs" and sz: "sz < 2 ^ 24"
    and reg: "register_iomem rs data sz ops = (base, rs')"
    and off: "0 \<le> off" "off + n \<le> sz" "0 \<le> n"
  shows "base \<noteq> 0 \<and>
    lkl_iomem_access rs' (base + word_of_int off) res n True w =
      map_option (\<lambda>(ret, w'). (ret, res, w')) (ops_write ops data off res n w) \<and>
    lkl_iomem_access rs' (base + word_of_int off) res n False w = ops_read ops data off res n w"
proof -
  from iomem.reg_ok [OF wf room sz, of data ops] reg have nz: "base \<noteq> 0" by simp
  from off sz have "off < 2 ^ 24" by linarith
  with wf room reg nz off have
    "iomem_target rs' (base + word_of_int off) = Some (ops, data, sz, off)"
    by (blast intro: iomem.reg_target)
  from lkl_iomem_access_target [OF iomem.reg_wf [OF wf reg] this off(2)] nz show ?thesis by simp
qed

text \<open>A read operation that answers the offset it was called with, for the witnesses.\<close>

definition echo_ops :: "nat lkl_iomem_ops" where
  "echo_ops = \<lparr>ops_read = (\<lambda>d off res n w. Some (0, [word_of_int off], w + 1)),
               ops_write = (\<lambda>d off res n w. Some (0, w + 2))\<rparr>"

lemma iomem_room_init: "iomem_room (iomem_regions_init :: 'w iomem_regions)"
proof -
  have "free_region (iomem_regions_init :: 'w iomem_regions) 1 = 1"
    by (rule free_region_eq) (simp_all add: iomem_regions_init_def)
  then show ?thesis by (simp add: iomem_room_def)
qed

theorem register_then_access_witness:
  "iomem_wf (iomem_regions_init :: nat iomem_regions) \<and>
   lkl_iomem_access (snd (register_iomem iomem_regions_init 7 100 echo_ops))
     (fst (register_iomem iomem_regions_init 7 100 echo_ops) + word_of_int 5) [] 4 False 10 =
   Some (0, [5], 11)"
  using register_then_access [of "iomem_regions_init" 100 7 echo_ops
      "fst (register_iomem iomem_regions_init 7 100 echo_ops)"
      "snd (register_iomem iomem_regions_init 7 100 echo_ops)" 5 4 "[]" 10]
  by (simp add: iomem_wf_init iomem_room_init echo_ops_def)

lemma access_without_target:
  assumes "iomem_wf rs" "iomem_target rs a = None" "iget rs (int_of_index (IOMEM_ADDR_TO_INDEX a)) \<noteq> None"
  shows "lkl_iomem_access rs a res n write w = Some (- 1, res, w)"
  using assms
  by (auto simp: lkl_iomem_access_def iomem_target_def Let_def iget_def aget_def iomem_wf_def
           split: bind_splits if_splits)

text \<open>
  C23: removing a region undoes its registration: every access of the freed addresses is refused
  with -1 without calling any device, and every other device still answers as before.
\<close>

theorem unregister_then_access:
  assumes wf: "iomem_wf rs" and room: "iomem_room rs"
    and reg: "register_iomem rs data sz ops = (base, rs')" and nz: "base \<noteq> 0"
    and off: "0 \<le> off" "off < 2 ^ 24"
  shows "lkl_iomem_access (unregister_iomem rs' base) (base + word_of_int off) res n write w =
           Some (- 1, res, w) \<and>
         (\<forall>a. iomem_target (unregister_iomem rs' base) a = iomem_target rs a)"
proof -
  let ?rs = "unregister_iomem rs' base"
  have wf': "iomem_wf ?rs" by (rule iomem.unreg_wf [OF iomem.reg_wf [OF wf reg]])
  have eq: "iomem_target ?rs = iomem_target rs" by (rule iomem.unreg_target [OF wf room reg nz])
  moreover have "iomem_target rs (base + word_of_int off) = None"
    by (rule iomem.reg_fresh [OF wf room reg nz off])
  moreover have "iget ?rs (int_of_index (IOMEM_ADDR_TO_INDEX (base + word_of_int off))) \<noteq> None"
    using wf room reg nz
  proof (rule register_iomem_cases)
    fix m assume "1 \<le> m" "m < 128" "base = IOMEM_INDEX_TO_ADDR (int m)"
    then show ?thesis using wf' off by (simp add: index_of_addr iomem_wf_def)
  qed
  ultimately show ?thesis using access_without_target [OF wf'] by simp
qed

theorem unregister_then_access_witness:
  "lkl_iomem_access (unregister_iomem (snd (register_iomem iomem_regions_init 7 100 echo_ops))
       (fst (register_iomem iomem_regions_init 7 100 echo_ops)))
     (fst (register_iomem iomem_regions_init 7 100 echo_ops) + word_of_int 5) [] 4 True 10 =
   Some (- 1, [], 10)"
  using unregister_then_access [of "iomem_regions_init" 7 100 echo_ops
      "fst (register_iomem iomem_regions_init 7 100 echo_ops)"
      "snd (register_iomem iomem_regions_init 7 100 echo_ops)" 5 "[]" 4 True 10]
    iomem.reg_ok [of iomem_regions_init 100 7 echo_ops]
  by (simp add: iomem_wf_init iomem_room_init)

text \<open>
  C30: with regions 1 to 127 taken the table still hands out regions 128 to 255, but their
  addresses overflow the 32-bit shift and are sign-extended: an access of such an address
  computes a negative region number and reads outside the table.
\<close>

theorem region_128_undefined:
  assumes len: "length rs = MAX_IOMEM_REGIONS" and sz: "sz < 2 ^ 24"
    and n: "128 \<le> n" "n < MAX_IOMEM_REGIONS" "ir_ops (rs ! n) = None"
    and taken: "\<forall>i. 1 \<le> i \<and> i < n \<longrightarrow> ir_ops (rs ! i) \<noteq> None"
  shows "\<exists>base rs'. register_iomem rs data sz ops = (base, rs') \<and> base \<noteq> 0 \<and>
           ir_ops (rs' ! n) = Some ops \<and>
           lkl_iomem_access rs' base res k write w = None"
proof -
  have fr: "free_region rs 1 = n" by (rule free_region_eq) (use n taken in auto)
  let ?base = "IOMEM_INDEX_TO_ADDR (int n)"
  have "int_of_index (IOMEM_ADDR_TO_INDEX ?base) = int n - 256"
    using index_of_addr(1) [of "int n - 256" 0] n index_to_addr_high [of "int n"] by simp
  moreover from this n(2) have "?base \<noteq> 0"
    by (auto simp: int_of_index_def IOMEM_ADDR_TO_INDEX_def)
  ultimately show ?thesis using len sz n(2)
    by (simp add: register_iomem_def fr [simplified] lkl_iomem_access_def)
qed

definition busy_regions :: "nat iomem_regions" where
  "busy_regions = replicate 128 \<lparr>ir_data = 0, ir_size = 0, ir_ops = Some echo_ops\<rparr> @
                  replicate 128 \<lparr>ir_data = 0, ir_size = 0, ir_ops = None\<rparr>"

theorem region_128_undefined_witness:
  "\<exists>base rs'. register_iomem busy_regions 7 100 echo_ops = (base, rs') \<and> base \<noteq> 0 \<and>
     ir_ops (rs' ! 128) = Some echo_ops \<and> lkl_iomem_access rs' base [] 4 True 0 = None"
  by (rule region_128_undefined) (simp_all add: busy_regions_def nth_append)

end
