(* ===== verification/Virtio_Regs.thy ===== *)
theory Virtio_Regs
  imports Virtio_Queue Iomem
begin

text \<open>
  The registers of a virtio device, the second half of \<open>tools/lkl/lib/virtio.c\<close>: what a read and
  a write of each register of the memory-mapped transport does, and the pair of operations the device
  registers with the I/O memory table.
\<close>

section \<open>Registers\<close>

abbreviation (input) VIRTIO_MMIO_MAGIC_VALUE :: int where "VIRTIO_MMIO_MAGIC_VALUE \<equiv> 0x000"
abbreviation (input) VIRTIO_MMIO_VERSION :: int where "VIRTIO_MMIO_VERSION \<equiv> 0x004"
abbreviation (input) VIRTIO_MMIO_DEVICE_ID :: int where "VIRTIO_MMIO_DEVICE_ID \<equiv> 0x008"
abbreviation (input) VIRTIO_MMIO_VENDOR_ID :: int where "VIRTIO_MMIO_VENDOR_ID \<equiv> 0x00c"
abbreviation (input) VIRTIO_MMIO_DEVICE_FEATURES :: int where "VIRTIO_MMIO_DEVICE_FEATURES \<equiv> 0x010"
abbreviation (input) VIRTIO_MMIO_DEVICE_FEATURES_SEL :: int where "VIRTIO_MMIO_DEVICE_FEATURES_SEL \<equiv> 0x014"
abbreviation (input) VIRTIO_MMIO_DRIVER_FEATURES :: int where "VIRTIO_MMIO_DRIVER_FEATURES \<equiv> 0x020"
abbreviation (input) VIRTIO_MMIO_DRIVER_FEATURES_SEL :: int where "VIRTIO_MMIO_DRIVER_FEATURES_SEL \<equiv> 0x024"
abbreviation (input) VIRTIO_MMIO_QUEUE_SEL :: int where "VIRTIO_MMIO_QUEUE_SEL \<equiv> 0x030"
abbreviation (input) VIRTIO_MMIO_QUEUE_NUM_MAX :: int where "VIRTIO_MMIO_QUEUE_NUM_MAX \<equiv> 0x034"
abbreviation (input) VIRTIO_MMIO_QUEUE_NUM :: int where "VIRTIO_MMIO_QUEUE_NUM \<equiv> 0x038"
abbreviation (input) VIRTIO_MMIO_QUEUE_READY :: int where "VIRTIO_MMIO_QUEUE_READY \<equiv> 0x044"
abbreviation (input) VIRTIO_MMIO_QUEUE_NOTIFY :: int where "VIRTIO_MMIO_QUEUE_NOTIFY \<equiv> 0x050"
abbreviation (input) VIRTIO_MMIO_INTERRUPT_STATUS :: int where "VIRTIO_MMIO_INTERRUPT_STATUS \<equiv> 0x060"
abbreviation (input) VIRTIO_MMIO_INTERRUPT_ACK :: int where "VIRTIO_MMIO_INTERRUPT_ACK \<equiv> 0x064"
abbreviation (input) VIRTIO_MMIO_STATUS :: int where "VIRTIO_MMIO_STATUS \<equiv> 0x070"
abbreviation (input) VIRTIO_MMIO_QUEUE_DESC_LOW :: int where "VIRTIO_MMIO_QUEUE_DESC_LOW \<equiv> 0x080"
abbreviation (input) VIRTIO_MMIO_QUEUE_DESC_HIGH :: int where "VIRTIO_MMIO_QUEUE_DESC_HIGH \<equiv> 0x084"
abbreviation (input) VIRTIO_MMIO_QUEUE_AVAIL_LOW :: int where "VIRTIO_MMIO_QUEUE_AVAIL_LOW \<equiv> 0x090"
abbreviation (input) VIRTIO_MMIO_QUEUE_AVAIL_HIGH :: int where "VIRTIO_MMIO_QUEUE_AVAIL_HIGH \<equiv> 0x094"
abbreviation (input) VIRTIO_MMIO_QUEUE_USED_LOW :: int where "VIRTIO_MMIO_QUEUE_USED_LOW \<equiv> 0x0a0"
abbreviation (input) VIRTIO_MMIO_QUEUE_USED_HIGH :: int where "VIRTIO_MMIO_QUEUE_USED_HIGH \<equiv> 0x0a4"
abbreviation (input) VIRTIO_MMIO_CONFIG_GENERATION :: int where "VIRTIO_MMIO_CONFIG_GENERATION \<equiv> 0x0fc"
abbreviation (input) VIRTIO_MMIO_CONFIG :: int where "VIRTIO_MMIO_CONFIG \<equiv> 0x100"

abbreviation (input) VIRTIO_DEV_MAGIC :: u32 where "VIRTIO_DEV_MAGIC \<equiv> 0x74726976"
abbreviation (input) VIRTIO_DEV_VERSION :: u32 where "VIRTIO_DEV_VERSION \<equiv> 2"
abbreviation (input) VIRTIO_CONFIG_S_FEATURES_OK :: u32 where "VIRTIO_CONFIG_S_FEATURES_OK \<equiv> 8"
abbreviation (input) VIRTIO_F_VERSION_1 :: nat where "VIRTIO_F_VERSION_1 \<equiv> 32"
abbreviation (input) VIRTIO_RING_F_EVENT_IDX :: nat where "VIRTIO_RING_F_EVENT_IDX \<equiv> 29"

section \<open>Reading\<close>

definition virtio_read_device_features :: "virtio_dev \<Rightarrow> u32" where
  "virtio_read_device_features dev =
     (if device_features_sel dev \<noteq> 0 then ucast (drop_bit 32 (device_features dev))
      else ucast (device_features dev))"

text \<open>The register a read of 32 bits returns; \<open>Inl\<close> is the error of an unknown offset.\<close>

definition virtio_read_reg :: "virtio_dev \<Rightarrow> int \<Rightarrow> (int + u32) option" where
  "virtio_read_reg dev offset =
     (if offset = VIRTIO_MMIO_MAGIC_VALUE then Some (Inr VIRTIO_DEV_MAGIC)
      else if offset = VIRTIO_MMIO_VERSION then Some (Inr VIRTIO_DEV_VERSION)
      else if offset = VIRTIO_MMIO_DEVICE_ID then Some (Inr (device_id dev))
      else if offset = VIRTIO_MMIO_VENDOR_ID then Some (Inr (vendor_id dev))
      else if offset = VIRTIO_MMIO_DEVICE_FEATURES then Some (Inr (virtio_read_device_features dev))
      else if offset = VIRTIO_MMIO_QUEUE_NUM_MAX then
        do { q \<leftarrow> aget (queue dev) (unat (queue_sel dev)); Some (Inr (num_max q)) }
      else if offset = VIRTIO_MMIO_QUEUE_READY then
        do { q \<leftarrow> aget (queue dev) (unat (queue_sel dev)); Some (Inr (ready q)) }
      else if offset = VIRTIO_MMIO_INTERRUPT_STATUS then Some (Inr (int_status dev))
      else if offset = VIRTIO_MMIO_STATUS then Some (Inr (status dev))
      else if offset = VIRTIO_MMIO_CONFIG_GENERATION then Some (Inr (config_gen dev))
      else Some (Inl (- 1)))"

text \<open>\<open>res\<close> is the caller's buffer; the result carries its contents after the call.\<close>

definition virtio_read :: "virtio_dev \<Rightarrow> int \<Rightarrow> u8 list \<Rightarrow> int \<Rightarrow> (int \<times> u8 list) option" where
  "virtio_read dev offset res sz =
     (if offset \<ge> VIRTIO_MMIO_CONFIG then
        let offset = offset - VIRTIO_MMIO_CONFIG in
        if offset + sz > config_len dev then Some (- EINVAL, res)
        else do { res \<leftarrow> memcpy res 0 (config_data dev) (nat offset) sz; Some (0, res) }
      else if sz \<noteq> 4 then Some (- EINVAL, res)
      else do {
        v \<leftarrow> virtio_read_reg dev offset;
        case v of
          Inl e \<Rightarrow> Some (e, res)
        | Inr val \<Rightarrow> do { res \<leftarrow> memcpy res 0 (le_bytes 4 (unat val)) 0 4; Some (0, res) }
      })"

section \<open>Writing\<close>

definition virtio_write_driver_features :: "u32 \<Rightarrow> virtio_dev \<Rightarrow> virtio_dev" where
  "virtio_write_driver_features val dev =
     (if driver_features_sel dev \<noteq> 0
      then dev\<lparr>driver_features := (driver_features dev AND 0xFFFFFFFF) OR push_bit 32 (ucast val)\<rparr>
      else dev\<lparr>driver_features := (driver_features dev AND 0xFFFFFFFF00000000) OR ucast val\<rparr>)"

definition set_ptr_low :: "u32 \<Rightarrow> addr \<Rightarrow> addr" where
  "set_ptr_low val p = (p AND 0xFFFFFFFF00000000) OR ucast val"

definition set_ptr_high :: "u32 \<Rightarrow> addr \<Rightarrow> addr" where
  "set_ptr_high val p = (p AND 0x00000000FFFFFFFF) OR push_bit 32 (ucast val)"

definition set_status :: "'d virtio_dev_ops \<Rightarrow> u32 \<Rightarrow> virtio_dev \<Rightarrow> virtio_dev" where
  "set_status ops val dev =
     dev\<lparr>status :=
       (if val AND VIRTIO_CONFIG_S_FEATURES_OK \<noteq> 0 \<and>
           (\<not> bit (driver_features dev) VIRTIO_F_VERSION_1 \<or>
            \<not> bit (driver_features dev) VIRTIO_RING_F_EVENT_IDX \<or>
            op_check_features ops dev \<noteq> 0)
        then val AND NOT VIRTIO_CONFIG_S_FEATURES_OK else val)\<rparr>"

definition upd_queue :: "(virtio_queue \<Rightarrow> virtio_queue) \<Rightarrow> virtio_dev \<Rightarrow> virtio_dev option" where
  "upd_queue f dev = do {
     q \<leftarrow> aget (queue dev) (unat (queue_sel dev));
     Some (dev\<lparr>queue := (queue dev)[unat (queue_sel dev) := f q]\<rparr>)
   }"

definition virtio_write_reg ::
  "'d virtio_dev_ops \<Rightarrow> virtio_dev \<Rightarrow> int \<Rightarrow> u32 \<Rightarrow> 'd vworld \<Rightarrow> (int \<times> virtio_dev \<times> 'd vworld) option" where
  "virtio_write_reg ops dev offset val w =
     (let upd = (\<lambda>f. do { dev \<leftarrow> upd_queue f dev; Some (0, dev, w) }) in
      if offset = VIRTIO_MMIO_DEVICE_FEATURES_SEL then
        (if val > 1 then Some (- EINVAL, dev, w) else Some (0, dev\<lparr>device_features_sel := val\<rparr>, w))
      else if offset = VIRTIO_MMIO_DRIVER_FEATURES_SEL then
        (if val > 1 then Some (- EINVAL, dev, w) else Some (0, dev\<lparr>driver_features_sel := val\<rparr>, w))
      else if offset = VIRTIO_MMIO_DRIVER_FEATURES then Some (0, virtio_write_driver_features val dev, w)
      else if offset = VIRTIO_MMIO_QUEUE_SEL then Some (0, dev\<lparr>queue_sel := val\<rparr>, w)
      else if offset = VIRTIO_MMIO_QUEUE_NUM then upd (\<lambda>q. q\<lparr>num := val\<rparr>)
      else if offset = VIRTIO_MMIO_QUEUE_READY then upd (\<lambda>q. q\<lparr>ready := val\<rparr>)
      else if offset = VIRTIO_MMIO_QUEUE_NOTIFY then
        do { (dev, w) \<leftarrow> virtio_process_queue ops dev (unat val) w; Some (0, dev, w) }
      else if offset = VIRTIO_MMIO_INTERRUPT_ACK then Some (0, dev\<lparr>int_status := 0\<rparr>, w)
      else if offset = VIRTIO_MMIO_STATUS then Some (0, set_status ops val dev, w)
      else if offset = VIRTIO_MMIO_QUEUE_DESC_LOW then upd (\<lambda>q. q\<lparr>q_desc := set_ptr_low val (q_desc q)\<rparr>)
      else if offset = VIRTIO_MMIO_QUEUE_DESC_HIGH then upd (\<lambda>q. q\<lparr>q_desc := set_ptr_high val (q_desc q)\<rparr>)
      else if offset = VIRTIO_MMIO_QUEUE_AVAIL_LOW then upd (\<lambda>q. q\<lparr>q_avail := set_ptr_low val (q_avail q)\<rparr>)
      else if offset = VIRTIO_MMIO_QUEUE_AVAIL_HIGH then upd (\<lambda>q. q\<lparr>q_avail := set_ptr_high val (q_avail q)\<rparr>)
      else if offset = VIRTIO_MMIO_QUEUE_USED_LOW then upd (\<lambda>q. q\<lparr>q_used := set_ptr_low val (q_used q)\<rparr>)
      else if offset = VIRTIO_MMIO_QUEUE_USED_HIGH then upd (\<lambda>q. q\<lparr>q_used := set_ptr_high val (q_used q)\<rparr>)
      else Some (- 1, dev, w))"

definition virtio_write ::
  "'d virtio_dev_ops \<Rightarrow> virtio_dev \<Rightarrow> int \<Rightarrow> u8 list \<Rightarrow> int \<Rightarrow> 'd vworld \<Rightarrow> (int \<times> virtio_dev \<times> 'd vworld) option" where
  "virtio_write ops dev offset res sz w =
     (if offset \<ge> VIRTIO_MMIO_CONFIG then
        let offset = offset - VIRTIO_MMIO_CONFIG in
        if offset + sz \<ge> config_len dev then Some (- EINVAL, dev, w)
        else do {
          c \<leftarrow> memcpy (config_data dev) (nat offset) res 0 sz;
          Some (0, dev\<lparr>config_data := c\<rparr>, w)
        }
      else if sz \<noteq> 4 then Some (- EINVAL, dev, w)
      else if length res < 4 then None
      else virtio_write_reg ops dev offset (word_of_nat (le_val (take 4 res))) w)"

section \<open>The device on the bus\<close>

text \<open>
  The world the bus acts on: the devices by the address of their structure, each with its operations,
  and the memory, interrupts and disk they share.
\<close>

record 'd bus_world =
  bw_devs :: "addr \<Rightarrow> (virtio_dev \<times> 'd virtio_dev_ops) option"
  bw_world :: "'d vworld"

definition virtio_ops :: "'d bus_world lkl_iomem_ops" where
  "virtio_ops = \<lparr>
     ops_read = (\<lambda>data offset res sz w. do {
       (dev, ops) \<leftarrow> bw_devs w data;
       (ret, res) \<leftarrow> virtio_read dev offset res sz;
       Some (ret, res, w)
     }),
     ops_write = (\<lambda>data offset res sz w. do {
       (dev, ops) \<leftarrow> bw_devs w data;
       (ret, dev, vw) \<leftarrow> virtio_write ops dev offset res sz (bw_world w);
       Some (ret, w\<lparr>bw_devs := (bw_devs w)(data \<mapsto> (dev, ops)), bw_world := vw\<rparr>)
     })\<rparr>"

section \<open>Pointers and features\<close>

lemma mask_low: "(0xFFFFFFFF :: u64) = mask 32" and mask_high: "(0xFFFFFFFF00000000 :: u64) = NOT (mask 32)"
  by (simp_all add: mask_eq_exp_minus_1)

text \<open>Both halves of a 64-bit register come from the last 32-bit write of each half.\<close>

lemma bit_set_ptr:
  "bit (set_ptr_low v p) n \<longleftrightarrow> (if n < 32 then bit v n else bit p n)"
  "bit (set_ptr_high v p) n \<longleftrightarrow> (if n < 32 then bit p n else bit v (n - 32))"
  by (auto simp: set_ptr_low_def set_ptr_high_def mask_low mask_high bit_simps bit_push_bit_iff
      dest: bit_imp_le_length)

lemma set_ptr_halves:
  "set_ptr_high (ucast (drop_bit 32 a)) (set_ptr_low (ucast a) p) = a"
  "set_ptr_low (ucast a) (set_ptr_high (ucast (drop_bit 32 a)) p) = a"
  by (rule bit_word_eqI, auto simp: bit_set_ptr bit_simps)+

lemma driver_features_halves:
  "driver_features (virtio_write_driver_features (ucast f) (dev\<lparr>driver_features_sel := 0,
     driver_features := driver_features (virtio_write_driver_features (ucast (drop_bit 32 f)) (dev\<lparr>driver_features_sel := 1\<rparr>))\<rparr>)) = f"
  using set_ptr_halves(2) [of f "driver_features dev"]
  by (simp add: virtio_write_driver_features_def set_ptr_low_def set_ptr_high_def)

end
