(* ===== verification/Virtio_Mmio.thy ===== *)
theory Virtio_Mmio
  imports Virtio_Core Virtio_Regs
begin

text \<open>
  The kernel's driver for memory-mapped virtio devices, \<open>drivers/virtio/virtio_mmio.c\<close>, on top of
  the accessors of \<open>arch/lkl/include/asm/io.h\<close>, which go through the host's region table to the
  device. The lemmas connect the driver to the registers of the device: what the driver reads is what
  the device holds, and the queue it sets up is the queue the device then works on.

  The memory of the rings is the memory of the bus world. The page and slab allocators, and the return
  value of \<open>request_irq\<close>, are arguments. The kernel's table of interrupt handlers is not part of
  the state.
\<close>

section \<open>Accessors\<close>

text \<open>
  A failed read leaves the local variable of the accessor uninitialised and returns it, so the model
  has no result there. A failed write only prints a warning.
\<close>

definition iomem_read :: "'w iomem_regions \<Rightarrow> addr \<Rightarrow> nat \<Rightarrow> 'w \<Rightarrow> (nat \<times> 'w) option" where
  "iomem_read rs a n w = do {
     (ret, value, w) \<leftarrow> lkl_iomem_access rs a (replicate n 0) (int n) False w;
     if ret \<noteq> 0 then None else Some (le_val value, w)
   }"

definition iomem_write :: "'w iomem_regions \<Rightarrow> addr \<Rightarrow> nat \<Rightarrow> nat \<Rightarrow> 'w \<Rightarrow> 'w option" where
  "iomem_write rs a n value w = do {
     (ret, _, w) \<leftarrow> lkl_iomem_access rs a (le_bytes n value) (int n) True w;
     Some w
   }"

definition readb :: "'w iomem_regions \<Rightarrow> addr \<Rightarrow> 'w \<Rightarrow> (u8 \<times> 'w) option" where
  "readb rs a w = map_option (apfst word_of_nat) (iomem_read rs a 1 w)"

definition readw :: "'w iomem_regions \<Rightarrow> addr \<Rightarrow> 'w \<Rightarrow> (u16 \<times> 'w) option" where
  "readw rs a w = map_option (apfst word_of_nat) (iomem_read rs a 2 w)"

definition readl :: "'w iomem_regions \<Rightarrow> addr \<Rightarrow> 'w \<Rightarrow> (u32 \<times> 'w) option" where
  "readl rs a w = map_option (apfst word_of_nat) (iomem_read rs a 4 w)"

definition readq :: "'w iomem_regions \<Rightarrow> addr \<Rightarrow> 'w \<Rightarrow> (u64 \<times> 'w) option" where
  "readq rs a w = map_option (apfst word_of_nat) (iomem_read rs a 8 w)"

definition writeb :: "'w iomem_regions \<Rightarrow> u8 \<Rightarrow> addr \<Rightarrow> 'w \<Rightarrow> 'w option" where
  "writeb rs v a w = iomem_write rs a 1 (unat v) w"

definition writew :: "'w iomem_regions \<Rightarrow> u16 \<Rightarrow> addr \<Rightarrow> 'w \<Rightarrow> 'w option" where
  "writew rs v a w = iomem_write rs a 2 (unat v) w"

definition writel :: "'w iomem_regions \<Rightarrow> u32 \<Rightarrow> addr \<Rightarrow> 'w \<Rightarrow> 'w option" where
  "writel rs v a w = iomem_write rs a 4 (unat v) w"

definition writeq :: "'w iomem_regions \<Rightarrow> u64 \<Rightarrow> addr \<Rightarrow> 'w \<Rightarrow> 'w option" where
  "writeq rs v a w = iomem_write rs a 8 (unat v) w"

definition ioremap :: "'w iomem_regions \<Rightarrow> addr \<Rightarrow> u64 \<Rightarrow> addr option" where
  "ioremap rs offset sz = lkl_ioremap rs offset (sint (ucast sz :: u32))"

section \<open>Configuration\<close>

record 'a virtio_mmio_device = "'a virtio_device" +
  vm_base :: addr
  vm_version :: u64
  vm_virtqueues :: "u32 list"

abbreviation (input) VIRTIO_MMIO_GUEST_PAGE_SIZE :: int where "VIRTIO_MMIO_GUEST_PAGE_SIZE \<equiv> 0x028"
abbreviation (input) VIRTIO_MMIO_QUEUE_ALIGN :: int where "VIRTIO_MMIO_QUEUE_ALIGN \<equiv> 0x03c"
abbreviation (input) VIRTIO_MMIO_QUEUE_PFN :: int where "VIRTIO_MMIO_QUEUE_PFN \<equiv> 0x040"
abbreviation (input) PAGE_SIZE :: u32 where "PAGE_SIZE \<equiv> 4096"

text \<open>The address of a register.\<close>

definition reg_addr :: "addr \<Rightarrow> int \<Rightarrow> addr" where
  "reg_addr b off = b + word_of_int off"

abbreviation (input) reg :: "'a virtio_mmio_device \<Rightarrow> int \<Rightarrow> addr" where
  "reg d off \<equiv> reg_addr (vm_base d) off"

type_synonym 'd bus = "'d bus_world iomem_regions"

definition vm_get_features :: "'d bus \<Rightarrow> 'a virtio_mmio_device \<Rightarrow> 'd bus_world \<Rightarrow> (u64 \<times> 'd bus_world) option" where
  "vm_get_features rs d w = do {
     w \<leftarrow> writel rs 1 (reg d VIRTIO_MMIO_DEVICE_FEATURES_SEL) w;
     (hi, w) \<leftarrow> readl rs (reg d VIRTIO_MMIO_DEVICE_FEATURES) w;
     let features = push_bit 32 (ucast hi :: u64);
     w \<leftarrow> writel rs 0 (reg d VIRTIO_MMIO_DEVICE_FEATURES_SEL) w;
     (lo, w) \<leftarrow> readl rs (reg d VIRTIO_MMIO_DEVICE_FEATURES) w;
     Some (features OR ucast lo, w)
   }"

definition vm_finalize_features ::
  "'d bus \<Rightarrow> 'a virtio_mmio_device \<Rightarrow> 'd bus_world \<Rightarrow> (int \<times> 'a virtio_mmio_device \<times> 'd bus_world) option" where
  "vm_finalize_features rs d w = do {
     let d = d\<lparr>vd_features := vring_transport_features (vd_features d)\<rparr>;
     if vm_version d = 2 \<and> \<not> bit (vd_features d) F_VERSION_1 then Some (- EINVAL, d, w)
     else do {
       w \<leftarrow> writel rs 1 (reg d VIRTIO_MMIO_DRIVER_FEATURES_SEL) w;
       w \<leftarrow> writel rs (ucast (drop_bit 32 (vd_features d))) (reg d VIRTIO_MMIO_DRIVER_FEATURES) w;
       w \<leftarrow> writel rs 0 (reg d VIRTIO_MMIO_DRIVER_FEATURES_SEL) w;
       w \<leftarrow> writel rs (ucast (vd_features d)) (reg d VIRTIO_MMIO_DRIVER_FEATURES) w;
       Some (0, d, w)
     }
   }"

text \<open>The byte loops of the legacy interface.\<close>

fun read_bytes :: "'w iomem_regions \<Rightarrow> addr \<Rightarrow> nat \<Rightarrow> 'w \<Rightarrow> (u8 list \<times> 'w) option" where
  "read_bytes rs a 0 w = Some ([], w)"
| "read_bytes rs a (Suc n) w = do {
     (b, w) \<leftarrow> readb rs a w;
     (bs, w) \<leftarrow> read_bytes rs (a + 1) n w;
     Some (b # bs, w)
   }"

fun write_bytes :: "'w iomem_regions \<Rightarrow> u8 list \<Rightarrow> addr \<Rightarrow> 'w \<Rightarrow> 'w option" where
  "write_bytes rs [] a w = Some w"
| "write_bytes rs (b # bs) a w = do { w \<leftarrow> writeb rs b a w; write_bytes rs bs (a + 1) w }"

text \<open>The result is the contents of the caller's buffer of \<open>len\<close> bytes.\<close>

definition vm_get ::
  "'d bus \<Rightarrow> 'a virtio_mmio_device \<Rightarrow> u32 \<Rightarrow> nat \<Rightarrow> 'd bus_world \<Rightarrow> (u8 list \<times> 'd bus_world) option" where
  "vm_get rs d offset len w =
     (let a = reg d VIRTIO_MMIO_CONFIG + ucast offset in
      if vm_version d = 1 then read_bytes rs a len w
      else if len = 1 then do { (b, w) \<leftarrow> readb rs a w; Some (le_bytes 1 (unat b), w) }
      else if len = 2 then do { (v, w) \<leftarrow> readw rs a w; Some (le_bytes 2 (unat v), w) }
      else if len = 4 then do { (l, w) \<leftarrow> readl rs a w; Some (le_bytes 4 (unat l), w) }
      else if len = 8 then do {
        (l, w) \<leftarrow> readl rs a w;
        (h, w) \<leftarrow> readl rs (a + 4) w;
        Some (le_bytes 4 (unat l) @ le_bytes 4 (unat h), w)
      }
      else None)"

definition vm_set ::
  "'d bus \<Rightarrow> 'a virtio_mmio_device \<Rightarrow> u32 \<Rightarrow> u8 list \<Rightarrow> nat \<Rightarrow> 'd bus_world \<Rightarrow> 'd bus_world option" where
  "vm_set rs d offset data len w =
     (let a = reg d VIRTIO_MMIO_CONFIG + ucast offset in
      if length data < len then None
      else if vm_version d = 1 then write_bytes rs (take len data) a w
      else if len = 1 then writeb rs (word_of_nat (le_val (take 1 data))) a w
      else if len = 2 then writew rs (word_of_nat (le_val (take 2 data))) a w
      else if len = 4 then writel rs (word_of_nat (le_val (take 4 data))) a w
      else if len = 8 then do {
        w \<leftarrow> writel rs (word_of_nat (le_val (take 4 data))) a w;
        writel rs (word_of_nat (le_val (take 4 (drop 4 data)))) (a + 4) w
      }
      else None)"

definition vm_generation :: "'d bus \<Rightarrow> 'a virtio_mmio_device \<Rightarrow> 'd bus_world \<Rightarrow> (u32 \<times> 'd bus_world) option" where
  "vm_generation rs d w =
     (if vm_version d = 1 then Some (0, w) else readl rs (reg d VIRTIO_MMIO_CONFIG_GENERATION) w)"

definition vm_get_status :: "'d bus \<Rightarrow> 'a virtio_mmio_device \<Rightarrow> 'd bus_world \<Rightarrow> (u8 \<times> 'd bus_world) option" where
  "vm_get_status rs d w = do { (s, w) \<leftarrow> readl rs (reg d VIRTIO_MMIO_STATUS) w; Some (ucast (s AND 0xff), w) }"

definition vm_set_status :: "'d bus \<Rightarrow> 'a virtio_mmio_device \<Rightarrow> u8 \<Rightarrow> 'd bus_world \<Rightarrow> 'd bus_world option" where
  "vm_set_status rs d s w = (if s = 0 then None else writel rs (ucast s) (reg d VIRTIO_MMIO_STATUS) w)"

definition vm_reset :: "'d bus \<Rightarrow> 'a virtio_mmio_device \<Rightarrow> 'd bus_world \<Rightarrow> 'd bus_world option" where
  "vm_reset rs d w = writel rs 0 (reg d VIRTIO_MMIO_STATUS) w"

section \<open>Notifications and interrupts\<close>

abbreviation bus_mem :: "'d bus_world \<Rightarrow> vmem" where "bus_mem w \<equiv> w_mem (bw_world w)"

definition set_mem :: "vmem \<Rightarrow> 'd bus_world \<Rightarrow> 'd bus_world" where
  "set_mem m w = w\<lparr>bw_world := (bw_world w)\<lparr>w_mem := m\<rparr>\<rparr>"

text \<open>In the shape a virtqueue calls it: the memory apart from the rest of the world.\<close>

definition vm_notify :: "'d bus \<Rightarrow> addr \<Rightarrow> 'd bus_world notify_fn" where
  "vm_notify rs b index = (\<lambda>(m, w). do {
     w \<leftarrow> writel rs index (reg_addr b VIRTIO_MMIO_QUEUE_NOTIFY) (set_mem m w);
     Some (True, bus_mem w, w)
   })"

text \<open>The queues of the device by their index, as the entries of its list name them.\<close>

definition find_vq :: "u32 \<Rightarrow> 'a vring_virtqueue list \<Rightarrow> 'a vring_virtqueue option" where
  "find_vq i vqs = find (\<lambda>v. vq_index v = i) vqs"

type_synonym ('a, 'd) vm_state = "'a virtio_mmio_device \<times> 'd bus_world"

fun interrupt_queues ::
  "(u32 \<Rightarrow> ('a, 'd) vm_state \<Rightarrow> ('a, 'd) vm_state) \<Rightarrow> u32 list \<Rightarrow> bool \<Rightarrow> ('a, 'd) vm_state \<Rightarrow>
   (bool \<times> ('a, 'd) vm_state) option" where
  "interrupt_queues cb [] ret s = Some (ret, s)"
| "interrupt_queues cb (i # is) ret s = do {
     vq \<leftarrow> find_vq i (vd_vqs (fst s));
     (r, s) \<leftarrow> vring_interrupt (cb i) vq (bus_mem (snd s)) s;
     interrupt_queues cb is (ret \<or> r) s
   }"

abbreviation (input) VIRTIO_MMIO_INT_VRING :: u32 where "VIRTIO_MMIO_INT_VRING \<equiv> 1"
abbreviation (input) VIRTIO_MMIO_INT_CONFIG :: u32 where "VIRTIO_MMIO_INT_CONFIG \<equiv> 2"

text \<open>\<open>cb i\<close> is the callback of queue \<open>i\<close>; the result says whether the interrupt was handled.\<close>

definition vm_interrupt ::
  "'d bus \<Rightarrow> ('a virtio_mmio_device, 'd bus_world) virtio_driver option \<Rightarrow>
   (u32 \<Rightarrow> ('a, 'd) vm_state \<Rightarrow> ('a, 'd) vm_state) \<Rightarrow> ('a, 'd) vm_state \<Rightarrow> (bool \<times> ('a, 'd) vm_state) option" where
  "vm_interrupt rs drv cb = (\<lambda>(d, w). do {
     (s, w) \<leftarrow> readl rs (reg d VIRTIO_MMIO_INTERRUPT_STATUS) w;
     w \<leftarrow> writel rs s (reg d VIRTIO_MMIO_INTERRUPT_ACK) w;
     (ret, d, w) \<leftarrow> (if s AND VIRTIO_MMIO_INT_CONFIG \<noteq> 0
       then do { (d, w) \<leftarrow> virtio_config_changed drv d w; Some (True, d, w) }
       else Some (False, d, w));
     if s AND VIRTIO_MMIO_INT_VRING \<noteq> 0 then interrupt_queues cb (vm_virtqueues d) ret (d, w)
     else Some (ret, d, w)
   })"

section \<open>Queues\<close>

definition vm_deactivate :: "'d bus \<Rightarrow> 'a virtio_mmio_device \<Rightarrow> 'd bus_world \<Rightarrow> 'd bus_world option" where
  "vm_deactivate rs d w =
     (if vm_version d = 1 then writel rs 0 (reg d VIRTIO_MMIO_QUEUE_PFN) w
      else do {
        w \<leftarrow> writel rs 0 (reg d VIRTIO_MMIO_QUEUE_READY) w;
        (_, w) \<leftarrow> readl rs (reg d VIRTIO_MMIO_QUEUE_READY) w;
        Some w
      })"

definition vm_del_vq ::
  "'d bus \<Rightarrow> 'a vring_virtqueue \<Rightarrow> 'a virtio_mmio_device \<Rightarrow> 'd bus_world \<Rightarrow> ('a virtio_mmio_device \<times> 'd bus_world) option" where
  "vm_del_vq rs vq d w = do {
     let d = d\<lparr>vm_virtqueues := remove1 (vq_index vq) (vm_virtqueues d)\<rparr>;
     w \<leftarrow> writel rs (vq_index vq) (reg d VIRTIO_MMIO_QUEUE_SEL) w;
     w \<leftarrow> vm_deactivate rs d w;
     let (vqs, m) = vring_del_virtqueue vq (vd_vqs d) (bus_mem w);
     Some (d\<lparr>vd_vqs := vqs\<rparr>, set_mem m w)
   }"

fun vm_del_each ::
  "'d bus \<Rightarrow> 'a vring_virtqueue list \<Rightarrow> 'a virtio_mmio_device \<Rightarrow> 'd bus_world \<Rightarrow> ('a virtio_mmio_device \<times> 'd bus_world) option" where
  "vm_del_each rs [] d w = Some (d, w)"
| "vm_del_each rs (vq # vqs) d w = do { (d, w) \<leftarrow> vm_del_vq rs vq d w; vm_del_each rs vqs d w }"

definition vm_del_vqs ::
  "'d bus \<Rightarrow> 'a virtio_mmio_device \<Rightarrow> 'd bus_world \<Rightarrow> ('a virtio_mmio_device \<times> 'd bus_world) option" where
  "vm_del_vqs rs d w = vm_del_each rs (vd_vqs d) d w"

text \<open>Telling the device where the ring is.\<close>

definition vm_activate ::
  "'d bus \<Rightarrow> 'a virtio_mmio_device \<Rightarrow> 'a vring_virtqueue \<Rightarrow> 'd bus_world \<Rightarrow> 'd bus_world option" where
  "vm_activate rs d vq w = do {
     w \<leftarrow> writel rs (virtqueue_get_vring_size vq) (reg d VIRTIO_MMIO_QUEUE_NUM) w;
     if vm_version d = 1 then do {
       w \<leftarrow> writel rs PAGE_SIZE (reg d VIRTIO_MMIO_QUEUE_ALIGN) w;
       a \<leftarrow> virtqueue_get_desc_addr vq;
       writel rs (ucast (drop_bit 12 a)) (reg d VIRTIO_MMIO_QUEUE_PFN) w
     }
     else do {
       a \<leftarrow> virtqueue_get_desc_addr vq;
       w \<leftarrow> writel rs (ucast a) (reg d VIRTIO_MMIO_QUEUE_DESC_LOW) w;
       w \<leftarrow> writel rs (ucast (drop_bit 32 a)) (reg d VIRTIO_MMIO_QUEUE_DESC_HIGH) w;
       a \<leftarrow> virtqueue_get_avail_addr vq;
       w \<leftarrow> writel rs (ucast a) (reg d VIRTIO_MMIO_QUEUE_AVAIL_LOW) w;
       w \<leftarrow> writel rs (ucast (drop_bit 32 a)) (reg d VIRTIO_MMIO_QUEUE_AVAIL_HIGH) w;
       a \<leftarrow> virtqueue_get_used_addr vq;
       w \<leftarrow> writel rs (ucast a) (reg d VIRTIO_MMIO_QUEUE_USED_LOW) w;
       w \<leftarrow> writel rs (ucast (drop_bit 32 a)) (reg d VIRTIO_MMIO_QUEUE_USED_HIGH) w;
       writel rs 1 (reg d VIRTIO_MMIO_QUEUE_READY) w
     }
   }"

text \<open>
  The allocators: pages for a ring of the given size, the description of the queue, and the
  structure of the queue.
\<close>

record vm_alloc =
  al_pages :: "u32 \<Rightarrow> addr"
  al_info :: bool
  al_vq :: bool

text \<open>\<open>Inl\<close> is an error pointer, \<open>Inr None\<close> the null pointer for a queue without a name.\<close>

definition vm_setup_vq ::
  "'d bus \<Rightarrow> vm_alloc \<Rightarrow> 'a virtio_mmio_device \<Rightarrow> u32 \<Rightarrow> bool \<Rightarrow> bool \<Rightarrow> 'd bus_world \<Rightarrow>
   ((int + 'a vring_virtqueue option) \<times> 'a virtio_mmio_device \<times> 'd bus_world) option" where
  "vm_setup_vq rs al d index callback name w =
     (if \<not> name then Some (Inr None, d, w)
      else do {
        w \<leftarrow> writel rs index (reg d VIRTIO_MMIO_QUEUE_SEL) w;
        (r, w) \<leftarrow> readl rs (reg d (if vm_version d = 1 then VIRTIO_MMIO_QUEUE_PFN else VIRTIO_MMIO_QUEUE_READY)) w;
        if r \<noteq> 0 then Some (Inl (- ENOENT), d, w)
        else if \<not> al_info al then Some (Inl (- ENOMEM), d, w)
        else do {
          (n, w) \<leftarrow> readl rs (reg d VIRTIO_MMIO_QUEUE_NUM_MAX) w;
          if n = 0 then do { w \<leftarrow> vm_deactivate rs d w; Some (Inl (- ENOENT), d, w) }
          else do {
            (v, m) \<leftarrow> vring_create_virtqueue (al_pages al) (al_vq al) index n (ucast PAGE_SIZE)
              (vd_features d) callback (bus_mem w);
            let w = set_mem m w;
            case v of
              None \<Rightarrow> do { w \<leftarrow> vm_deactivate rs d w; Some (Inl (- ENOMEM), d, w) }
            | Some vq \<Rightarrow> do {
                let d = d\<lparr>vd_vqs := vd_vqs d @ [vq]\<rparr>;
                w \<leftarrow> vm_activate rs d vq w;
                Some (Inr (Some vq), d\<lparr>vm_virtqueues := index # vm_virtqueues d\<rparr>, w)
              }
          }
        }
      })"

fun vm_setup_each ::
  "'d bus \<Rightarrow> (u32 \<Rightarrow> vm_alloc) \<Rightarrow> (bool \<times> bool) list \<Rightarrow> u32 \<Rightarrow> 'a virtio_mmio_device \<Rightarrow> 'd bus_world \<Rightarrow>
   (int \<times> 'a virtio_mmio_device \<times> 'd bus_world) option" where
  "vm_setup_each rs al [] i d w = Some (0, d, w)"
| "vm_setup_each rs al ((callback, name) # qs) i d w = do {
     (v, d, w) \<leftarrow> vm_setup_vq rs (al i) d i callback name w;
     case v of
       Inl err \<Rightarrow> do { (d, w) \<leftarrow> vm_del_vqs rs d w; Some (err, d, w) }
     | Inr _ \<Rightarrow> vm_setup_each rs al qs (i + 1) d w
   }"

definition vm_find_vqs ::
  "'d bus \<Rightarrow> (u32 \<Rightarrow> vm_alloc) \<Rightarrow> int \<Rightarrow> 'a virtio_mmio_device \<Rightarrow> (bool \<times> bool) list \<Rightarrow> 'd bus_world \<Rightarrow>
   (int \<times> 'a virtio_mmio_device \<times> 'd bus_world) option" where
  "vm_find_vqs rs al irq_err d qs w =
     (if irq_err \<noteq> 0 then Some (irq_err, d, w) else vm_setup_each rs al qs 0 d w)"

definition virtio_mmio_config_ops ::
  "'d bus \<Rightarrow> (u32 \<Rightarrow> vm_alloc) \<Rightarrow> int \<Rightarrow> ('a virtio_mmio_device, 'd bus_world) virtio_config_ops" where
  "virtio_mmio_config_ops rs al irq_err = \<lparr>cfg_get = vm_get rs, cfg_set = vm_set rs,
     cfg_generation = vm_generation rs, cfg_get_status = vm_get_status rs,
     cfg_set_status = vm_set_status rs, cfg_reset = vm_reset rs,
     cfg_find_vqs = vm_find_vqs rs al irq_err, cfg_del_vqs = vm_del_vqs rs,
     cfg_get_features = vm_get_features rs, cfg_finalize_features = vm_finalize_features rs\<rparr>"

section \<open>The platform device\<close>

text \<open>
  \<open>mem\<close> is the first memory resource with its first and last address, \<open>region_ok\<close> and
  \<open>alloc_ok\<close> say whether the region and the device structure could be had, \<open>register\<close> is
  \<^const>\<open>register_virtio_device\<close> on the operations of this transport.
\<close>

definition virtio_mmio_probe ::
  "'d bus \<Rightarrow> (addr \<times> addr) option \<Rightarrow> bool \<Rightarrow> bool \<Rightarrow>
   ('a virtio_mmio_device \<Rightarrow> 'd bus_world \<Rightarrow> (int \<times> 'a virtio_mmio_device \<times> 'd bus_world) option) \<Rightarrow>
   'd bus_world \<Rightarrow> (int \<times> 'a virtio_mmio_device option \<times> 'd bus_world) option" where
  "virtio_mmio_probe rs mem region_ok alloc_ok register w =
     (case mem of
        None \<Rightarrow> Some (- EINVAL, None, w)
      | Some (s, e) \<Rightarrow>
          if \<not> region_ok then Some (- EBUSY, None, w)
          else if \<not> alloc_ok then Some (- ENOMEM, None, w)
          else do {
            b \<leftarrow> ioremap rs s (e - s + 1);
            if b = 0 then Some (- EFAULT, None, w)
            else do {
              (magic, w) \<leftarrow> readl rs (reg_addr b VIRTIO_MMIO_MAGIC_VALUE) w;
              if magic \<noteq> 0x74726976 then Some (- ENODEV, None, w)
              else do {
                (version, w) \<leftarrow> readl rs (reg_addr b VIRTIO_MMIO_VERSION) w;
                if version < 1 \<or> version > 2 then Some (- ENXIO, None, w)
                else do {
                  (i, w) \<leftarrow> readl rs (reg_addr b VIRTIO_MMIO_DEVICE_ID) w;
                  if i = 0 then Some (- ENODEV, None, w)
                  else do {
                    (vendor, w) \<leftarrow> readl rs (reg_addr b VIRTIO_MMIO_VENDOR_ID) w;
                    w \<leftarrow> (if version = 1 then writel rs PAGE_SIZE (reg_addr b VIRTIO_MMIO_GUEST_PAGE_SIZE) w
                          else Some w);
                    (err, d, w) \<leftarrow> register \<lparr>vd_index = 0, vd_config_enabled = False,
                      vd_config_change_pending = False, vd_id = \<lparr>id_device = i, id_vendor = vendor\<rparr>,
                      vd_vqs = [], vd_features = 0, vm_base = b, vm_version = ucast version,
                      vm_virtqueues = []\<rparr> w;
                    Some (err, Some d, w)
                  }
                }
              }
            }
          })"

section \<open>Devices on the command line\<close>

record cmdline_device =
  cd_start :: u64
  cd_end :: u64
  cd_irq :: u64
  cd_id :: int

record cmdline_state =
  cl_parent_registered :: bool
  cl_id :: int
  cl_devices :: "cmdline_device list"

text \<open>The values \<open>sscanf\<close> stores, in order: the base, the number of the interrupt, the
  characters consumed, the id, and again the characters consumed.\<close>

definition scan_id :: "scan_out list \<Rightarrow> int \<Rightarrow> int" where
  "scan_id outs i = (case outs of _ # _ # _ # OutInt j # _ \<Rightarrow> j | _ \<Rightarrow> i)"

definition scan_consumed :: "scan_out list \<Rightarrow> int" where
  "scan_consumed outs =
     (case outs of [_, _, OutInt c] \<Rightarrow> c | [_, _, OutInt c, _] \<Rightarrow> c | _ # _ # _ # _ # OutInt c # _ \<Rightarrow> c | _ \<Rightarrow> 0)"

text \<open>
  \<open>parent_err\<close> and \<open>pdev_err\<close> are the results of registering the parent and the device with
  the driver core.
\<close>

definition vm_cmdline_set :: "int \<Rightarrow> int \<Rightarrow> string \<Rightarrow> cmdline_state \<Rightarrow> int \<times> cmdline_state" where
  "vm_cmdline_set parent_err pdev_err device s =
     (let (sz, str) = memparse device;
          (processed, outs) = sscanf str ''@%lli:%u%n:%d%n'';
          s = s\<lparr>cl_id := scan_id outs (cl_id s)\<rparr> in
      if processed < 2 \<or> hd0 (drop (nat (scan_consumed outs)) str) \<noteq> NUL then (- EINVAL, s)
      else case outs of
        OutInt start # OutInt line # _ \<Rightarrow>
          let b = (word_of_int start :: u64) in
          if \<not> cl_parent_registered s \<and> parent_err \<noteq> 0 then (parent_err, s)
          else
            let s = s\<lparr>cl_parent_registered := True\<rparr>;
                dev = \<lparr>cd_start = b, cd_end = b + sz - 1, cd_irq = word_of_int line, cd_id = cl_id s\<rparr>;
                s = s\<lparr>cl_id := sint (word_of_int (cl_id s + 1) :: u32)\<rparr> in
            if pdev_err \<noteq> 0 then (pdev_err, s)
            else (0, s\<lparr>cl_devices := cl_devices s @ [dev]\<rparr>)
      | _ \<Rightarrow> (- EINVAL, s))"

text \<open>\<open>snprintf\<close> into what is left of the page keeps room for the terminating NUL.\<close>

definition vm_cmdline_get_device :: "cmdline_device \<Rightarrow> string \<Rightarrow> string" where
  "vm_cmdline_get_device dev buffer =
     buffer @ take (4096 - length buffer - 1)
       (''0x'' @ hex_str (unat (cd_end dev - cd_start dev + 1)) @ ''@0x'' @ hex_str (unat (cd_start dev)) @
        '':'' @ dec_str (unat (cd_irq dev)) @ '':'' @ int_str (cd_id dev) @ [CHR 0x0A])"

definition vm_cmdline_get :: "cmdline_state \<Rightarrow> string \<times> nat" where
  "vm_cmdline_get s = (let buffer = fold vm_cmdline_get_device (cl_devices s) [] in (buffer, length buffer + 1))"

definition vm_unregister_cmdline_devices :: "cmdline_state \<Rightarrow> cmdline_state" where
  "vm_unregister_cmdline_devices s =
     (if cl_parent_registered s then s\<lparr>cl_devices := [], cl_parent_registered := False\<rparr> else s)"

end
