(* ===== verification/Virtqueue_Inv.thy ===== *)
theory Virtqueue_Inv
  imports Virtqueue "HOL-Library.Multiset"
begin

text \<open>
  The invariant of the driver's virtqueue: the free list and the chains of the buffers in flight hold
  every descriptor exactly once. Adding a buffer moves descriptors from the free list to a new chain,
  taking a used buffer back moves them to the free list again, and the token comes back with them.
\<close>

section \<open>Chains and the free list\<close>

lemma put_desc_simps [simp]:
  "m_desc (put_desc tab t m) = (m_desc m)(tab \<mapsto> t)"
  "m_avail (put_desc tab t m) = m_avail m"
  "m_used (put_desc tab t m) = m_used m"
  "m_byte (put_desc tab t m) = m_byte m"
  "put_desc tab t' (put_desc tab t m) = put_desc tab t' m"
  by (simp_all add: put_desc_def)

text \<open>The positions of a list are linked through \<open>next\<close>; a chain also ends where the flag says so.\<close>

fun linked :: "vring_desc list \<Rightarrow> nat list \<Rightarrow> bool" where
  "linked t [] \<longleftrightarrow> True"
| "linked t [i] \<longleftrightarrow> True"
| "linked t (i # j # xs) \<longleftrightarrow> unat (d_next (t ! i)) = j \<and> linked t (j # xs)"

fun chained :: "vring_desc list \<Rightarrow> nat list \<Rightarrow> bool" where
  "chained t [] \<longleftrightarrow> False"
| "chained t [i] \<longleftrightarrow> d_flags (t ! i) AND VRING_DESC_F_NEXT = 0"
| "chained t (i # j # xs) \<longleftrightarrow> d_flags (t ! i) AND VRING_DESC_F_NEXT \<noteq> 0 \<and> unat (d_next (t ! i)) = j \<and> chained t (j # xs)"

lemma chained_linked: "chained t xs \<Longrightarrow> linked t xs"
  by (induction t xs rule: chained.induct) auto

lemma linked_cong_butlast:
  "(\<And>i. i \<in> set (butlast xs) \<Longrightarrow> d_next (t ! i) = d_next (t' ! i)) \<Longrightarrow> linked t xs = linked t' xs"
  by (induction t xs rule: linked.induct) auto

lemma linked_cong: "(\<And>i. i \<in> set xs \<Longrightarrow> d_next (t ! i) = d_next (t' ! i)) \<Longrightarrow> linked t xs = linked t' xs"
  by (rule linked_cong_butlast) (simp add: in_set_butlastD)

lemma chained_cong: "(\<And>i. i \<in> set xs \<Longrightarrow> t ! i = t' ! i) \<Longrightarrow> chained t xs = chained t' xs"
  by (induction t xs rule: chained.induct) auto

lemma linked_append:
  "linked t xs \<Longrightarrow> linked t ys \<Longrightarrow> (xs \<noteq> [] \<Longrightarrow> ys \<noteq> [] \<Longrightarrow> unat (d_next (t ! last xs)) = hd ys) \<Longrightarrow> linked t (xs @ ys)"
  by (induction t xs rule: linked.induct) (cases ys; auto)+

lemma linked_drop: "linked t xs \<Longrightarrow> linked t (drop n xs)"
proof (induction n arbitrary: xs)
  case (Suc n)
  then show ?case by (cases "(t, xs)" rule: linked.cases) (auto simp: drop_Suc)
qed simp

lemma linked_take: "linked t xs \<Longrightarrow> linked t (take n xs)"
proof (induction n arbitrary: xs)
  case (Suc n)
  then show ?case using Suc.IH [of "tl xs"] by (cases "(t, xs)" rule: linked.cases; cases n) auto
qed simp

lemma linked_nth: "linked t xs \<Longrightarrow> Suc k < length xs \<Longrightarrow> unat (d_next (t ! (xs ! k))) = xs ! Suc k"
proof (induction t xs arbitrary: k rule: linked.induct)
  case (3 t i j xs)
  then show ?case by (cases k) auto
qed auto

lemma chainedI:
  "xs \<noteq> [] \<Longrightarrow> linked t xs \<Longrightarrow> (\<And>k. Suc k < length xs \<Longrightarrow> d_flags (t ! (xs ! k)) AND VRING_DESC_F_NEXT \<noteq> 0) \<Longrightarrow>
   d_flags (t ! last xs) AND VRING_DESC_F_NEXT = 0 \<Longrightarrow> chained t xs"
proof (induction t xs rule: chained.induct)
  case (3 t i j xs)
  from 3(4) [of 0] have "d_flags (t ! i) AND VRING_DESC_F_NEXT \<noteq> 0" by simp
  moreover have "d_flags (t ! ((j # xs) ! k)) AND VRING_DESC_F_NEXT \<noteq> 0" if "Suc k < length (j # xs)" for k
    using 3(4) [of "Suc k"] that by simp
  ultimately show ?case using 3 by auto
qed auto

section \<open>Filling descriptors\<close>

definition sg_desc :: "scatter \<times> bool \<Rightarrow> vring_desc \<Rightarrow> vring_desc" where
  "sg_desc s d = d\<lparr>d_flags := (if snd s then VRING_DESC_F_NEXT OR VRING_DESC_F_WRITE else VRING_DESC_F_NEXT),
     d_addr := sg_phys (fst s), d_len := sg_length (fst s)\<rparr>"

definition fill_table :: "nat list \<Rightarrow> (scatter \<times> bool) list \<Rightarrow> vring_desc list \<Rightarrow> vring_desc list" where
  "fill_table xs sgs t = fold (\<lambda>(i, s) t. t[i := sg_desc s (t ! i)]) (zip xs sgs) t"

lemma fill_table_length [simp]: "length (fill_table xs sgs t) = length t"
proof -
  have "length (fold (\<lambda>(i, s) t. t[i := sg_desc s (t ! i)]) zs t) = length t" for zs
    by (induction zs arbitrary: t) auto
  then show ?thesis by (simp add: fill_table_def)
qed

lemma fill_table_Nil [simp]: "fill_table xs [] t = t"
  by (simp add: fill_table_def)

lemma fill_table_other: "j \<notin> set (take (length sgs) xs) \<Longrightarrow> fill_table xs sgs t ! j = t ! j"
proof (induction xs arbitrary: sgs t)
  case (Cons x xs)
  then show ?case by (cases sgs) (auto simp: fill_table_def)
qed (simp add: fill_table_def)

lemma fill_table_nth:
  "distinct xs \<Longrightarrow> set xs \<subseteq> {..<length t} \<Longrightarrow> length sgs \<le> length xs \<Longrightarrow> k < length sgs \<Longrightarrow>
   fill_table xs sgs t ! (xs ! k) = sg_desc (sgs ! k) (t ! (xs ! k))"
proof (induction xs arbitrary: sgs t k)
  case (Cons x xs)
  then obtain s sgs' where s: "sgs = s # sgs'" by (cases sgs) auto
  let ?t = "t[x := sg_desc s (t ! x)]"
  have step: "fill_table (x # xs) sgs t = fill_table xs sgs' ?t" by (simp add: fill_table_def s)
  show ?case
  proof (cases k)
    case 0
    have "x \<notin> set (take (length sgs') xs)" using Cons.prems by (auto dest: in_set_takeD)
    with 0 Cons.prems s show ?thesis unfolding step by (simp add: fill_table_other)
  next
    case (Suc k')
    have "xs ! k' \<noteq> x" using Cons.prems s Suc by (auto simp: in_set_conv_nth)
    with Suc Cons.prems Cons.IH [of ?t sgs' k'] s show ?thesis unfolding step by simp
  qed
qed simp

lemma fill_table_next [simp]: "d_next (fill_table xs sgs t ! i) = d_next (t ! i)"
proof -
  have "d_next (fold (\<lambda>(i, s) t. t[i := sg_desc s (t ! i)]) zs t ! i) = d_next (t ! i)" for zs
  proof (induction zs arbitrary: t)
    case (Cons z zs)
    have "d_next (t[fst z := sg_desc (snd z) (t ! fst z)] ! i) = d_next (t ! i)"
      by (cases "fst z < length t"; cases "fst z = i") (auto simp: sg_desc_def list_update_beyond)
    with Cons show ?case by (simp add: case_prod_beta)
  qed simp
  then show ?thesis by (simp add: fill_table_def)
qed

lemma ucast_u16_u32: "unat (ucast (x :: u16) :: u32) = unat x"
  by (rule unat_ucast_up) simp

lemma fill_descs_table:
  assumes "\<not> vring_use_dma_api (vq_features vq)"
  shows "m_desc m tab = Some t \<Longrightarrow> distinct xs \<Longrightarrow> set xs \<subseteq> {..<length t} \<Longrightarrow> linked t xs \<Longrightarrow>
    length sgs \<le> length xs \<Longrightarrow> (sgs \<noteq> [] \<Longrightarrow> unat i = hd xs) \<Longrightarrow> sgs \<noteq> [] \<Longrightarrow>
    \<exists>p i'. fill_descs dma vq tab sgs prev i m =
      Some (Inr (Some p, i', put_desc tab (fill_table xs sgs t) m)) \<and>
      unat p = xs ! (length sgs - 1) \<and> (length sgs < length xs \<longrightarrow> unat i' = xs ! length sgs)"
proof (induction sgs arbitrary: prev i m t xs)
  case (Cons s sgs)
  obtain x xs' where xs: "xs = x # xs'" using Cons.prems by (cases xs) auto
  obtain sg wr where s: "s = (sg, wr)" by (cases s)
  have x: "unat i = x" "x < length t" using Cons.prems xs by auto
  let ?t = "t[x := sg_desc s (t ! x)]" and ?i = "ucast (d_next (t ! x)) :: u32"
  let ?m = "put_desc tab ?t m"
  have step: "fill_descs dma vq tab (s # sgs) prev i m = fill_descs dma vq tab sgs (Some i) ?i ?m"
    using assms Cons.prems(1) x
    by (simp add: s vring_mapping_error_def vring_map_one_sg_def desc_upd_def desc_get_def sg_desc_def)
  have ft: "fill_table xs (s # sgs) t = fill_table xs' sgs ?t" by (simp add: fill_table_def xs)
  have nx: "xs' \<noteq> [] \<Longrightarrow> unat ?i = hd xs'"
    using Cons.prems(4) xs linked_nth [of t xs 0] by (cases xs') (auto simp: ucast_u16_u32)
  show ?case
  proof (cases sgs)
    case Nil
    have "xs' \<noteq> [] \<Longrightarrow> hd xs' = xs' ! 0" by (cases xs') simp_all
    with Nil step ft nx x xs show ?thesis
      by - (rule exI [of _ i], rule exI [of _ ?i], simp)
  next
    case (Cons s' sgs')
    have nx': "d_next (t ! j) = d_next (?t ! j)" for j
      using x by (cases "j = x") (auto simp: sg_desc_def)
    have "linked ?t xs'"
      using linked_drop [OF Cons.prems(4), of 1] linked_cong [of xs' t ?t] nx' by (simp add: xs)
    moreover have "xs' \<noteq> []" using Cons.prems Cons xs by auto
    moreover have "m_desc ?m tab = Some ?t" "distinct xs'" "set xs' \<subseteq> {..<length ?t}" "length sgs \<le> length xs'" "sgs \<noteq> []"
      using Cons.prems Cons xs by auto
    ultimately obtain p i' where "fill_descs dma vq tab sgs (Some i) ?i ?m =
        Some (Inr (Some p, i', put_desc tab (fill_table xs' sgs ?t) ?m))"
      "unat p = xs' ! (length sgs - 1)" "length sgs < length xs' \<longrightarrow> unat i' = xs' ! length sgs"
      using Cons.IH [of ?m ?t xs' ?i "Some i"] nx by blast
    with step ft Cons xs show ?thesis
      by - (rule exI [of _ p], rule exI [of _ i'], simp)
  qed
qed simp

section \<open>The invariant of the driver's queue\<close>

text \<open>Sizes and links between the queue and the memory, without indirect tables and DMA mappings,
  which the devices of the library never offer.\<close>

definition vq_wf :: "'a vring_virtqueue \<Rightarrow> vmem \<Rightarrow> bool" where
  "vq_wf vq m \<longleftrightarrow>
     (let n = unat (vq_num vq) in
      (\<exists>k \<le> 15. vq_num vq = 2 ^ k) \<and>
      (\<exists>t. m_desc m (vq_desc vq) = Some t \<and> length t = n) \<and>
      (\<exists>a. m_avail m (vq_avail vq) = Some a \<and> length (a_ring a) = Suc n \<and> a_idx a = vq_avail_idx_shadow vq) \<and>
      (\<exists>u. m_used m (vq_used vq) = Some u \<and> length (u_ring u) = n) \<and>
      length (vq_desc_state vq) = n \<and> (\<forall>s \<in> set (vq_desc_state vq). ds_indir s = 0) \<and>
      \<not> vq_indirect vq \<and> \<not> vring_use_dma_api (vq_features vq))"

text \<open>
  \<open>free\<close> is the list of free descriptors and \<open>flight h\<close> the chain of the buffer whose head is \<open>h\<close>,
  empty when no buffer has that head. Together they hold every descriptor exactly once.
\<close>

definition vq_inv :: "'a vring_virtqueue \<Rightarrow> vmem \<Rightarrow> nat list \<Rightarrow> (nat \<Rightarrow> nat list) \<Rightarrow> bool" where
  "vq_inv vq m free flight \<longleftrightarrow> vq_wf vq m \<and>
     (let n = unat (vq_num vq); t = the (m_desc m (vq_desc vq)) in
      unat (vq_num_free vq) = length free \<and> (free \<noteq> [] \<longrightarrow> hd free = unat (vq_free_head vq)) \<and> linked t free \<and>
      (\<forall>h < n. (ds_data (vq_desc_state vq ! h) = None \<longleftrightarrow> flight h = []) \<and>
         (flight h \<noteq> [] \<longrightarrow> hd (flight h) = h \<and> chained t (flight h))) \<and>
      mset free + (\<Sum>h<n. mset (flight h)) = mset [0..<n])"

lemma vq_wfE:
  assumes "vq_wf vq m"
  obtains k t a u where "k \<le> 15" "vq_num vq = 2 ^ k" "unat (vq_num vq) = 2 ^ k"
    "m_desc m (vq_desc vq) = Some t" "length t = unat (vq_num vq)"
    "m_avail m (vq_avail vq) = Some a" "length (a_ring a) = Suc (unat (vq_num vq))" "a_idx a = vq_avail_idx_shadow vq"
    "m_used m (vq_used vq) = Some u" "length (u_ring u) = unat (vq_num vq)"
proof -
  from assms obtain k where k: "k \<le> 15" "vq_num vq = 2 ^ k" by (auto simp: vq_wf_def Let_def)
  then have "unat (vq_num vq) = 2 ^ k" by (simp add: unat_pow2_word)
  with assms k that show ?thesis by (auto simp: vq_wf_def Let_def)
qed

lemma mset_upt_part:
  assumes "mset zs + M = mset [0..<n]"
  shows "distinct zs \<and> set zs \<subseteq> {..<n}"
proof -
  have u: "count (mset [0..<n]) a = (if a < n then 1 else 0)" for a
    using distinct_count_atmost_1 [of "[0..<n]"] by auto
  have c: "count (mset zs) a \<le> (if a < n then 1 else 0)" for a
    unfolding u [of a, symmetric] assms [symmetric] by simp
  have p: "a \<in> set zs \<longleftrightarrow> 0 < count (mset zs) a" for a by simp
  have "count (mset zs) a \<le> 1" for a
    using c [of a] by (rule order_trans) simp
  then have "count (mset zs) a = (if a \<in> set zs then 1 else 0)" for a
    unfolding p by (metis One_nat_def gr0I le_antisym Suc_leI)
  then have "distinct zs" using distinct_count_atmost_1 by blast
  moreover have "a < n" if "a \<in> set zs" for a
    using that c [of a] unfolding p by (auto split: if_splits)
  ultimately show ?thesis by auto
qed

lemma mset_upt_parts:
  "mset xs + mset ys + M = mset [0..<n] \<Longrightarrow> distinct (xs @ ys) \<and> set (xs @ ys) \<subseteq> {..<n}"
  using mset_upt_part [of "xs @ ys" M n] by simp

lemma flight_parts:
  assumes "mset free + (\<Sum>h<n. mset (flight h)) = mset [0..<n]" "h < n"
  shows "distinct (free @ flight h)" "set (free @ flight h) \<subseteq> {..<n}"
    and "h' < n \<Longrightarrow> h' \<noteq> h \<Longrightarrow> set (flight h) \<inter> set (flight h') = {}"
proof -
  have r: "(\<Sum>h<n. mset (flight h)) = mset (flight h) + (\<Sum>h \<in> {..<n} - {h}. mset (flight h))"
    using assms(2) by (simp add: sum.remove)
  from mset_upt_parts [of free "flight h" "\<Sum>h \<in> {..<n} - {h}. mset (flight h)" n] assms(1)
  show "distinct (free @ flight h)" "set (free @ flight h) \<subseteq> {..<n}"
    by (simp_all add: r add.assoc)
  assume h': "h' < n" "h' \<noteq> h"
  then have "(\<Sum>h \<in> {..<n} - {h}. mset (flight h)) =
      mset (flight h') + (\<Sum>h \<in> {..<n} - {h} - {h'}. mset (flight h))"
    by (subst sum.remove [of _ h']) auto
  with mset_upt_parts [of "flight h" "flight h'" "mset free + (\<Sum>h \<in> {..<n} - {h} - {h'}. mset (flight h))" n] assms(1)
  show "set (flight h) \<inter> set (flight h') = {}" by (simp add: r ac_simps)
qed

lemma flight_update:
  assumes "h < (n :: nat)"
  shows "(\<Sum>i<n. mset ((flight(h := xs)) i)) + mset (flight h) = (\<Sum>i<n. mset (flight i)) + mset xs"
proof -
  have "(\<Sum>i \<in> {..<n} - {h}. mset ((flight(h := xs)) i)) = (\<Sum>i \<in> {..<n} - {h}. mset (flight i))"
    by (rule sum.cong) auto
  with assms sum.remove [of "{..<n}" h "\<lambda>i. mset ((flight(h := xs)) i)"] sum.remove [of "{..<n}" h "\<lambda>i. mset (flight i)"]
  show ?thesis by (simp add: ac_simps)
qed

section \<open>Adding a buffer\<close>

definition sg_list :: "scatter list list \<Rightarrow> nat \<Rightarrow> nat \<Rightarrow> (scatter \<times> bool) list" where
  "sg_list sgs out_sgs in_sgs = map (\<lambda>sg. (sg, False)) (concat (take out_sgs sgs)) @
     map (\<lambda>sg. (sg, True)) (concat (take in_sgs (drop out_sgs sgs)))"

definition added_table :: "nat list \<Rightarrow> (scatter \<times> bool) list \<Rightarrow> vring_desc list \<Rightarrow> vring_desc list" where
  "added_table free sgl t =
     (let t = fill_table free sgl t; l = free ! (length sgl - 1) in
      t[l := (t ! l)\<lparr>d_flags := d_flags (t ! l) AND NOT VRING_DESC_F_NEXT\<rparr>])"

definition added_avail :: "'a vring_virtqueue \<Rightarrow> vmem \<Rightarrow> vmem" where
  "added_avail vq m =
     (let a = the (m_avail m (vq_avail vq)) in
      m\<lparr>m_avail := (m_avail m)(vq_avail vq \<mapsto> a\<lparr>a_ring :=
          (a_ring a)[unat (ucast (vq_avail_idx_shadow vq) AND (vq_num vq - 1) :: u32) := ucast (vq_free_head vq)],
        a_idx := vq_avail_idx_shadow vq + 1\<rparr>)\<rparr>)"

definition added_vq :: "u32 \<Rightarrow> u32 \<Rightarrow> 'a \<Rightarrow> 'a vring_virtqueue \<Rightarrow> 'a vring_virtqueue" where
  "added_vq total_sg i tok vq = vq\<lparr>vq_num_free := vq_num_free vq - total_sg, vq_free_head := i,
     vq_desc_state := (vq_desc_state vq)[unat (vq_free_head vq) :=
       (vq_desc_state vq ! unat (vq_free_head vq))\<lparr>ds_data := Some tok\<rparr>],
     vq_avail_idx_shadow := vq_avail_idx_shadow vq + 1, vq_num_added := vq_num_added vq + 1\<rparr>"

lemma ring_mask_less:
  "n = 2 ^ k \<Longrightarrow> k \<le> 15 \<Longrightarrow> unat (ucast (i :: u16) AND (n - 1) :: u32) < unat n"
  by (simp add: unat_and_pow2 unat_pow2_word)

lemma virtqueue_add_eq:
  assumes inv: "vq_inv vq m free flight" and nb: "\<not> vq_broken vq"
    and sgl: "sgl = sg_list sgs out_sgs in_sgs" "out_sgs + in_sgs \<le> length sgs"
    and tot: "unat total_sg = length sgl" "sgl \<noteq> []" "length sgl \<le> length free"
    and na: "vq_num_added vq \<noteq> 65534" and t: "m_desc m (vq_desc vq) = Some t"
  shows "\<exists>i. virtqueue_add dma kmalloc notify sgs total_sg out_sgs in_sgs (Some tok) vq m x =
      Some (0, added_vq total_sg i tok vq, added_avail vq (put_desc (vq_desc vq) (added_table free sgl t) m), x) \<and>
    (length sgl < length free \<longrightarrow> unat i = free ! length sgl)"
proof -
  let ?n = "unat (vq_num vq)"
  from inv have wf: "vq_wf vq m" and nf: "unat (vq_num_free vq) = length free"
    and hd: "hd free = unat (vq_free_head vq)" and lk: "linked t free"
    and ms: "mset free + (\<Sum>h<?n. mset (flight h)) = mset [0..<?n]"
    using tot t by (auto simp: vq_inv_def Let_def)
  from wf obtain k a where k: "k \<le> 15" "vq_num vq = 2 ^ k" "unat (vq_num vq) = 2 ^ k" "length t = ?n"
    and a: "m_avail m (vq_avail vq) = Some a" "length (a_ring a) = Suc ?n"
    using t by (elim vq_wfE) simp
  from mset_upt_part [OF ms] have fr: "distinct free" "set free \<subseteq> {..<length t}" using k by simp_all
  from wf have ni: "\<not> vq_indirect vq" "\<not> vring_use_dma_api (vq_features vq)" "length (vq_desc_state vq) = ?n"
    by (simp_all add: vq_wf_def Let_def)
  have free: "free \<noteq> []" using tot by auto
  with fr hd have h: "unat (vq_free_head vq) < ?n" using k(4) by (metis hd_in_set lessThan_iff subsetD)
  have le: "\<not> vq_num vq < total_sg" "total_sg \<noteq> 0" "\<not> vq_num_free vq < total_sg"
    using tot nf distinct_card [OF fr(1)] card_mono [OF finite_lessThan fr(2)] k(4)
    by (auto simp: word_less_nat_alt unat_eq_zero)
  from fill_descs_table [OF ni(2) t fr lk tot(3) _ tot(2), of "vq_free_head vq" dma None] hd
  obtain p i where f: "fill_descs dma vq (vq_desc vq) sgl None (vq_free_head vq) m =
      Some (Inr (Some p, i, put_desc (vq_desc vq) (fill_table free sgl t) m))"
    and p: "unat p = free ! (length sgl - 1)" and i: "length sgl < length free \<longrightarrow> unat i = free ! length sgl" by auto
  have "free ! (length sgl - 1) \<in> set free" using tot free by (intro nth_mem) (cases sgl, auto)
  with fr have l: "free ! (length sgl - 1) < length t" by auto
  have na': "vq_num_added vq + 1 \<noteq> 65535"
  proof
    assume "vq_num_added vq + 1 = 65535"
    then have "vq_num_added vq = 65535 - 1" by (simp only: eq_diff_eq)
    with na show False by simp
  qed
  from f p l a h le nb ni na' sgl(2) ring_mask_less [OF k(2,1), of "vq_avail_idx_shadow vq"] i show ?thesis
    by (intro exI [of _ i])
      (simp add: virtqueue_add_def sgl(1) [unfolded sg_list_def, symmetric] desc_upd_def add_publish_def
        added_vq_def added_avail_def added_table_def Let_def less_Suc_eq)
qed

definition added_desc :: "bool \<Rightarrow> scatter \<times> bool \<Rightarrow> vring_desc \<Rightarrow> vring_desc" where
  "added_desc fin s d = (let d = sg_desc s d in if fin then d\<lparr>d_flags := d_flags d AND NOT VRING_DESC_F_NEXT\<rparr> else d)"

lemma added_desc_flags:
  "d_flags (added_desc l s d) AND VRING_DESC_F_NEXT = (if l then 0 else 1)"
  by (auto simp: added_desc_def sg_desc_def Let_def and.assoc)

lemma added_desc_next [simp]: "d_next (added_desc l s d) = d_next d"
  by (simp add: added_desc_def sg_desc_def Let_def)

lemma added_table_nth:
  assumes "distinct free" "set free \<subseteq> {..<length t}" "length sgl \<le> length free"
  shows "k < length sgl \<Longrightarrow> added_table free sgl t ! (free ! k) = added_desc (Suc k = length sgl) (sgl ! k) (t ! (free ! k))"
    and "j \<notin> set (take (length sgl) free) \<Longrightarrow> sgl \<noteq> [] \<Longrightarrow> added_table free sgl t ! j = t ! j"
proof -
  let ?l = "free ! (length sgl - 1)"
  {
    assume k: "k < length sgl"
    then have "?l \<in> set free" "free ! k \<in> set free" using assms(3) by (auto intro!: nth_mem)
    with assms(2) have "?l < length t" by auto
    moreover have "free ! k = ?l \<longleftrightarrow> Suc k = length sgl"
      using k assms(1,3) nth_eq_iff_index_eq [of free k "length sgl - 1"] by auto
    ultimately show "added_table free sgl t ! (free ! k) = added_desc (Suc k = length sgl) (sgl ! k) (t ! (free ! k))"
      using k assms fill_table_nth [of free t sgl k]
      by (auto simp: added_table_def added_desc_def Let_def nth_list_update)
  }
  assume j: "j \<notin> set (take (length sgl) free)" "sgl \<noteq> []"
  then have "take (length sgl) free ! (length sgl - 1) \<in> set (take (length sgl) free)"
    using assms(3) by (intro nth_mem) (cases sgl; auto)
  moreover have "take (length sgl) free ! (length sgl - 1) = ?l"
    using j(2) by (cases sgl) auto
  ultimately have "j \<noteq> ?l" using j(1) by metis
  with j show "added_table free sgl t ! j = t ! j" by (simp add: added_table_def Let_def fill_table_other)
qed

lemma added_table_length [simp]: "length (added_table free sgl t) = length t"
  by (simp add: added_table_def Let_def)

lemma added_chain:
  assumes "distinct free" "set free \<subseteq> {..<length t}" "linked t free" "length sgl \<le> length free" "sgl \<noteq> []"
  shows "chained (added_table free sgl t) (take (length sgl) free)" "linked (added_table free sgl t) free"
proof -
  note nth = added_table_nth [OF assms(1,2,4)]
  have nx: "d_next (added_table free sgl t ! i) = d_next (t ! i)" for i
  proof (cases "i \<in> set (take (length sgl) free)")
    case True
    then obtain k where "k < length sgl" "i = free ! k" by (auto simp: in_set_conv_nth)
    then show ?thesis using nth(1) by simp
  qed (simp add: nth(2) assms(5))
  then show l: "linked (added_table free sgl t) free"
    using assms(3) linked_cong [of free t "added_table free sgl t"] by simp
  let ?xs = "take (length sgl) free"
  have flag: "d_flags (added_table free sgl t ! (?xs ! k)) AND VRING_DESC_F_NEXT = (if Suc k = length sgl then 0 else 1)"
    if "k < length sgl" for k
    using nth(1) [OF that] that by (simp add: added_desc_flags)
  have "last ?xs = ?xs ! (length sgl - 1)" using assms(4,5) by (subst last_conv_nth) (auto simp: min_def)
  with flag [of "length sgl - 1"] assms(5) have "d_flags (added_table free sgl t ! last ?xs) AND VRING_DESC_F_NEXT = 0"
    by (cases sgl) auto
  moreover have "?xs \<noteq> []" using assms(4,5) by auto
  ultimately show "chained (added_table free sgl t) ?xs"
    using linked_take [OF l] flag by (intro chainedI) auto
qed

lemma added_inv:
  assumes inv: "vq_inv vq m free flight" and tot: "unat total_sg = length sgl" "sgl \<noteq> []" "length sgl \<le> length free"
    and t: "m_desc m (vq_desc vq) = Some t" and i: "length sgl < length free \<longrightarrow> unat i = free ! length sgl"
  shows "vq_inv (added_vq total_sg i tok vq) (added_avail vq (put_desc (vq_desc vq) (added_table free sgl t) m))
    (drop (length sgl) free) (flight(hd free := take (length sgl) free))"
proof -
  let ?n = "unat (vq_num vq)" and ?t = "added_table free sgl t" and ?fl = "flight(hd free := take (length sgl) free)"
  let ?vq = "added_vq total_sg i tok vq" and ?m = "added_avail vq (put_desc (vq_desc vq) (added_table free sgl t) m)"
  from inv have wf: "vq_wf vq m" and nf: "unat (vq_num_free vq) = length free"
    and hd: "hd free = unat (vq_free_head vq)" and lk: "linked t free"
    and fl: "\<And>h. h < ?n \<Longrightarrow> (ds_data (vq_desc_state vq ! h) = None \<longleftrightarrow> flight h = []) \<and>
         (flight h \<noteq> [] \<longrightarrow> hd (flight h) = h \<and> chained t (flight h))"
    and ms: "mset free + (\<Sum>h<?n. mset (flight h)) = mset [0..<?n]"
    using tot t by (auto simp: vq_inv_def Let_def)
  have t': "length t = ?n" using wf t by (auto elim: vq_wfE)
  from mset_upt_part [OF ms] have fr: "distinct free" "set free \<subseteq> {..<length t}" using t' by simp_all
  have free: "free \<noteq> []" using tot by auto
  with fr hd have h: "hd free < ?n" using t' by (metis hd_in_set lessThan_iff subsetD)
  note ch = added_chain [OF fr lk tot(3,2)]
  have "vq_desc_state vq ! unat (vq_free_head vq) \<in> set (vq_desc_state vq)"
    using wf h hd by (intro nth_mem) (simp add: vq_wf_def Let_def)
  then have "\<forall>s \<in> set (vq_desc_state ?vq). ds_indir s = 0"
    using wf by (auto simp: added_vq_def vq_wf_def Let_def dest: subsetD [OF set_update_subset_insert])
  with wf t have wf': "vq_wf ?vq ?m"
    by (auto simp: vq_wf_def Let_def added_vq_def added_avail_def)
  have nf': "unat (vq_num_free vq - total_sg) = length free - length sgl"
    using nf tot by (simp add: unat_sub word_le_nat_alt)
  have hd': "drop (length sgl) free \<noteq> [] \<longrightarrow> hd (drop (length sgl) free) = unat i"
    using i by (simp add: hd_drop_conv_nth)
  have fl': "(ds_data (vq_desc_state ?vq ! h') = None \<longleftrightarrow> ?fl h' = []) \<and>
         (?fl h' \<noteq> [] \<longrightarrow> hd (?fl h') = h' \<and> chained ?t (?fl h'))" if h': "h' < ?n" for h'
  proof (cases "h' = hd free")
    case True
    moreover have "length (vq_desc_state vq) = ?n" using wf by (simp add: vq_wf_def Let_def)
    ultimately show ?thesis using tot free h hd ch(1) by (simp add: added_vq_def hd_take)
  next
    case False
    have "i \<notin> set (take (length sgl) free)" if "i \<in> set (flight h')" for i
      using flight_parts(1) [OF ms h'] that by (auto dest: in_set_takeD)
    then have "chained ?t (flight h') = chained t (flight h')"
      by (intro chained_cong) (simp add: added_table_nth(2) [OF fr tot(3)] tot(2))
    with False fl [OF h'] hd show ?thesis by (simp add: added_vq_def)
  qed
  have e: "flight (hd free) = []"
    using fl [OF h] flight_parts(1) [OF ms h] hd_in_set [OF free] by (metis disjoint_iff distinct_append hd_in_set)
  have "mset free = mset (take (length sgl) free) + mset (drop (length sgl) free)"
    by (simp flip: mset_append)
  moreover have "(\<Sum>h<?n. mset (?fl h)) = (\<Sum>h<?n. mset (flight h)) + mset (take (length sgl) free)"
    using flight_update [OF h, of flight "take (length sgl) free"] unfolding e by (simp only: mset.simps add_0_right)
  ultimately have ms': "mset (drop (length sgl) free) + (\<Sum>h<?n. mset (?fl h)) = mset [0..<?n]"
    unfolding ms [symmetric] by (simp only: ac_simps)
  have "the (m_desc ?m (vq_desc ?vq)) = ?t" "vq_num ?vq = vq_num vq"
    by (simp_all add: added_vq_def added_avail_def Let_def)
  moreover have "vq_num_free ?vq = vq_num_free vq - total_sg" "vq_free_head ?vq = i"
    by (simp_all add: added_vq_def)
  ultimately show ?thesis unfolding vq_inv_def Let_def
    using wf' linked_drop [OF ch(2)] nf' hd' fl' ms' by (simp only: length_drop) blast
qed

section \<open>Taking a buffer back\<close>

lemma detach_walk_chain:
  assumes "m_desc m (vq_desc vq) = Some t" "chained t xs" "set xs \<subseteq> {..<length t}" "unat i = hd xs"
    and "\<not> vring_use_dma_api (vq_features vq)"
  shows "\<exists>i'. detach_walk i m vq =
      Some (i', t ! last xs, vq\<lparr>vq_num_free := vq_num_free vq + word_of_nat (length xs - 1)\<rparr>) \<and> unat i' = last xs"
  using assms
proof (induction t xs arbitrary: i vq rule: chained.induct)
  case (2 t i')
  then show ?case by (subst detach_walk.simps) (simp add: desc_get_def)
next
  case (3 t i' j xs)
  let ?vq = "vq\<lparr>vq_num_free := vq_num_free vq + 1\<rparr>" and ?i = "ucast (d_next (t ! i')) :: u32"
  have "detach_walk i m vq = detach_walk ?i m ?vq"
    using 3 by (subst detach_walk.simps) (simp add: desc_get_def vring_unmap_one_def)
  moreover have "unat ?i = j" using 3 by (simp add: ucast_u16_u32)
  ultimately show ?case using 3 "3.IH" [of ?vq ?i] by (simp add: add.assoc)
qed simp

definition detached_vq :: "u32 \<Rightarrow> nat \<Rightarrow> 'a vring_virtqueue \<Rightarrow> 'a vring_virtqueue" where
  "detached_vq head n vq = vq\<lparr>vq_desc_state := (vq_desc_state vq)[unat head :=
       (vq_desc_state vq ! unat head)\<lparr>ds_data := None\<rparr>],
     vq_free_head := head, vq_num_free := vq_num_free vq + word_of_nat n\<rparr>"

lemma detached_vq_sel [simp]:
  "vq_last_used_idx (detached_vq head n vq) = vq_last_used_idx vq"
  "vq_vring (detached_vq head n vq) = vq_vring vq"
  "vq_avail_flags_shadow (detached_vq head n vq) = vq_avail_flags_shadow vq"
  by (simp_all add: detached_vq_def)

definition detached_table :: "nat list \<Rightarrow> u32 \<Rightarrow> vring_desc list \<Rightarrow> vring_desc list" where
  "detached_table xs fh t = t[last xs := (t ! last xs)\<lparr>d_next := ucast fh\<rparr>]"

lemma detach_buf_eq:
  assumes inv: "vq_inv vq m free flight" and t: "m_desc m (vq_desc vq) = Some t"
    and h: "unat head < unat (vq_num vq)" "flight (unat head) \<noteq> []"
  shows "detach_buf vq m head = Some (detached_vq head (length (flight (unat head))) vq,
    put_desc (vq_desc vq) (detached_table (flight (unat head)) (vq_free_head vq) t) m)"
proof -
  let ?xs = "flight (unat head)" and ?n = "unat (vq_num vq)"
  from inv have wf: "vq_wf vq m" by (simp add: vq_inv_def)
  from inv t h have ch: "chained t ?xs" "hd ?xs = unat head"
    and ms: "mset free + (\<Sum>h<?n. mset (flight h)) = mset [0..<?n]"
    by (auto simp: vq_inv_def Let_def)
  have l: "length t = ?n" "length (vq_desc_state vq) = ?n" "\<not> vring_use_dma_api (vq_features vq)"
    "ds_indir (vq_desc_state vq ! unat head) = 0"
    using wf t h by (auto simp: vq_wf_def Let_def)
  have sub: "set ?xs \<subseteq> {..<length t}" using flight_parts(2) [OF ms h(1)] l by auto
  then have last: "last ?xs < length t" using h(2) last_in_set by auto
  let ?vq = "vq\<lparr>vq_desc_state := (vq_desc_state vq)[unat head := (vq_desc_state vq ! unat head)\<lparr>ds_data := None\<rparr>]\<rparr>"
  obtain i' where w: "detach_walk head m ?vq =
      Some (i', t ! last ?xs, ?vq\<lparr>vq_num_free := vq_num_free vq + word_of_nat (length ?xs - 1)\<rparr>)" and i': "unat i' = last ?xs"
    using detach_walk_chain [of m ?vq t ?xs head] t ch sub l by auto
  have c: "x + word_of_nat (length ?xs - Suc 0) + 1 = x + word_of_nat (length ?xs)" for x :: u32
    using h(2) by (cases ?xs) simp_all
  from w i' last l h t show ?thesis
    by (simp add: detach_buf_def vring_unmap_one_def desc_upd_def detached_vq_def detached_table_def c)
qed

lemma detached_linked:
  assumes "chained t xs" "linked t free" "distinct (free @ xs)" "set xs \<subseteq> {..<length t}"
    and "free \<noteq> [] \<Longrightarrow> hd free = unat fh \<and> unat fh < 2 ^ 16"
  shows "linked (detached_table xs fh t) (xs @ free)"
proof (rule linked_append)
  have "xs \<noteq> []" using assms(1) by auto
  have last: "last xs < length t" using assms(4) \<open>xs \<noteq> []\<close> last_in_set by auto
  have "last xs \<notin> set (butlast xs)"
    using assms(3) \<open>xs \<noteq> []\<close> by (metis append_butlast_last_id distinct_append not_distinct_conv_prefix)
  then show "linked (detached_table xs fh t) xs"
    using chained_linked [OF assms(1)] linked_cong_butlast [of xs t "detached_table xs fh t"]
    by (metis detached_table_def nth_list_update_neq)
  have "last xs \<notin> set free" using assms(3) last_in_set [OF \<open>xs \<noteq> []\<close>] by auto
  then show "linked (detached_table xs fh t) free"
    using assms(2) linked_cong [of free t "detached_table xs fh t"]
    by (metis detached_table_def nth_list_update_neq)
  assume "free \<noteq> []"
  then show "unat (d_next (detached_table xs fh t ! last xs)) = hd free"
    using assms(5) last by (simp add: detached_table_def unsigned_ucast_eq take_bit_nat_eq_self)
qed

lemma detached_inv:
  assumes inv: "vq_inv vq m free flight" and t: "m_desc m (vq_desc vq) = Some t"
    and h: "unat head < unat (vq_num vq)" "flight (unat head) \<noteq> []"
  shows "vq_inv (detached_vq head (length (flight (unat head))) vq)
    (put_desc (vq_desc vq) (detached_table (flight (unat head)) (vq_free_head vq) t) m)
    (flight (unat head) @ free) (flight(unat head := []))"
proof -
  let ?xs = "flight (unat head)" and ?n = "unat (vq_num vq)" and ?fl = "flight(unat head := [])"
  let ?t = "detached_table ?xs (vq_free_head vq) t" and ?vq = "detached_vq head (length ?xs) vq"
  let ?m = "put_desc (vq_desc vq) ?t m"
  from inv have wf: "vq_wf vq m" and nf: "unat (vq_num_free vq) = length free"
    and hd: "free \<noteq> [] \<Longrightarrow> hd free = unat (vq_free_head vq)" and lk: "linked t free"
    and fl: "\<And>h. h < ?n \<Longrightarrow> (ds_data (vq_desc_state vq ! h) = None \<longleftrightarrow> flight h = []) \<and>
         (flight h \<noteq> [] \<longrightarrow> hd (flight h) = h \<and> chained t (flight h))"
    and ms: "mset free + (\<Sum>h<?n. mset (flight h)) = mset [0..<?n]"
    using t by (auto simp: vq_inv_def Let_def)
  from wf t obtain k where k: "k \<le> 15" "unat (vq_num vq) = 2 ^ k" "length t = ?n"
    by (auto elim: vq_wfE)
  have n: "?n \<le> 2 ^ 15" using k power_increasing [of k 15 "2 :: nat"] by simp
  note parts = flight_parts [OF ms h(1)]
  have sub: "set ?xs \<subseteq> {..<length t}" and last: "last ?xs \<in> set ?xs" using parts(2) k h(2) by auto
  have len: "length (free @ ?xs) \<le> ?n"
    using distinct_card [OF parts(1)] card_mono [OF finite_lessThan parts(2)] by simp
  have nf': "unat (vq_num_free vq + word_of_nat (length ?xs)) = length (?xs @ free)"
    using len n by (simp add: unat_word_ariths unat_of_nat nf)
  have "hd free = unat (vq_free_head vq) \<and> unat (vq_free_head vq) < 2 ^ 16" if "free \<noteq> []"
  proof -
    have "hd free < ?n" using parts(2) hd_in_set [OF that] by auto
    with hd [OF that] n show ?thesis by simp
  qed
  with fl [OF h(1)] h(2) lk parts(1) sub have lk': "linked ?t (?xs @ free)"
    by (intro detached_linked) simp_all
  have fl': "(ds_data (vq_desc_state ?vq ! h') = None \<longleftrightarrow> ?fl h' = []) \<and>
         (?fl h' \<noteq> [] \<longrightarrow> hd (?fl h') = h' \<and> chained ?t (?fl h'))" if h': "h' < ?n" for h'
  proof (cases "h' = unat head")
    case True
    moreover have "length (vq_desc_state vq) = ?n" using wf by (simp add: vq_wf_def Let_def)
    ultimately show ?thesis using h by (simp add: detached_vq_def)
  next
    case False
    then have "last ?xs \<notin> set (flight h')" using parts(3) [OF h'] last by auto
    then have "chained ?t (flight h') = chained t (flight h')"
      by (intro chained_cong) (metis detached_table_def nth_list_update_neq)
    with False fl [OF h'] show ?thesis by (simp add: detached_vq_def)
  qed
  have "(\<Sum>h<?n. mset (?fl h)) + mset ?xs = (\<Sum>h<?n. mset (flight h))"
    using flight_update [OF h(1), of flight "[]"] by (simp only: mset.simps add_0_right)
  then have ms': "mset (?xs @ free) + (\<Sum>h<?n. mset (?fl h)) = mset [0..<?n]"
    unfolding ms [symmetric] mset_append by (simp only: ac_simps)
  have "vq_desc_state vq ! unat head \<in> set (vq_desc_state vq)"
    using wf h by (intro nth_mem) (simp add: vq_wf_def Let_def)
  then have "\<forall>s \<in> set (vq_desc_state ?vq). ds_indir s = 0"
    using wf by (auto simp: detached_vq_def vq_wf_def Let_def dest: subsetD [OF set_update_subset_insert])
  with wf t have wf': "vq_wf ?vq ?m"
    by (auto simp: vq_wf_def Let_def detached_vq_def detached_table_def)
  moreover have "the (m_desc ?m (vq_desc ?vq)) = ?t" "vq_num ?vq = vq_num vq" "vq_free_head ?vq = head"
    "vq_num_free ?vq = vq_num_free vq + word_of_nat (length ?xs)" "hd (?xs @ free) = unat head"
    using fl [OF h(1)] h(2) by (simp_all add: detached_vq_def)
  ultimately show ?thesis unfolding vq_inv_def Let_def
    using nf' lk' fl' ms' by (simp only:) blast
qed

lemma set_used_event_inv:
  assumes "vq_inv vq m free flight"
  shows "\<exists>m'. set_used_event (vq_vring vq) v m = Some m' \<and> vq_inv vq m' free flight \<and> m_used m' = m_used m \<and>
    m_byte m' = m_byte m \<and> a_ring (the (m_avail m' (vq_avail vq))) ! unat (vq_num vq) = v"
proof -
  from assms have wf: "vq_wf vq m" by (simp add: vq_inv_def)
  then obtain a where a: "m_avail m (vq_avail vq) = Some a" "length (a_ring a) = Suc (unat (vq_num vq))"
    by (rule vq_wfE)
  let ?m = "m\<lparr>m_avail := (m_avail m)(vq_avail vq \<mapsto> a\<lparr>a_ring := (a_ring a)[unat (vq_num vq) := v]\<rparr>)\<rparr>"
  have "set_used_event (vq_vring vq) v m = Some ?m" using a by (simp add: set_used_event_def)
  moreover have "vq_wf vq ?m" using wf a by (auto simp: vq_wf_def Let_def)
  with assms have "vq_inv vq ?m free flight" by (simp add: vq_inv_def)
  ultimately show ?thesis using a by auto
qed

lemma vq_inv_last_used [simp]: "vq_inv (vq\<lparr>vq_last_used_idx := i\<rparr>) m free flight = vq_inv vq m free flight"
  by (simp add: vq_inv_def vq_wf_def)

lemma flight_of_data:
  "vq_inv vq m free flight \<Longrightarrow> h < unat (vq_num vq) \<Longrightarrow> ds_data (vq_desc_state vq ! h) = Some tok \<Longrightarrow> flight h \<noteq> []"
  by (fastforce simp: vq_inv_def Let_def)

text \<open>
  C10: exposing a buffer of \<open>n\<close> scatter entries, with \<open>n\<close> descriptors free, takes exactly the first
  \<open>n\<close> descriptors of the free list, fills them with the entries in order as one chain that ends at the
  last of them, publishes the head at the next available index and records the token, and keeps the
  invariant; nothing else of the table changes.
\<close>

theorem virtqueue_add_spec:
  assumes inv: "vq_inv vq m free flight" and nb: "\<not> vq_broken vq"
    and sgl: "sgl = sg_list sgs out_sgs in_sgs" "out_sgs + in_sgs \<le> length sgs"
    and tot: "unat total_sg = length sgl" "sgl \<noteq> []" "length sgl \<le> length free"
    and na: "vq_num_added vq \<noteq> 65534"
    and t: "m_desc m (vq_desc vq) = Some t" and a: "m_avail m (vq_avail vq) = Some a"
  shows "\<exists>vq' m' t' a'.
    virtqueue_add dma kmalloc notify sgs total_sg out_sgs in_sgs (Some tok) vq m x = Some (0, vq', m', x) \<and>
    vq_inv vq' m' (drop (length sgl) free) (flight(hd free := take (length sgl) free)) \<and>
    m_desc m' (vq_desc vq) = Some t' \<and> m_avail m' (vq_avail vq) = Some a' \<and>
    (\<forall>k < length sgl. t' ! (free ! k) = added_desc (Suc k = length sgl) (sgl ! k) (t ! (free ! k))) \<and>
    (\<forall>j. j \<notin> set (take (length sgl) free) \<longrightarrow> t' ! j = t ! j) \<and>
    a' = a\<lparr>a_idx := a_idx a + 1, a_ring := (a_ring a)[unat (a_idx a) mod unat (vq_num vq) := word_of_nat (hd free)]\<rparr> \<and>
    vq_desc_state vq' = (vq_desc_state vq)[hd free := (vq_desc_state vq ! hd free)\<lparr>ds_data := Some tok\<rparr>]"
proof -
  obtain i where e: "virtqueue_add dma kmalloc notify sgs total_sg out_sgs in_sgs (Some tok) vq m x =
      Some (0, added_vq total_sg i tok vq, added_avail vq (put_desc (vq_desc vq) (added_table free sgl t) m), x)"
    and i: "length sgl < length free \<longrightarrow> unat i = free ! length sgl"
    using virtqueue_add_eq [OF inv nb sgl tot na t, of dma kmalloc notify tok x] by blast
  let ?m = "added_avail vq (put_desc (vq_desc vq) (added_table free sgl t) m)"
  from inv have wf: "vq_wf vq m" by (simp add: vq_inv_def)
  then obtain k where k: "k \<le> 15" "vq_num vq = 2 ^ k" "unat (vq_num vq) = 2 ^ k" "a_idx a = vq_avail_idx_shadow vq"
    "length t = unat (vq_num vq)"
    using a t by (elim vq_wfE) simp
  have fr: "distinct free" "set free \<subseteq> {..<length t}" "free \<noteq> []" "hd free = unat (vq_free_head vq)"
    using inv tot k(5) mset_upt_part [of free _ "unat (vq_num vq)"] by (auto simp: vq_inv_def Let_def)
  have "unat (ucast (a_idx a) AND (vq_num vq - 1) :: u32) = unat (a_idx a) mod unat (vq_num vq)"
    using k by (simp add: unat_and_pow2 unat_ucast_up)
  moreover have "(ucast (vq_free_head vq) :: u16) = word_of_nat (hd free)" using fr(4) by simp
  ultimately have "m_avail ?m (vq_avail vq) = Some (a\<lparr>a_idx := a_idx a + 1, a_ring :=
      (a_ring a)[unat (a_idx a) mod unat (vq_num vq) := word_of_nat (hd free)]\<rparr>)"
    using a k(4) by (simp add: added_avail_def Let_def)
  moreover have "m_desc ?m (vq_desc vq) = Some (added_table free sgl t)"
    by (simp add: added_avail_def Let_def)
  ultimately show ?thesis
    using e added_inv [OF inv tot t i] added_table_nth [OF fr(1,2) tot(3)] tot(2) fr(4)
    by (intro exI conjI) (assumption | simp add: added_vq_def)+
qed

lemma get_buf_eq:
  assumes inv: "vq_inv vq m free flight" and nb: "\<not> vq_broken vq"
    and u: "m_used m (vq_used vq) = Some u" "u_idx u \<noteq> vq_last_used_idx vq"
    and e: "e = u_ring u ! (unat (vq_last_used_idx vq) mod unat (vq_num vq))" and h: "h = unat (ue_id e)"
    and fl: "ue_id e < vq_num vq" "flight h \<noteq> []"
    and vq': "vq' = (detached_vq (ue_id e) (length (flight h)) vq)\<lparr>vq_last_used_idx := vq_last_used_idx vq + 1\<rparr>"
  shows "\<exists>tok m'. virtqueue_get_buf vq m = Some (Some tok, Some (ue_len e), vq', m') \<and>
    ds_data (vq_desc_state vq ! h) = Some tok \<and> vq_inv vq' m' (flight h @ free) (flight(h := [])) \<and>
    m_used m' = m_used m \<and> m_byte m' = m_byte m \<and>
    (vq_avail_flags_shadow vq AND VRING_AVAIL_F_NO_INTERRUPT = 0 \<longrightarrow>
       a_ring (the (m_avail m' (vq_avail vq))) ! unat (vq_num vq) = vq_last_used_idx vq + 1)"
proof -
  from inv have wf: "vq_wf vq m" by (simp add: vq_inv_def)
  then obtain k t where k: "k \<le> 15" "vq_num vq = 2 ^ k" "unat (vq_num vq) = 2 ^ k" "length (u_ring u) = unat (vq_num vq)"
    and t: "m_desc m (vq_desc vq) = Some t"
    using u by (elim vq_wfE) simp
  have ds: "length (vq_desc_state vq) = unat (vq_num vq)" using wf by (simp add: vq_wf_def Let_def)
  have pos: "unat (ucast (vq_last_used_idx vq) AND (vq_num vq - 1) :: u32) = unat (vq_last_used_idx vq) mod unat (vq_num vq)"
    using k by (simp add: unat_and_pow2 unat_ucast_up)
  have lt: "unat (vq_last_used_idx vq) mod unat (vq_num vq) < length (u_ring u)" using k by simp
  have more: "more_used vq m = Some True" using u by (simp add: more_used_def)
  have hn: "h < unat (vq_num vq)" using fl by (simp add: h word_less_nat_alt)
  with fl inv obtain tok where tok: "ds_data (vq_desc_state vq ! h) = Some tok"
    by (fastforce simp: vq_inv_def Let_def)
  note d = detach_buf_eq [OF inv t, of "ue_id e"] detached_inv [OF inv t, of "ue_id e"]
  let ?m = "put_desc (vq_desc vq) (detached_table (flight h) (vq_free_head vq) t) m"
  have i: "vq_inv vq' ?m (flight h @ free) (flight(h := []))" using d(2) fl hn h by (simp add: vq')
  have fr: "vq_vring vq' = vq_vring vq" "vq_avail_flags_shadow vq' = vq_avail_flags_shadow vq"
    by (simp_all add: vq')
  let ?quiet = "vq_avail_flags_shadow vq AND VRING_AVAIL_F_NO_INTERRUPT \<noteq> 0"
  obtain m1 where m1: "set_used_event (vq_vring vq) (vq_last_used_idx vq + 1) ?m = Some m1"
    "vq_inv vq' m1 (flight h @ free) (flight(h := []))" "m_used m1 = m_used m" "m_byte m1 = m_byte m"
    "a_ring (the (m_avail m1 (vq_avail vq))) ! unat (vq_num vq) = vq_last_used_idx vq + 1"
    using set_used_event_inv [OF i, of "vq_last_used_idx vq + 1"] unfolding fr by auto
  define m' where "m' = (if ?quiet then ?m else m1)"
  with m1 i have m': "(if \<not> ?quiet then set_used_event (vq_vring vq) (vq_last_used_idx vq + 1) ?m else Some ?m) = Some m'"
    "vq_inv vq' m' (flight h @ free) (flight(h := []))" "m_used m' = m_used m" "m_byte m' = m_byte m"
    "\<not> ?quiet \<longrightarrow> a_ring (the (m_avail m' (vq_avail vq))) ! unat (vq_num vq) = vq_last_used_idx vq + 1"
    by (auto simp: m'_def)
  have "virtqueue_get_buf vq m = Some (Some tok, Some (ue_len e), vq', m')"
    using nb more u(1) lt e d(1) fl hn h tok ds m'(1) fr
    by (simp add: virtqueue_get_buf_def pos Let_def not_le vq' split: if_splits)
  with tok m' show ?thesis by auto
qed

lemma get_buf_bad:
  assumes inv: "vq_inv vq m free flight" and nb: "\<not> vq_broken vq"
    and u: "m_used m (vq_used vq) = Some u" "u_idx u \<noteq> vq_last_used_idx vq"
    and e: "e = u_ring u ! (unat (vq_last_used_idx vq) mod unat (vq_num vq))"
    and bad: "\<not> (ue_id e < vq_num vq \<and> flight (unat (ue_id e)) \<noteq> [])"
  shows "virtqueue_get_buf vq m = Some (None, Some (ue_len e), vq\<lparr>vq_broken := True\<rparr>, m)"
proof -
  from inv have wf: "vq_wf vq m" by (simp add: vq_inv_def)
  then obtain k where k: "k \<le> 15" "vq_num vq = 2 ^ k" "unat (vq_num vq) = 2 ^ k" "length (u_ring u) = unat (vq_num vq)"
    using u by (elim vq_wfE) simp
  have ds: "length (vq_desc_state vq) = unat (vq_num vq)" using wf by (simp add: vq_wf_def Let_def)
  have pos: "unat (ucast (vq_last_used_idx vq) AND (vq_num vq - 1) :: u32) = unat (vq_last_used_idx vq) mod unat (vq_num vq)"
    using k by (simp add: unat_and_pow2 unat_ucast_up)
  have "ue_id e < vq_num vq \<Longrightarrow> ds_data (vq_desc_state vq ! unat (ue_id e)) = None"
    using inv bad by (auto simp: vq_inv_def Let_def word_less_nat_alt)
  moreover have "ue_id e < vq_num vq \<Longrightarrow> unat (ue_id e) < length (vq_desc_state vq)"
    by (simp add: ds word_less_nat_alt)
  moreover have "more_used vq m = Some True" using u by (simp add: more_used_def)
  moreover have "unat (vq_last_used_idx vq) mod unat (vq_num vq) < length (u_ring u)" using k by simp
  ultimately show ?thesis using bad nb u(1) e
    by (cases "ue_id e < vq_num vq") (simp_all add: virtqueue_get_buf_def pos Let_def not_le)
qed

text \<open>
  C11: taking the next used buffer. When the element names the head of a buffer in flight, the driver
  gets back exactly the token it exposed the buffer with and the length of the element, the
  descriptors of the chain return to the front of the free list, the next used index is expected
  and, with interrupts wanted, asked for; the invariant is kept. An element that names no such head
  marks the queue broken and returns nothing.
\<close>

theorem virtqueue_get_buf_spec:
  assumes inv: "vq_inv vq m free flight" and nb: "\<not> vq_broken vq"
    and u: "m_used m (vq_used vq) = Some u" "u_idx u \<noteq> vq_last_used_idx vq"
    and e: "e = u_ring u ! (unat (vq_last_used_idx vq) mod unat (vq_num vq))" and h: "h = unat (ue_id e)"
  shows "if ue_id e < vq_num vq \<and> flight h \<noteq> [] then
      (\<exists>tok vq' m'. virtqueue_get_buf vq m = Some (Some tok, Some (ue_len e), vq', m') \<and>
         ds_data (vq_desc_state vq ! h) = Some tok \<and> vq_inv vq' m' (flight h @ free) (flight(h := [])) \<and>
         vq_last_used_idx vq' = vq_last_used_idx vq + 1 \<and>
         (vq_avail_flags_shadow vq AND VRING_AVAIL_F_NO_INTERRUPT = 0 \<longrightarrow>
            a_ring (the (m_avail m' (vq_avail vq))) ! unat (vq_num vq) = vq_last_used_idx vq + 1))
    else virtqueue_get_buf vq m = Some (None, Some (ue_len e), vq\<lparr>vq_broken := True\<rparr>, m)"
proof (cases "ue_id e < vq_num vq \<and> flight h \<noteq> []")
  case True
  then show ?thesis using get_buf_eq [OF inv nb u e h _ _ refl] by auto
next
  case False
  then show ?thesis using get_buf_bad [OF inv nb u e] h by auto
qed

section \<open>A new queue\<close>

lemma linked_upt:
  "(\<And>i. Suc i < b \<Longrightarrow> unat (d_next (t ! i)) = Suc i) \<Longrightarrow> linked t [a..<b]"
proof (induction "b - a" arbitrary: a)
  case (Suc n)
  then have "[a..<b] = a # [Suc a..<b]" by (simp add: upt_conv_Cons)
  moreover have "linked t [Suc a..<b]" using Suc by simp
  ultimately show ?case using Suc.prems [of a]
    by (cases "Suc a < b") (auto simp: upt_conv_Cons)
qed simp

lemma new_virtqueue_inv:
  assumes k: "k \<le> 15" "vr_num vr = 2 ^ k"
    and f: "\<not> bit features VIRTIO_RING_F_INDIRECT_DESC" "\<not> bit features VIRTIO_F_IOMMU_PLATFORM"
  shows "\<exists>(vq :: 'a vring_virtqueue) m'. vring_new_virtqueue_inner True index vr features callback (place_ring vr m) = Some (Some vq, m') \<and>
    vq_inv vq m' [0..<2 ^ k] (\<lambda>_. []) \<and> vq_vring vq = vr \<and> \<not> vq_broken vq \<and> vq_num_added vq = 0 \<and> vq_index vq = index \<and>
    vq_last_used_idx vq = 0 \<and> vq_avail_idx_shadow vq = 0"
proof -
  have n: "unat (2 ^ k :: u32) = 2 ^ k" using k(1) by (simp add: unat_pow2_word)
  have n16: "(2 :: nat) ^ k \<le> 2 ^ 15" using k(1) power_increasing [of k 15 "2 :: nat"] by simp
  have "(2 ^ k :: u32) \<noteq> 0" using n by (metis unat_0 power_not_zero zero_neq_numeral)
  then have n1: "Suc (unat (2 ^ k - 1 :: u32)) = 2 ^ k" using n by (simp add: unat_minus_one)
  then have le: "unat (2 ^ k - 1 :: u32) < 2 ^ k" by linarith
  define t where "t = link_free (2 ^ k) (replicate (2 ^ k) \<lparr>d_addr = 0, d_len = 0, d_flags = 0, d_next = 0\<rparr>)"
  have "unat (d_next (t ! i)) = Suc i" if "Suc i < 2 ^ k" for i
  proof -
    have "unat (word_of_nat (Suc i) :: u16) = Suc i" by (rule unat_eqI [OF refl]) (use that n16 in simp)
    with that show ?thesis by (simp add: t_def link_free_def less_diff_conv)
  qed
  then have lk: "linked t [0..<2 ^ k]" by (rule linked_upt)
  have len: "length t = 2 ^ k" by (simp add: t_def link_free_def)
  have hd: "hd [0..<2 ^ k] = (0 :: nat)" by (simp add: hd_upt)
  show ?thesis
    using k f n n1 le lk len hd
    by (cases "callback \<or> bit features 29")
      (auto simp: vring_new_virtqueue_inner_def place_ring_def Let_def avail_upd_def t_def [symmetric]
        vq_inv_def vq_wf_def vring_use_dma_api_def)
qed

lemma create_virtqueue_inv:
  assumes "k \<le> 15" "\<not> bit features VIRTIO_RING_F_INDIRECT_DESC" "\<not> bit features VIRTIO_F_IOMMU_PLATFORM"
    and "block = alloc (vring_size (2 ^ k) align)" "block \<noteq> 0"
  shows "\<exists>(vq :: 'a vring_virtqueue) m'. vring_create_virtqueue alloc True index (2 ^ k) align features callback m = Some (Some vq, m') \<and>
    vq_inv vq m' [0..<2 ^ k] (\<lambda>_. []) \<and> vq_vring vq = vring_init (2 ^ k) block align \<and> \<not> vq_broken vq \<and>
    virtqueue_get_vring_size vq = 2 ^ k \<and> virtqueue_get_desc_addr vq = Some (vq_desc vq) \<and>
    virtqueue_get_avail_addr vq = Some (vq_avail vq) \<and> virtqueue_get_used_addr vq = Some (vq_used vq) \<and>
    vq_index vq = index \<and> vq_num_added vq = 0 \<and> vq_last_used_idx vq = 0 \<and> vq_avail_idx_shadow vq = 0"
proof -
  have n: "unat (2 ^ k :: u32) = 2 ^ k" using assms(1) by (simp add: unat_pow2_word)
  then have nz: "(2 ^ k :: u32) \<noteq> 0" by (metis unat_0 power_not_zero zero_neq_numeral)
  have p2: "2 ^ k AND (2 ^ k - 1) = (0 :: u32)" by (rule bit_word_eqI) (auto simp: and_pow2_minus_1 bit_simps)
  let ?vr = "vring_init (2 ^ k) block align"
  have vr: "vr_num ?vr = 2 ^ k" "vr_desc ?vr = block" by (simp_all add: vring_init_def Let_def)
  obtain vq m' where q: "vring_new_virtqueue_inner True index ?vr features callback (place_ring ?vr m) = Some (Some (vq :: 'a vring_virtqueue), m')"
    and inv: "vq_inv vq m' [0..<2 ^ k] (\<lambda>_. [])" "vq_vring vq = ?vr" "\<not> vq_broken vq"
      "vq_index vq = index" "vq_num_added vq = 0" "vq_last_used_idx vq = 0" "vq_avail_idx_shadow vq = 0"
    using new_virtqueue_inv [of k ?vr features index callback m] assms(1-3) vr by blast
  let ?vq = "vq\<lparr>vq_queue_dma_addr := block, vq_queue_size_in_bytes := ucast (vring_size (2 ^ k) align), vq_we_own_ring := True\<rparr>"
  have "vring_create_virtqueue alloc True index (2 ^ k) align features callback m = Some (Some ?vq, m')"
    using assms(4,5) q nz by (simp add: vring_create_virtqueue_def p2 shrink_ring.simps [of alloc align "2 ^ k"])
  moreover have "vq_inv ?vq m' [0..<2 ^ k] (\<lambda>_. [])" using inv(1) by (simp add: vq_inv_def vq_wf_def)
  ultimately show ?thesis using inv vr
    by (intro exI [of _ ?vq] exI [of _ m']) (simp add: virtqueue_get_vring_size_def virtqueue_get_desc_addr_def virtqueue_get_avail_addr_def virtqueue_get_used_addr_def)
qed

text \<open>
  C20: a queue of \<open>2 ^ k\<close> entries, for a device that offers neither indirect descriptors nor an
  IOMMU, starts with the invariant: every descriptor is free, in order, and no buffer is in flight;
  the addresses the driver gives to the device are those of the ring it works on.
\<close>

theorem vring_create_virtqueue_spec:
  assumes "k \<le> 15" "\<not> bit features VIRTIO_RING_F_INDIRECT_DESC" "\<not> bit features VIRTIO_F_IOMMU_PLATFORM"
    and "block = alloc (vring_size (2 ^ k) align)" "block \<noteq> 0"
  shows "\<exists>(vq :: 'a vring_virtqueue) m'. vring_create_virtqueue alloc True index (2 ^ k) align features callback m = Some (Some vq, m') \<and>
    vq_inv vq m' [0..<2 ^ k] (\<lambda>_. []) \<and> vq_vring vq = vring_init (2 ^ k) block align \<and> \<not> vq_broken vq \<and>
    virtqueue_get_vring_size vq = 2 ^ k \<and> virtqueue_get_desc_addr vq = Some (vq_desc vq) \<and>
    virtqueue_get_avail_addr vq = Some (vq_avail vq) \<and> virtqueue_get_used_addr vq = Some (vq_used vq)"
  using create_virtqueue_inv [of k features block alloc align index callback m] assms by blast

section \<open>A small queue\<close>

definition no_mem :: vmem where
  "no_mem = \<lparr>m_desc = (\<lambda>_. None), m_avail = (\<lambda>_. None), m_used = (\<lambda>_. None), m_byte = (\<lambda>_. 0)\<rparr>"

lemma small_layout:
  "vring_init 4 0x10000 4096 = \<lparr>vr_num = 4, vr_desc = 0x10000, vr_avail = 0x10040, vr_used = 0x11000\<rparr>"
  "\<not> bit (0x120000000 :: u64) 28" "\<not> bit (0x120000000 :: u64) 33"
  by code_simp+

theorem vring_create_virtqueue_spec_witness:
  "\<exists>vq m'. vring_create_virtqueue (\<lambda>_. 0x10000) True 0 4 4096 0x120000000 True no_mem = Some (Some vq, m') \<and>
    vq_inv (vq :: nat vring_virtqueue) m' [0..<4] (\<lambda>_. []) \<and> vq_desc vq = 0x10000 \<and>
    virtqueue_get_avail_addr vq = Some 0x10040"
proof -
  have "\<exists>(vq :: nat vring_virtqueue) m'. vring_create_virtqueue (\<lambda>_. 0x10000) True 0 (2 ^ 2) 4096 0x120000000 True no_mem = Some (Some vq, m') \<and>
      vq_inv vq m' [0..<2 ^ 2] (\<lambda>_. []) \<and> vq_vring vq = vring_init (2 ^ 2) 0x10000 4096 \<and> \<not> vq_broken vq \<and>
      virtqueue_get_vring_size vq = 2 ^ 2 \<and> virtqueue_get_desc_addr vq = Some (vq_desc vq) \<and>
      virtqueue_get_avail_addr vq = Some (vq_avail vq) \<and> virtqueue_get_used_addr vq = Some (vq_used vq)"
    by (rule vring_create_virtqueue_spec) (simp_all only: small_layout, simp_all)
  then obtain vq :: "nat vring_virtqueue" and m' where
    "vring_create_virtqueue (\<lambda>_. 0x10000) True 0 4 4096 0x120000000 True no_mem = Some (Some vq, m')"
    "vq_inv vq m' [0..<4] (\<lambda>_. [])" "vq_vring vq = vring_init 4 0x10000 4096"
    "virtqueue_get_avail_addr vq = Some (vq_avail vq)"
    by (auto simp del: upt_rec_numeral)
  then show ?thesis by (auto simp: small_layout(1) simp del: upt_rec_numeral)
qed

text \<open>Four descriptors: the first two hold a buffer with token 7, the device has used it.\<close>

definition small_ring :: vring where
  "small_ring = \<lparr>vr_num = 4, vr_desc = 0x1000, vr_avail = 0x2000, vr_used = 0x3000\<rparr>"

definition small_vq :: "nat vring_virtqueue" where
  "small_vq = \<lparr>vq_index = 0, vq_num_free = 2, vq_callback = True, vq_features = 0, vq_vring = small_ring,
     vq_broken = False, vq_indirect = False, vq_event = True, vq_free_head = 2, vq_num_added = 0,
     vq_last_used_idx = 0, vq_avail_flags_shadow = 0, vq_avail_idx_shadow = 1, vq_we_own_ring = True,
     vq_queue_size_in_bytes = 0, vq_queue_dma_addr = 0x1000,
     vq_desc_state = [\<lparr>ds_data = Some 7, ds_indir = 0\<rparr>, \<lparr>ds_data = None, ds_indir = 0\<rparr>,
       \<lparr>ds_data = None, ds_indir = 0\<rparr>, \<lparr>ds_data = None, ds_indir = 0\<rparr>], vq_unmaps = []\<rparr>"

definition small_table :: "vring_desc list" where
  "small_table = [\<lparr>d_addr = 0x5000, d_len = 16, d_flags = 1, d_next = 1\<rparr>, \<lparr>d_addr = 0x6000, d_len = 512, d_flags = 2, d_next = 2\<rparr>,
     \<lparr>d_addr = 0, d_len = 0, d_flags = 0, d_next = 3\<rparr>, \<lparr>d_addr = 0, d_len = 0, d_flags = 0, d_next = 0\<rparr>]"

definition small_mem :: vmem where
  "small_mem = \<lparr>m_desc = [0x1000 \<mapsto> small_table],
     m_avail = [0x2000 \<mapsto> \<lparr>a_flags = 0, a_idx = 1, a_ring = [0, 0, 0, 0, 0]\<rparr>],
     m_used = [0x3000 \<mapsto> \<lparr>u_flags = 0, u_idx = 1, u_ring = replicate 4 \<lparr>ue_id = 0, ue_len = 0\<rparr>, u_avail_event = 1\<rparr>],
     m_byte = (\<lambda>_. 0)\<rparr>"

definition small_flight :: "nat \<Rightarrow> nat list" where
  "small_flight h = (if h = 0 then [0, 1] else [])"

lemma small_inv: "vq_inv small_vq small_mem [2, 3] small_flight"
proof -
  have "vq_wf small_vq small_mem"
    unfolding vq_wf_def Let_def
    by (intro conjI exI [of _ "2 :: nat"]) (simp_all add: small_vq_def small_ring_def small_mem_def small_table_def vring_use_dma_api_def)
  moreover have "(\<Sum>h<4. mset (small_flight h)) = {#0, 1#}"
    by (simp add: small_flight_def numeral_eq_Suc)
  moreover have "mset [0..<4] = {#0, 1, 2, 3#}" by (simp add: numeral_eq_Suc)
  moreover have "(\<forall>h<4. P h) \<longleftrightarrow> P 0 \<and> P 1 \<and> P 2 \<and> P (3 :: nat)" for P
    by (auto simp: numeral_eq_Suc less_Suc_eq)
  ultimately show ?thesis
    by (simp add: vq_inv_def Let_def small_vq_def small_ring_def small_mem_def small_table_def small_flight_def)
qed

lemma small_facts:
  "\<not> vq_broken small_vq" "vq_num_added small_vq \<noteq> 65534" "m_desc small_mem (vq_desc small_vq) = Some small_table"
  "m_avail small_mem (vq_avail small_vq) = Some \<lparr>a_flags = 0, a_idx = 1, a_ring = [0, 0, 0, 0, 0]\<rparr>"
  "m_used small_mem (vq_used small_vq) = Some \<lparr>u_flags = 0, u_idx = 1, u_ring = replicate 4 \<lparr>ue_id = 0, ue_len = 0\<rparr>, u_avail_event = 1\<rparr>"
  "vq_last_used_idx small_vq = 0" "vq_num small_vq = 4" "ds_data (vq_desc_state small_vq ! 0) = Some 7"
  by (simp_all add: small_vq_def small_ring_def small_mem_def)

definition small_sgs :: "scatter list list" where
  "small_sgs = [[\<lparr>sg_phys = 0x7000, sg_length = 16\<rparr>], [\<lparr>sg_phys = 0x8000, sg_length = 1\<rparr>]]"

theorem virtqueue_add_spec_witness:
  "\<exists>vq' m'. virtqueue_add \<lparr>dma_map = \<lambda>a _ _. a, dma_mapping_error = \<lambda>_. False\<rparr> (\<lambda>_. 0) (\<lambda>_ _. None) small_sgs
      2 1 1 (Some 9) small_vq small_mem () = Some (0, vq', m', ()) \<and>
    vq_inv vq' m' [] (small_flight(2 := [2, 3]))"
proof -
  have l: "length (sg_list small_sgs 1 1) = 2" "sg_list small_sgs 1 1 \<noteq> []" "1 + 1 \<le> length small_sgs"
    by (simp_all add: sg_list_def small_sgs_def)
  obtain vq' m' where
    "virtqueue_add \<lparr>dma_map = \<lambda>a _ _. a, dma_mapping_error = \<lambda>_. False\<rparr> (\<lambda>_. 0) (\<lambda>_ _. None) small_sgs
       2 1 1 (Some 9) small_vq small_mem () = Some (0, vq', m', ())"
    "vq_inv vq' m' (drop (length (sg_list small_sgs 1 1)) [2, 3]) (small_flight(hd [2, 3] := take (length (sg_list small_sgs 1 1)) [2, 3]))"
    using virtqueue_add_spec [OF small_inv small_facts(1) refl l(3) _ l(2) _ small_facts(2-4), of 2] l(1) by force
  then show ?thesis unfolding l(1) by auto
qed

theorem virtqueue_get_buf_spec_witness:
  "\<exists>vq' m'. virtqueue_get_buf small_vq small_mem = Some (Some 7, Some 0, vq', m') \<and>
    vq_inv vq' m' [0, 1, 2, 3] (small_flight(0 := []))"
proof -
  have f: "small_flight 0 = [0, 1]" by (simp add: small_flight_def)
  from virtqueue_get_buf_spec [OF small_inv small_facts(1,5), of "\<lparr>ue_id = 0, ue_len = 0\<rparr>" 0]
  show ?thesis by (auto simp: small_facts f)
qed

end
