(* ===== verification/Virtio_Mmio_Spec.thy ===== *)
theory Virtio_Mmio_Spec
  imports Virtio_Mmio Virtqueue_Inv
begin

text \<open>
  The memory-mapped driver against the registers of the device: what each sequence of register
  accesses of \<open>virtio_mmio.c\<close> does to the device at the other end of the bus.
\<close>

section \<open>A device on the bus\<close>

text \<open>Every address of the region at \<open>b\<close> reaches the virtio device at \<open>data\<close>.\<close>

definition on_bus :: "'d bus \<Rightarrow> addr \<Rightarrow> addr \<Rightarrow> int \<Rightarrow> bool" where
  "on_bus rs b data sz \<longleftrightarrow> iomem_wf rs \<and> 0x100 \<le> sz \<and> sz < 2 ^ 24 \<and>
     (\<forall>off. 0 \<le> off \<and> off < 2 ^ 24 \<longrightarrow> iomem_target rs (b + word_of_int off) = Some (virtio_ops, data, sz, off))"

definition put_dev :: "addr \<Rightarrow> virtio_dev \<Rightarrow> 'd virtio_dev_ops \<Rightarrow> 'd vworld \<Rightarrow> 'd bus_world \<Rightarrow> 'd bus_world" where
  "put_dev data dev ops vw w = w\<lparr>bw_devs := (bw_devs w)(data \<mapsto> (dev, ops)), bw_world := vw\<rparr>"

lemma put_dev_simps [simp]:
  "bw_devs (put_dev data dev ops vw w) data = Some (dev, ops)"
  "bw_world (put_dev data dev ops vw w) = vw"
  "put_dev data dev ops vw (put_dev data dev' ops' vw' w) = put_dev data dev ops vw w"
  "data' \<noteq> data \<Longrightarrow> bw_devs (put_dev data dev ops vw w) data' = bw_devs w data'"
  by (simp_all add: put_dev_def)

lemma put_dev_same: "bw_devs w data = Some (dev, ops) \<Longrightarrow> put_dev data dev ops (bw_world w) w = w"
  by (simp add: put_dev_def fun_upd_idem)

lemma set_mem_put_dev [simp]:
  "set_mem m (put_dev data dev ops vw w) = put_dev data dev ops (vw\<lparr>w_mem := m\<rparr>) w"
  by (simp add: put_dev_def set_mem_def)

lemma set_mem_simps [simp]:
  "bw_devs (set_mem m w) = bw_devs w" "bus_mem (set_mem m w) = m" "set_mem (bus_mem w) w = w"
  "set_mem m (set_mem m' w) = set_mem m w"
  by (simp_all add: set_mem_def)

lemma register_on_bus:
  assumes "iomem_wf rs" "iomem_room rs" "register_iomem rs data sz virtio_ops = (b, rs')" "b \<noteq> 0" "0x100 \<le> sz" "sz < 2 ^ 24"
  shows "on_bus rs' b data sz"
  using assms iomem.reg_target [OF assms(1-4)] register_iomem_wf [OF assms(1,3)]
  by (simp add: on_bus_def)

lemma le_bytes_4: "word_of_nat (le_val (le_bytes 4 (unat v))) = (v :: u32)"
  by (rule le_val_word) simp

text \<open>A 32-bit access of a register is the read or write of the register by the device.\<close>

lemma on_bus_access:
  assumes "on_bus rs b data sz" "0 \<le> off" "off + 4 \<le> sz"
  shows "lkl_iomem_access rs (b + word_of_int off) res 4 wr w =
    (if wr then map_option (\<lambda>(ret, w'). (ret, res, w')) (ops_write virtio_ops data off res 4 w)
     else ops_read virtio_ops data off res 4 w)"
  using assms lkl_iomem_access_target [of rs "b + word_of_int off" virtio_ops data sz off 4 res wr w]
  by (simp add: on_bus_def)

lemma readl_on_bus:
  assumes "on_bus rs b data sz" "bw_devs w data = Some (dev, ops)" "0 \<le> off" "off < 0x100" "off + 4 \<le> 0x100"
  shows "readl rs (b + word_of_int off) w = do {
    v \<leftarrow> virtio_read_reg dev off;
    case v of Inl e \<Rightarrow> None | Inr v \<Rightarrow> Some (v, w)
  }"
proof -
  have "off + 4 \<le> sz" using assms by (simp add: on_bus_def)
  note on_bus_access [OF assms(1,3) this, of "replicate 4 0" False w]
  moreover have "Inl e \<in> ran (\<lambda>_ :: unit. virtio_read_reg dev off) \<Longrightarrow> e = - 1" for e
    by (auto simp: virtio_read_reg_def ran_def split: if_splits bind_splits)
  ultimately show ?thesis using assms
    by (auto simp: readl_def iomem_read_def virtio_ops_def virtio_read_def memcpy_def le_bytes_4 ran_def
        split: option.splits sum.splits bind_splits)
qed

lemma writel_on_bus:
  assumes "on_bus rs b data sz" "bw_devs w data = Some (dev, ops)" "0 \<le> off" "off + 4 \<le> 0x100"
  shows "writel rs v (b + word_of_int off) w =
    map_option (\<lambda>(ret, dev', vw). put_dev data dev' ops vw w) (virtio_write_reg ops dev off v (bw_world w))"
proof -
  have "off + 4 \<le> sz" using assms by (simp add: on_bus_def)
  note on_bus_access [OF assms(1,3) this, of "le_bytes 4 (unat v)" True w]
  then show ?thesis using assms
    by (auto simp: writel_def iomem_write_def virtio_ops_def virtio_write_def le_bytes_4 put_dev_def
        split: option.splits bind_splits)
qed

lemma readl_reg:
  assumes "on_bus rs b data sz" "0 \<le> off" "off + 4 \<le> 0x100"
  shows "readl rs (reg_addr b off) w = (case bw_devs w data of
      None \<Rightarrow> None
    | Some (dev, ops) \<Rightarrow> (case virtio_read_reg dev off of Some (Inr v) \<Rightarrow> Some (v, w) | _ \<Rightarrow> None))"
proof (cases "bw_devs w data")
  case None
  have "off + 4 \<le> sz" using assms by (simp add: on_bus_def)
  from on_bus_access [OF assms(1,2) this] None show ?thesis
    by (simp add: reg_addr_def readl_def iomem_read_def virtio_ops_def)
next
  case (Some p)
  then show ?thesis using readl_on_bus [OF assms(1) _ assms(2) _ assms(3), of w "fst p" "snd p"] assms(3)
    by (cases p) (auto simp: reg_addr_def split: option.splits sum.splits bind_splits)
qed

lemma writel_reg:
  assumes "on_bus rs b data sz" "0 \<le> off" "off + 4 \<le> 0x100"
  shows "writel rs v (reg_addr b off) w = (case bw_devs w data of
      None \<Rightarrow> None
    | Some (dev, ops) \<Rightarrow>
        map_option (\<lambda>(ret, dev', vw). put_dev data dev' ops vw w) (virtio_write_reg ops dev off v (bw_world w)))"
proof (cases "bw_devs w data")
  case None
  have "off + 4 \<le> sz" using assms by (simp add: on_bus_def)
  from on_bus_access [OF assms(1,2) this] None show ?thesis
    by (simp add: reg_addr_def writel_def iomem_write_def virtio_ops_def)
next
  case (Some p)
  then show ?thesis using writel_on_bus [OF assms(1) _ assms(2,3), of w "fst p" "snd p"] by (cases p) (simp add: reg_addr_def)
qed

section \<open>Features\<close>

lemma features_halves: "push_bit 32 (ucast (ucast (drop_bit 32 f) :: u32)) OR ucast (ucast f :: u32) = (f :: u64)"
  by (rule bit_word_eqI) (auto simp: bit_simps)

lemma vm_get_features_on_bus:
  assumes "on_bus rs (vm_base d) data sz" "bw_devs w data = Some (dev, ops)"
  shows "vm_get_features rs d w =
    Some (device_features dev, put_dev data (dev\<lparr>device_features_sel := 0\<rparr>) ops (bw_world w) w)"
  using assms(2)
  by (simp add: vm_get_features_def readl_reg [OF assms(1)] writel_reg [OF assms(1)] virtio_read_reg_def
      virtio_write_reg_def virtio_read_device_features_def features_halves)

lemma write_driver_features:
  "virtio_write_driver_features (ucast f)
     ((virtio_write_driver_features (ucast (drop_bit 32 f)) (dev\<lparr>driver_features_sel := 1\<rparr>))\<lparr>driver_features_sel := 0\<rparr>) =
   dev\<lparr>driver_features_sel := 0, driver_features := f\<rparr>"
  using set_ptr_halves(2) [of f "driver_features dev"]
  by (simp add: virtio_write_driver_features_def set_ptr_low_def set_ptr_high_def)

lemma vm_finalize_features_on_bus:
  assumes "on_bus rs (vm_base d) data sz" "bw_devs w data = Some (dev, ops)"
    and f: "f = vring_transport_features (vd_features d)"
  shows "vm_finalize_features rs d w =
    (if vm_version d = 2 \<and> \<not> bit f 32 then Some (- EINVAL, d\<lparr>vd_features := f\<rparr>, w)
     else Some (0, d\<lparr>vd_features := f\<rparr>,
       put_dev data (dev\<lparr>driver_features_sel := 0, driver_features := f\<rparr>) ops (bw_world w) w))"
  using assms(2) write_driver_features [of f dev]
  by (simp add: vm_finalize_features_def writel_reg [OF assms(1)] virtio_write_reg_def f [symmetric] Let_def)

lemma and_8_iff: "(x :: 'a::len word) AND 8 = 0 \<longleftrightarrow> \<not> bit x 3"
  using and_exp_eq_0_iff_not_bit [of x 3] by simp

lemma bit_set_status_3:
  "bit v 3 \<Longrightarrow> bit (status (set_status ops v dev)) 3 \<longleftrightarrow>
    bit (driver_features dev) 32 \<and> bit (driver_features dev) 29 \<and> op_check_features ops dev = 0"
  by (auto simp: set_status_def and_8_iff bit_and_iff bit_not_iff bit_numeral_rec)

lemma vm_status_on_bus:
  assumes "on_bus rs (vm_base d) data sz" "bw_devs w data = Some (dev, ops)"
  shows "vm_get_status rs d w = Some (ucast (status dev AND 0xff), w)"
    and "s \<noteq> 0 \<Longrightarrow> vm_set_status rs d s w = Some (put_dev data (set_status ops (ucast s) dev) ops (bw_world w) w)"
    and "vm_reset rs d w = Some (put_dev data (set_status ops 0 dev) ops (bw_world w) w)"
  using assms(2)
  by (simp_all add: vm_get_status_def vm_set_status_def vm_reset_def readl_reg [OF assms(1)] writel_reg [OF assms(1)]
      virtio_read_reg_def virtio_write_reg_def)

text \<open>
  C32: negotiation ends in agreement or in a reported failure. Through the registers the bus hands the
  device the features that remain after the transport's filter and asks for them to be confirmed. It
  gets 0 exactly when the device has version 1 and event indices among them and accepts the set, and
  then the device holds exactly these features and shows them confirmed; otherwise the error says
  which side refused, and the device does not show them confirmed.
\<close>

theorem finalize_features_agreement:
  assumes on: "on_bus rs (vm_base d) data sz" and dev: "bw_devs w data = Some (dev, ops)" and v2: "vm_version d = 2"
    and f: "f = vring_transport_features (vd_features d)"
    and ok: "ok \<longleftrightarrow> bit f 29 \<and> op_check_features ops (dev\<lparr>driver_features_sel := 0, driver_features := f\<rparr>) = 0"
  shows "if bit f 32 then
      (\<exists>dev' w'. virtio_finalize_features (virtio_mmio_config_ops rs al e) d w =
           Some (if ok then 0 else - ENODEV, d\<lparr>vd_features := f\<rparr>, w') \<and>
         bw_devs w' data = Some (dev', ops) \<and> driver_features dev' = f \<and> (bit (status dev') 3 \<longleftrightarrow> ok) \<and>
         bw_world w' = bw_world w)
    else virtio_finalize_features (virtio_mmio_config_ops rs al e) d w = Some (- EINVAL, d\<lparr>vd_features := f\<rparr>, w)"
proof (cases "bit f 32")
  case False
  then show ?thesis
    using vm_finalize_features_on_bus [OF on dev f] v2
    by (simp add: virtio_finalize_features_def virtio_mmio_config_ops_def)
next
  case True
  let ?d = "d\<lparr>vd_features := f\<rparr>" and ?dev = "dev\<lparr>driver_features_sel := 0, driver_features := f\<rparr>"
  let ?w = "put_dev data ?dev ops (bw_world w) w"
  define s where "s = (ucast (status dev AND 0xff) OR 8 :: u8)"
  have s3: "bit s 3" by (simp add: s_def bit_or_iff bit_numeral_rec)
  then have "s \<noteq> 0" by auto
  let ?dev' = "set_status ops (ucast s) ?dev" and ?w' = "put_dev data (set_status ops (ucast s) ?dev) ops (bw_world w) w"
  have st: "bit (status ?dev') 3 \<longleftrightarrow> ok"
    using s3 True ok bit_set_status_3 [of "ucast s" ops ?dev] by (simp add: bit_simps)
  have on': "on_bus rs (vm_base ?d) data sz" and dev1: "bw_devs ?w data = Some (?dev, ops)"
    and dev': "bw_devs ?w' data = Some (?dev', ops)" using on by simp_all
  have get: "vm_get_status rs ?d ?w = Some (ucast (status dev AND 0xff), ?w)"
    and set: "vm_set_status rs ?d s ?w = Some ?w'"
    and get': "vm_get_status rs ?d ?w' = Some (ucast (status ?dev' AND 0xff), ?w')"
    using vm_status_on_bus [OF on' dev1] vm_status_on_bus(1) [OF on' dev'] \<open>s \<noteq> 0\<close> by simp_all
  have "(ucast (status ?dev' AND 0xff) AND 8 = (0 :: u8)) \<longleftrightarrow> \<not> ok"
    using st by (simp add: and_8_iff bit_simps bit_numeral_rec)
  then have "virtio_finalize_features (virtio_mmio_config_ops rs al e) d w = Some (if ok then 0 else - ENODEV, ?d, ?w')"
    using vm_finalize_features_on_bus [OF on dev f] True get set get'
    by (simp add: virtio_finalize_features_def virtio_mmio_config_ops_def add_status_def s_def)
  moreover have "driver_features ?dev' = f" by (simp add: set_status_def)
  ultimately show ?thesis using True st dev' by (intro if_P [THEN iffD2]) auto
qed

section \<open>Queues\<close>

lemma vm_activate_on_bus:
  assumes "on_bus rs (vm_base d) data sz" "bw_devs w data = Some (dev, ops)" "vm_version d = 2"
    and i: "unat (queue_sel dev) < length (queue dev)"
    and vq: "virtqueue_get_desc_addr vq = Some a1" "virtqueue_get_avail_addr vq = Some a2" "virtqueue_get_used_addr vq = Some a3"
  shows "vm_activate rs d vq w = Some (put_dev data (dev\<lparr>queue := (queue dev)[unat (queue_sel dev) :=
      (queue dev ! unat (queue_sel dev))\<lparr>num := vq_num vq, q_desc := a1, q_avail := a2, q_used := a3, ready := 1\<rparr>]\<rparr>)
      ops (bw_world w) w)"
  using assms(2-)
  by (simp add: vm_activate_def writel_reg [OF assms(1)] virtio_write_reg_def upd_queue_def
      virtqueue_get_vring_size_def set_ptr_halves)

text \<open>
  C33: setting up a queue on a free slot of the device, with the allocations succeeding, leaves the two
  sides looking at the same ring: the device's queue has the size and the three addresses of the
  driver's ring and is ready, the driver's queue satisfies its invariant with every descriptor free,
  and the device can work on the memory behind it. The other queues of the device are not touched.
\<close>

theorem vm_setup_vq_spec:
  assumes on: "on_bus rs (vm_base d) data sz" and dev: "bw_devs w data = Some (dev, ops)" and v2: "vm_version d = 2"
    and q: "aget (queue dev) (unat index) = Some q" "ready q = 0" "num_max q = 2 ^ k" "k \<le> 15"
    and f: "\<not> bit (vd_features d) VIRTIO_RING_F_INDIRECT_DESC" "\<not> bit (vd_features d) VIRTIO_F_IOMMU_PLATFORM"
    and al: "al_info al" "al_vq al" "al_pages al (vring_size (2 ^ k) 4096) \<noteq> 0"
  shows "\<exists>(vq :: 'a vring_virtqueue) w' q'. vm_setup_vq rs al d index callback True w =
      Some (Inr (Some vq), d\<lparr>vd_vqs := vd_vqs d @ [vq], vm_virtqueues := index # vm_virtqueues d\<rparr>, w') \<and>
    bw_devs w' data = Some (dev\<lparr>queue_sel := index, queue := (queue dev)[unat index := q']\<rparr>, ops) \<and>
    q' = q\<lparr>num := 2 ^ k, q_desc := vq_desc vq, q_avail := vq_avail vq, q_used := vq_used vq, ready := 1\<rparr> \<and>
    vq_inv vq (bus_mem w') [0..<2 ^ k] (\<lambda>_. []) \<and> queue_ok q' (bus_mem w') \<and> vq_index vq = index \<and> \<not> vq_broken vq"
proof -
  let ?i = "unat index" and ?dev = "dev\<lparr>queue_sel := index\<rparr>" and ?block = "al_pages al (vring_size (2 ^ k) 4096)"
  have i: "?i < length (queue dev)" "q = queue dev ! ?i" using q(1) by (auto simp: aget_Some_iff)
  obtain vq :: "'a vring_virtqueue" and m' where
    c: "vring_create_virtqueue (al_pages al) True index (2 ^ k) 4096 (vd_features d) callback (bus_mem w) = Some (Some vq, m')"
    and inv: "vq_inv vq m' [0..<2 ^ k] (\<lambda>_. [])" and vr: "vq_vring vq = vring_init (2 ^ k) ?block 4096" "\<not> vq_broken vq"
    and a: "virtqueue_get_desc_addr vq = Some (vq_desc vq)" "virtqueue_get_avail_addr vq = Some (vq_avail vq)"
      "virtqueue_get_used_addr vq = Some (vq_used vq)" and ix: "vq_index vq = index"
    using create_virtqueue_inv [of k "vd_features d" ?block "al_pages al" 4096 index callback "bus_mem w"] q(4) f al(3)
    by blast
  let ?d = "d\<lparr>vd_vqs := vd_vqs d @ [vq]\<rparr>" and ?w = "put_dev data ?dev ops ((bw_world w)\<lparr>w_mem := m'\<rparr>) w"
  let ?q = "q\<lparr>num := vq_num vq, q_desc := vq_desc vq, q_avail := vq_avail vq, q_used := vq_used vq, ready := 1\<rparr>"
  let ?w' = "put_dev data (?dev\<lparr>queue := (queue dev)[?i := ?q]\<rparr>) ops ((bw_world w)\<lparr>w_mem := m'\<rparr>) w"
  have n: "vq_num vq = 2 ^ k" using vr by (simp add: vring_init_def Let_def)
  have "(2 ^ k :: u32) \<noteq> 0" using q(4) by (intro pow2_word_nonzero) simp
  moreover have "vm_activate rs ?d vq ?w = Some ?w'"
    using vm_activate_on_bus [of rs ?d data sz ?w ?dev ops vq] on v2 i a by simp
  ultimately have "vm_setup_vq rs al d index callback True w =
      Some (Inr (Some vq), ?d\<lparr>vm_virtqueues := index # vm_virtqueues d\<rparr>, ?w')"
    using dev v2 i q al c
    by (simp add: vm_setup_vq_def readl_reg [OF on] writel_reg [OF on] virtio_read_reg_def virtio_write_reg_def Let_def)
  moreover have "queue_ok ?q m'"
    using inv by (auto simp: vq_inv_def queue_ok_def elim!: vq_wfE)
  ultimately show ?thesis using inv ix n vr by (intro exI [of _ vq] exI [of _ ?w'] exI [of _ ?q]) simp
qed

text \<open>
  C34: resetting a device through the transport clears its status and nothing else: its queues stay
  ready and keep their positions, pending interrupts and accepted features stay as they were.
\<close>

theorem vm_reset_keeps_queues:
  assumes "on_bus rs (vm_base d) data sz" "bw_devs w data = Some (dev, ops)"
  shows "\<exists>w'. vm_reset rs d w = Some w' \<and> bw_devs w' data = Some (dev\<lparr>status := 0\<rparr>, ops) \<and> bw_world w' = bw_world w"
  using vm_status_on_bus(3) [OF assms] by (simp add: set_status_def)

section \<open>A device with one queue\<close>

definition demo_regions :: "'d bus" where
  "demo_regions = snd (register_iomem iomem_regions_init 7 0x13c virtio_ops)"

definition demo_base :: addr where
  "demo_base = IOMEM_INDEX_TO_ADDR 1"

lemma demo_on_bus: "on_bus (demo_regions :: 'd bus) demo_base 7 0x13c"
proof -
  have "free_region (iomem_regions_init :: 'd bus) 1 = 1"
    by (rule free_region_eq) (simp_all add: iomem_regions_init_def)
  then have "register_iomem (iomem_regions_init :: 'd bus) 7 0x13c virtio_ops = (demo_base, demo_regions)"
    by (simp add: register_iomem_def demo_base_def demo_regions_def Let_def)
  moreover have "demo_base \<noteq> 0" by (simp add: demo_base_def index_to_addr_int)
  ultimately show ?thesis using register_on_bus [OF iomem_wf_init iomem_room_init] by fastforce
qed

definition plain_dev :: virtio_dev where
  "plain_dev = \<lparr>device_id = 2, vendor_id = 0, device_features = 0x120000000, device_features_sel = 0,
     driver_features = 0, driver_features_sel = 0, queue_sel = 0,
     queue = [\<lparr>num_max = 4, num = 0, ready = 0, max_merge_len = 0, q_desc = 0, q_avail = 0, q_used = 0,
       last_avail_idx = 0, last_used_idx_signaled = 0\<rparr>], queue_notify = 0,
     int_status = 0, status = 3, config_gen = 0, irq = 1, config_data = replicate 60 0, config_len = 60,
     base = demo_base, virtio_mmio_id = 0\<rparr>"

definition plain_ops :: "unit virtio_dev_ops" where
  "plain_ops = \<lparr>op_check_features = (\<lambda>dev. if driver_features dev = device_features dev then 0 else - EINVAL),
     op_enqueue = (\<lambda>dev _ _ w. Some (0, dev, w)), op_acquire_queue = None, op_release_queue = None\<rparr>"

definition plain_bus :: "unit bus_world" where
  "plain_bus = \<lparr>bw_devs = [7 \<mapsto> (plain_dev, plain_ops)], bw_world = \<lparr>w_mem = no_mem, w_irqs = [], w_disk = ()\<rparr>\<rparr>"

definition plain_mmio :: "nat virtio_mmio_device" where
  "plain_mmio = \<lparr>vd_index = 0, vd_config_enabled = False, vd_config_change_pending = False,
     vd_id = \<lparr>id_device = 2, id_vendor = 0\<rparr>, vd_vqs = [], vd_features = 0x120000000, vm_base = demo_base,
     vm_version = 2, vm_virtqueues = []\<rparr>"

lemma plain_features: "vring_transport_features 0x120000000 = 0x120000000"
proof (rule bit_word_eqI)
  fix i
  have "bit (0x120000000 :: u64) i \<Longrightarrow> 28 \<le> i \<and> i < 34 \<longrightarrow> i \<in> {28, 29, 32, 33}"
    by (auto simp: bit_numeral_rec numeral_eq_Suc less_Suc_eq_le le_Suc_eq)
  then show "bit (vring_transport_features 0x120000000) i = bit (0x120000000 :: u64) i"
    by (auto simp: bit_vring_transport_features)
qed

lemma plain_facts:
  "on_bus demo_regions (vm_base plain_mmio) 7 0x13c" "bw_devs plain_bus 7 = Some (plain_dev, plain_ops)"
  "vm_version plain_mmio = 2" "vd_features plain_mmio = 0x120000000"
  using demo_on_bus by (simp_all add: plain_mmio_def plain_bus_def)

theorem finalize_features_agreement_witness:
  "\<exists>dev' w'. virtio_finalize_features (virtio_mmio_config_ops demo_regions (\<lambda>_. \<lparr>al_pages = \<lambda>_. 0, al_info = True, al_vq = True\<rparr>) 0)
       plain_mmio plain_bus = Some (0, plain_mmio, w') \<and> bw_devs w' 7 = Some (dev', plain_ops) \<and>
     driver_features dev' = 0x120000000 \<and> bit (status dev') 3"
proof -
  have f: "(0x120000000 :: u64) = vring_transport_features (vd_features plain_mmio)"
    by (simp only: plain_facts plain_features)
  have ok: "True \<longleftrightarrow> bit (0x120000000 :: u64) 29 \<and>
      op_check_features plain_ops (plain_dev\<lparr>driver_features_sel := 0, driver_features := 0x120000000\<rparr>) = 0"
    by (simp add: bit_numeral_rec plain_ops_def plain_dev_def)
  have "bit (0x120000000 :: u64) 32" "plain_mmio\<lparr>vd_features := 0x120000000\<rparr> = plain_mmio"
    by (simp_all add: bit_numeral_rec plain_mmio_def)
  then show ?thesis
    using finalize_features_agreement [OF plain_facts(1-3) f ok, of "\<lambda>_. \<lparr>al_pages = \<lambda>_. 0, al_info = True, al_vq = True\<rparr>" 0]
    by auto
qed

theorem vm_setup_vq_spec_witness:
  "\<exists>vq w' q'. vm_setup_vq demo_regions \<lparr>al_pages = \<lambda>_. 0x10000, al_info = True, al_vq = True\<rparr> plain_mmio 0 True True plain_bus =
       Some (Inr (Some vq), plain_mmio\<lparr>vd_vqs := [vq], vm_virtqueues := [0]\<rparr>, w') \<and>
     vq_inv vq (bus_mem w') [0..<2 ^ 2] (\<lambda>_. []) \<and> queue_ok q' (bus_mem w')"
proof -
  have q: "aget (queue plain_dev) (unat (0 :: u32)) = Some (queue plain_dev ! 0)" "ready (queue plain_dev ! 0) = 0"
    "num_max (queue plain_dev ! 0) = 2 ^ 2" "(2 :: nat) \<le> 15" by (simp_all add: plain_dev_def)
  have f: "\<not> bit (vd_features plain_mmio) 28" "\<not> bit (vd_features plain_mmio) 33"
    by (simp_all add: plain_facts bit_numeral_rec)
  let ?al = "\<lparr>al_pages = \<lambda>_. 0x10000, al_info = True, al_vq = True\<rparr>"
  have al: "al_info ?al" "al_vq ?al" "al_pages ?al (vring_size (2 ^ 2) 4096) \<noteq> 0" by simp_all
  have "vd_vqs plain_mmio = []" "vm_virtqueues plain_mmio = []" by (simp_all add: plain_mmio_def)
  then show ?thesis using vm_setup_vq_spec [OF plain_facts(1-3) q f al, of True] by auto
qed

theorem vm_reset_keeps_queues_witness:
  "\<exists>w'. vm_reset demo_regions plain_mmio plain_bus = Some w' \<and> bw_devs w' 7 = Some (plain_dev\<lparr>status := 0\<rparr>, plain_ops)"
  using vm_reset_keeps_queues [OF plain_facts(1,2)] by blast

end
