(* ===== verification/Posix_Blk.thy ===== *)
theory Posix_Blk
  imports Virtio_Queue
begin

text \<open>
  The block operations of the POSIX host, the end of \<open>tools/lkl/lib/posix-host.c\<close>: a request is
  served with \<open>pread\<close>, \<open>pwrite\<close> or \<open>fdatasync\<close> on the disk's file descriptor. The calls of
  the C library are the fields of \<open>posix_io\<close>: each acts on the memory of the process and the
  state \<open>'d\<close> of the file.
\<close>

section \<open>Requests\<close>

record lkl_blk_req =
  br_type :: u32
  br_prio :: u32
  br_sector :: u64
  br_buf :: "iovec list"

abbreviation (input) LKL_DEV_BLK_TYPE_READ :: u32 where "LKL_DEV_BLK_TYPE_READ \<equiv> 0"
abbreviation (input) LKL_DEV_BLK_TYPE_WRITE :: u32 where "LKL_DEV_BLK_TYPE_WRITE \<equiv> 1"
abbreviation (input) LKL_DEV_BLK_TYPE_FLUSH :: u32 where "LKL_DEV_BLK_TYPE_FLUSH \<equiv> 4"
abbreviation (input) LKL_DEV_BLK_TYPE_FLUSH_OUT :: u32 where "LKL_DEV_BLK_TYPE_FLUSH_OUT \<equiv> 5"
abbreviation (input) LKL_DEV_BLK_STATUS_OK :: int where "LKL_DEV_BLK_STATUS_OK \<equiv> 0"
abbreviation (input) LKL_DEV_BLK_STATUS_IOERR :: int where "LKL_DEV_BLK_STATUS_IOERR \<equiv> 1"
abbreviation (input) LKL_DEV_BLK_STATUS_UNSUP :: int where "LKL_DEV_BLK_STATUS_UNSUP \<equiv> 2"

type_synonym bytes = "addr \<Rightarrow> u8"
type_synonym 'd rw_fn = "addr \<Rightarrow> int \<Rightarrow> int \<Rightarrow> bytes \<times> 'd \<Rightarrow> int \<times> bytes \<times> 'd"

record 'd posix_io =
  pio_pread :: "'d rw_fn"
  pio_pwrite :: "'d rw_fn"
  pio_fdatasync :: "'d \<Rightarrow> int \<times> 'd"
  pio_lseek_end :: "'d \<Rightarrow> int"

record 'd lkl_dev_blk_ops =
  get_capacity :: "'d \<Rightarrow> int \<times> u64"
  request :: "lkl_blk_req \<Rightarrow> bytes \<times> 'd \<Rightarrow> (int \<times> bytes \<times> 'd) option"

section \<open>Operations\<close>

text \<open>The value is only written on success.\<close>

definition fd_get_capacity :: "'d posix_io \<Rightarrow> 'd \<Rightarrow> int \<times> u64" where
  "fd_get_capacity io d =
     (let off = pio_lseek_end io d in if off < 0 then (- 1, 0) else (0, word_of_int off))"

text \<open>
  The inner \<open>do ... while\<close> loop on one buffer. The length is an \<open>int\<close> that the call reads as a
  \<open>size_t\<close>, so a negative one has no defined meaning.
\<close>

partial_function (option) rw_buf ::
  "'d rw_fn \<Rightarrow> addr \<Rightarrow> int \<Rightarrow> int \<Rightarrow> bytes \<times> 'd \<Rightarrow> (int \<times> int \<times> bytes \<times> 'd) option" where
  "rw_buf fn a len off s =
     (if len < 0 then None
      else let (r, s) = fn a len off s; ret = sint (word_of_int r :: u32) in
        if ret \<le> 0 then Some (- 1, off, s)
        else if len - ret = 0 then Some (ret, off + ret, s)
        else rw_buf fn (a + word_of_int ret) (len - ret) (off + ret) s)"

primrec rw_bufs ::
  "'d rw_fn \<Rightarrow> iovec list \<Rightarrow> int \<Rightarrow> int \<Rightarrow> bytes \<times> 'd \<Rightarrow> (int \<times> bytes \<times> 'd) option" where
  "rw_bufs fn [] off ret s = Some (ret, s)"
| "rw_bufs fn (v # vs) off ret s = do {
     (ret, off, s) \<leftarrow> rw_buf fn (iov_base v) (sint (ucast (iov_len v) :: u32)) off s;
     if ret < 0 then Some (ret, s) else rw_bufs fn vs off ret s
   }"

definition do_rw :: "'d rw_fn \<Rightarrow> lkl_blk_req \<Rightarrow> bytes \<times> 'd \<Rightarrow> (int \<times> bytes \<times> 'd) option" where
  "do_rw fn req s = rw_bufs fn (br_buf req) (sint (br_sector req * 512)) 0 s"

definition blk_request :: "'d posix_io \<Rightarrow> lkl_blk_req \<Rightarrow> bytes \<times> 'd \<Rightarrow> (int \<times> bytes \<times> 'd) option" where
  "blk_request io req s =
     (if br_type req \<in> {LKL_DEV_BLK_TYPE_READ, LKL_DEV_BLK_TYPE_WRITE, LKL_DEV_BLK_TYPE_FLUSH, LKL_DEV_BLK_TYPE_FLUSH_OUT} then do {
        (err, s) \<leftarrow> (if br_type req = LKL_DEV_BLK_TYPE_READ then do_rw (pio_pread io) req s
                    else if br_type req = LKL_DEV_BLK_TYPE_WRITE then do_rw (pio_pwrite io) req s
                    else let (err, d) = pio_fdatasync io (snd s) in Some (err, fst s, d));
        Some (if err < 0 then LKL_DEV_BLK_STATUS_IOERR else LKL_DEV_BLK_STATUS_OK, s)
      }
      else Some (LKL_DEV_BLK_STATUS_UNSUP, s))"

definition posix_blk_ops :: "'d posix_io \<Rightarrow> 'd lkl_dev_blk_ops" where
  "posix_blk_ops io = \<lparr>get_capacity = fd_get_capacity io, request = blk_request io\<rparr>"

section \<open>What the calls promise\<close>

text \<open>
  The laws of \<open>pread\<close> and \<open>pwrite\<close> on a regular file of \<open>cap d\<close> bytes with contents
  \<open>content d\<close>: inside the file they transfer at least one and at most the requested number of bytes.
\<close>

definition copy_in :: "addr \<Rightarrow> (int \<Rightarrow> u8) \<Rightarrow> int \<Rightarrow> int \<Rightarrow> bytes \<Rightarrow> bytes" where
  "copy_in a f off n b = (\<lambda>x. if uint (x - a) < n then f (off + uint (x - a)) else b x)"

definition copy_out :: "addr \<Rightarrow> bytes \<Rightarrow> int \<Rightarrow> int \<Rightarrow> (int \<Rightarrow> u8) \<Rightarrow> int \<Rightarrow> u8" where
  "copy_out a b off n f = (\<lambda>i. if off \<le> i \<and> i < off + n then b (a + word_of_int (i - off)) else f i)"

definition pread_law :: "'d rw_fn \<Rightarrow> ('d \<Rightarrow> int \<Rightarrow> u8) \<Rightarrow> ('d \<Rightarrow> int) \<Rightarrow> bool" where
  "pread_law fn content cap \<longleftrightarrow>
     (\<forall>a len off b d. 0 < len \<and> 0 \<le> off \<and> off + len \<le> cap d \<longrightarrow>
        (\<exists>r. 0 < r \<and> r \<le> len \<and> fn a len off (b, d) = (r, copy_in a (content d) off r b, d)))"

definition pwrite_law :: "'d rw_fn \<Rightarrow> ('d \<Rightarrow> int \<Rightarrow> u8) \<Rightarrow> ('d \<Rightarrow> int) \<Rightarrow> bool" where
  "pwrite_law fn content cap \<longleftrightarrow>
     (\<forall>a len off b d. 0 < len \<and> 0 \<le> off \<and> off + len \<le> cap d \<longrightarrow>
        (\<exists>r d'. 0 < r \<and> r \<le> len \<and> fn a len off (b, d) = (r, b, d') \<and> cap d' = cap d \<and>
           content d' = copy_out a b off r (content d)))"

section \<open>Short transfers add up\<close>

lemma uint_shift:
  "0 \<le> r \<Longrightarrow> uint (x - (a + word_of_int r) :: addr) = (uint (x - a) - r) mod 2 ^ 64"
  by (simp add: uint_word_ariths uint_word_of_int mod_simps algebra_simps)

lemma copy_in_split:
  assumes "0 \<le> r" "0 \<le> n" "r + n \<le> 2 ^ 64"
  shows "copy_in (a + word_of_int r) f (off + r) n (copy_in a f off r b) = copy_in a f off (r + n) b"
proof
  fix x :: addr
  have u: "0 \<le> uint (x - a)" "uint (x - a) < 2 ^ 64" using uint_bounded [of "x - a"] by simp_all
  show "copy_in (a + word_of_int r) f (off + r) n (copy_in a f off r b) x = copy_in a f off (r + n) b x"
  proof (cases "uint (x - a) < r")
    case True
    then have "(uint (x - a) - r) mod 2 ^ 64 = (uint (x - a) - r + 2 ^ 64) mod 2 ^ 64" by simp
    also have "\<dots> = uint (x - a) - r + 2 ^ 64" by (intro mod_pos_pos_trivial) (use True u assms in linarith)+
    finally have "uint (x - (a + word_of_int r)) = uint (x - a) - r + 2 ^ 64" by (simp only: uint_shift [OF assms(1)])
    moreover have "n \<le> uint (x - a) - r + 2 ^ 64" using assms u by linarith
    ultimately show ?thesis using True assms by (simp add: copy_in_def)
  next
    case False
    then have "(uint (x - a) - r) mod 2 ^ 64 = uint (x - a) - r" by (intro mod_pos_pos_trivial) (use False u assms in linarith)+
    then have "uint (x - (a + word_of_int r)) = uint (x - a) - r" by (simp only: uint_shift [OF assms(1)])
    with False assms show ?thesis by (auto simp: copy_in_def)
  qed
qed

lemma copy_out_split:
  assumes "0 \<le> r" "0 \<le> n"
  shows "copy_out (a + word_of_int r) b (off + r) n (copy_out a b off r f) = copy_out a b off (r + n) f"
proof -
  have e: "a + word_of_int r + word_of_int (i - (off + r)) = a + word_of_int (i - off)" for i :: int and a :: addr
    by simp
  show ?thesis using assms by (auto simp: copy_out_def fun_eq_iff e simp del: of_int_diff of_int_add)
qed

lemma sint_u32: "0 \<le> k \<Longrightarrow> k < 2 ^ 31 \<Longrightarrow> sint (word_of_int k :: u32) = k"
  by (rule sint_word_of_int_small) simp_all

lemma rw_buf_read:
  assumes law: "pread_law fn content cap"
  shows "0 < len \<Longrightarrow> len < 2 ^ 31 \<Longrightarrow> 0 \<le> off \<Longrightarrow> off + len \<le> cap d \<Longrightarrow>
    \<exists>ret. rw_buf fn a len off (b, d) = Some (ret, off + len, copy_in a (content d) off len b, d) \<and> 0 < ret"
proof (induction "nat len" arbitrary: len a off b rule: less_induct)
  case less
  then obtain r where r: "0 < r" "r \<le> len" "fn a len off (b, d) = (r, copy_in a (content d) off r b, d)"
    using law unfolding pread_law_def by blast
  have s: "sint (word_of_int r :: u32) = r" using r less.prems by (intro sint_u32) simp_all
  show ?case
  proof (cases "len - r = 0")
    case True
    with r s less.prems show ?thesis by (subst rw_buf.simps) simp
  next
    case False
    have step: "rw_buf fn a len off (b, d) = rw_buf fn (a + word_of_int r) (len - r) (off + r) (copy_in a (content d) off r b, d)"
      using r s less.prems False by (subst rw_buf.simps) simp
    obtain ret where "rw_buf fn (a + word_of_int r) (len - r) (off + r) (copy_in a (content d) off r b, d) =
        Some (ret, off + r + (len - r), copy_in (a + word_of_int r) (content d) (off + r) (len - r) (copy_in a (content d) off r b), d)" "0 < ret"
      using less.hyps [of "len - r" "off + r" "a + word_of_int r" "copy_in a (content d) off r b"] r False less.prems by auto
    with r less.prems show ?thesis by (simp add: step copy_in_split)
  qed
qed

lemma rw_buf_write:
  assumes law: "pwrite_law fn content cap"
  shows "0 < len \<Longrightarrow> len < 2 ^ 31 \<Longrightarrow> 0 \<le> off \<Longrightarrow> off + len \<le> cap d \<Longrightarrow>
    \<exists>ret d'. rw_buf fn a len off (b, d) = Some (ret, off + len, b, d') \<and> 0 < ret \<and> cap d' = cap d \<and>
      content d' = copy_out a b off len (content d)"
proof (induction "nat len" arbitrary: len a off d rule: less_induct)
  case less
  then obtain r d1 where r: "0 < r" "r \<le> len" "fn a len off (b, d) = (r, b, d1)" "cap d1 = cap d"
    "content d1 = copy_out a b off r (content d)"
    using law unfolding pwrite_law_def by blast
  have s: "sint (word_of_int r :: u32) = r" using r less.prems by (intro sint_u32) simp_all
  show ?case
  proof (cases "len - r = 0")
    case True
    with r s less.prems show ?thesis by (subst rw_buf.simps) simp
  next
    case False
    have step: "rw_buf fn a len off (b, d) = rw_buf fn (a + word_of_int r) (len - r) (off + r) (b, d1)"
      using r s less.prems False by (subst rw_buf.simps) simp
    obtain ret d' where "rw_buf fn (a + word_of_int r) (len - r) (off + r) (b, d1) = Some (ret, off + r + (len - r), b, d')" "0 < ret"
      "cap d' = cap d1" "content d' = copy_out (a + word_of_int r) b (off + r) (len - r) (content d1)"
      using less.hyps [of "len - r" "off + r" d1 "a + word_of_int r"] r False less.prems by auto
    with r less.prems show ?thesis by (simp add: step copy_out_split)
  qed
qed

section \<open>Whole requests\<close>

text \<open>The bytes of the buffers of a request, in order, and the addresses they occupy.\<close>

definition buf_bytes :: "bytes \<Rightarrow> iovec \<Rightarrow> u8 list" where
  "buf_bytes b v = map (\<lambda>i. b (iov_base v + word_of_nat i)) [0..<unat (iov_len v)]"

definition flat :: "bytes \<Rightarrow> iovec list \<Rightarrow> u8 list" where
  "flat b vs = concat (map (buf_bytes b) vs)"

definition region :: "iovec \<Rightarrow> addr set" where
  "region v = {x. uint (x - iov_base v) < uint (iov_len v)}"

definition req_bytes :: "iovec list \<Rightarrow> int" where
  "req_bytes vs = sum_list (map (\<lambda>v. uint (iov_len v)) vs)"

definition good_bufs :: "iovec list \<Rightarrow> bool" where
  "good_bufs vs \<longleftrightarrow> (\<forall>v \<in> set vs. 0 < uint (iov_len v) \<and> uint (iov_len v) < 2 ^ 31)"

primrec disjoint_bufs :: "iovec list \<Rightarrow> bool" where
  "disjoint_bufs [] \<longleftrightarrow> True"
| "disjoint_bufs (v # vs) \<longleftrightarrow> (\<forall>w \<in> set vs. region v \<inter> region w = {}) \<and> disjoint_bufs vs"

primrec scatter_in :: "(int \<Rightarrow> u8) \<Rightarrow> int \<Rightarrow> iovec list \<Rightarrow> bytes \<Rightarrow> bytes" where
  "scatter_in f off [] b = b"
| "scatter_in f off (v # vs) b =
     scatter_in f (off + uint (iov_len v)) vs (copy_in (iov_base v) f off (uint (iov_len v)) b)"

primrec gather_out :: "bytes \<Rightarrow> int \<Rightarrow> iovec list \<Rightarrow> (int \<Rightarrow> u8) \<Rightarrow> int \<Rightarrow> u8" where
  "gather_out b off [] f = f"
| "gather_out b off (v # vs) f =
     gather_out b (off + uint (iov_len v)) vs (copy_out (iov_base v) b off (uint (iov_len v)) f)"

lemma req_bytes_nonneg [simp]: "0 \<le> req_bytes vs"
  by (induction vs) (simp_all add: req_bytes_def)

lemma length_flat: "length (flat b vs) = nat (req_bytes vs)"
proof (induction vs)
  case (Cons v vs)
  with req_bytes_nonneg [of vs] show ?case
    by (simp add: flat_def req_bytes_def buf_bytes_def nat_add_distrib)
qed (simp add: flat_def req_bytes_def)

lemma req_bytes_Cons: "req_bytes (v # vs) = uint (iov_len v) + req_bytes vs"
  by (simp add: req_bytes_def)

lemma sint_iov_len: "uint (x :: u64) < 2 ^ 31 \<Longrightarrow> sint (ucast x :: u32) = uint x"
  using sint_u32 [of "uint x"] by simp

lemma rw_bufs_read:
  assumes law: "pread_law fn content cap"
  shows "good_bufs vs \<Longrightarrow> 0 \<le> off \<Longrightarrow> off + req_bytes vs \<le> cap d \<Longrightarrow> 0 \<le> ret \<Longrightarrow>
    \<exists>ret'. rw_bufs fn vs off ret (b, d) = Some (ret', scatter_in (content d) off vs b, d) \<and> 0 \<le> ret'"
proof (induction vs arbitrary: off ret b)
  case (Cons v vs)
  then have v: "0 < uint (iov_len v)" "uint (iov_len v) < 2 ^ 31" "good_bufs vs"
    by (auto simp: good_bufs_def)
  have v4: "off + uint (iov_len v) \<le> cap d"
    using Cons.prems(3) req_bytes_nonneg [of vs] unfolding req_bytes_Cons by linarith
  from rw_buf_read [OF law v(1,2) Cons.prems(2) v4] obtain r where
    "rw_buf fn (iov_base v) (uint (iov_len v)) off (b, d) =
       Some (r, off + uint (iov_len v), copy_in (iov_base v) (content d) off (uint (iov_len v)) b, d)" "0 < r" by blast
  with Cons v show ?case by (simp add: sint_iov_len req_bytes_Cons add.assoc)
qed simp

lemma rw_bufs_write:
  assumes law: "pwrite_law fn content cap"
  shows "good_bufs vs \<Longrightarrow> 0 \<le> off \<Longrightarrow> off + req_bytes vs \<le> cap d \<Longrightarrow> 0 \<le> ret \<Longrightarrow>
    \<exists>ret' d'. rw_bufs fn vs off ret (b, d) = Some (ret', b, d') \<and> 0 \<le> ret' \<and> cap d' = cap d \<and>
      content d' = gather_out b off vs (content d)"
proof (induction vs arbitrary: off ret d)
  case (Cons v vs)
  then have v: "0 < uint (iov_len v)" "uint (iov_len v) < 2 ^ 31" "good_bufs vs"
    by (auto simp: good_bufs_def)
  have v4: "off + uint (iov_len v) \<le> cap d"
    using Cons.prems(3) req_bytes_nonneg [of vs] unfolding req_bytes_Cons by linarith
  from rw_buf_write [OF law v(1,2) Cons.prems(2) v4] obtain r d1 where d1:
    "rw_buf fn (iov_base v) (uint (iov_len v)) off (b, d) = Some (r, off + uint (iov_len v), b, d1)" "0 < r" "cap d1 = cap d"
    "content d1 = copy_out (iov_base v) b off (uint (iov_len v)) (content d)" by blast
  with Cons.IH [of "off + uint (iov_len v)" d1 r] Cons.prems v show ?case
    by (simp add: sint_iov_len req_bytes_Cons add.assoc)
qed simp

lemma scatter_in_other: "(\<forall>v \<in> set vs. x \<notin> region v) \<Longrightarrow> scatter_in f off vs b x = b x"
  by (induction vs arbitrary: off b) (auto simp: region_def copy_in_def)

lemma in_region: "i < unat (iov_len v) \<Longrightarrow> uint (iov_base v + word_of_nat i - iov_base v) = int i \<and> iov_base v + word_of_nat i \<in> region v"
proof -
  assume i: "i < unat (iov_len v)"
  then have "i < 2 ^ 64" using unat_lt_pow2 [of "iov_len v"] by simp
  then have "unat (word_of_nat i :: u64) = i" by (intro unat_eqI [OF refl]) simp
  then have "uint (word_of_nat i :: u64) = int i" by (simp only: uint_nat)
  moreover have "int i < uint (iov_len v)" using i by (simp only: uint_nat of_nat_less_iff)
  ultimately show ?thesis by (simp add: region_def)
qed

lemma map_shift_upt: "map (\<lambda>k. g (k + n)) [0..<m] = map g [n..<n + m]"
  by (induction m) (simp_all add: add.commute)

lemma scatter_in_head:
  assumes "\<forall>w \<in> set vs. region v \<inter> region w = {}" "i < unat (iov_len v)"
  shows "scatter_in f off' vs (copy_in (iov_base v) f off (uint (iov_len v)) b) (iov_base v + word_of_nat i) = f (off + int i)"
proof -
  from in_region [OF assms(2)] assms(1) have "\<forall>w \<in> set vs. iov_base v + word_of_nat i \<notin> region w" by blast
  then show ?thesis using in_region [OF assms(2)]
    by (subst scatter_in_other) (simp_all add: copy_in_def region_def)
qed

lemma flat_scatter_in:
  "disjoint_bufs vs \<Longrightarrow> flat (scatter_in f off vs b) vs = map (\<lambda>k. f (off + int k)) [0..<nat (req_bytes vs)]"
proof (induction vs arbitrary: off b)
  case (Cons v vs)
  define n where "n = unat (iov_len v)"
  define b' where "b' = scatter_in f (off + uint (iov_len v)) vs (copy_in (iov_base v) f off (uint (iov_len v)) b)"
  have len: "uint (iov_len v) = int n" by (simp add: n_def)
  have "buf_bytes b' v = map (\<lambda>k. f (off + int k)) [0..<n]"
    using Cons.prems scatter_in_head [of vs v] by (simp add: buf_bytes_def b'_def n_def)
  moreover have "flat b' vs = map (\<lambda>k. f (off + int n + int k)) [0..<nat (req_bytes vs)]"
    using Cons.IH [of "off + int n" "copy_in (iov_base v) f off (int n) b"] Cons.prems
    unfolding b'_def len by (simp only: disjoint_bufs.simps simp_thms)
  moreover have "map (\<lambda>k. f (off + int n + int k)) [0..<m] = map (\<lambda>k. f (off + int k)) [n..<n + m]" for m
    using map_shift_upt [of "\<lambda>k. f (off + int k)" n m] by (simp only: of_nat_add ac_simps)
  moreover have "nat (req_bytes (v # vs)) = n + nat (req_bytes vs)"
    unfolding req_bytes_Cons len by (simp add: nat_add_distrib)
  moreover have "[0..<n + m] = [0..<n] @ [n..<n + m]" for m using upt_add_eq_append [of 0 n m] by simp
  ultimately have "flat b' (v # vs) = map (\<lambda>k. f (off + int k)) [0..<nat (req_bytes (v # vs))]"
    by (simp add: flat_def)
  then show ?case by (simp add: b'_def)
qed (simp add: flat_def req_bytes_def)

lemma gather_out_nth:
  "gather_out b off vs f i = (if off \<le> i \<and> i < off + req_bytes vs then flat b vs ! nat (i - off) else f i)"
proof (induction vs arbitrary: off f)
  case (Cons v vs)
  define n where "n = unat (iov_len v)"
  have len: "uint (iov_len v) = int n" by (simp add: n_def)
  have l: "length (buf_bytes b v) = n" by (simp add: buf_bytes_def n_def)
  have fl: "flat b (v # vs) ! nat (i - off) =
      (if i < off + int n then b (iov_base v + word_of_int (i - off)) else flat b vs ! nat (i - (off + int n)))" if "off \<le> i"
  proof -
    define k where "k = nat (i - off)"
    with that have "i = off + int k" by simp
    then show ?thesis
      by (auto simp: flat_def nth_append l buf_bytes_def n_def [symmetric])
        (metis add_diff_cancel_left' nat_int of_nat_diff not_less)
  qed
  define k where "k = req_bytes vs"
  then have "0 \<le> k" by simp
  with fl show ?case
    using Cons [of "off + int n" "copy_out (iov_base v) b off (int n) f"]
    by (auto simp: copy_out_def req_bytes_Cons len add.assoc k_def [symmetric])
qed (auto simp: req_bytes_def)

lemma sector_offset:
  assumes "512 * uint s < 2 ^ 63"
  shows "sint (s * 512 :: u64) = 512 * uint s"
proof -
  define k where "k = 512 * uint s"
  then have "0 \<le> k" "k < 2 ^ 63" using assms by simp_all
  then have "sint (word_of_int k :: u64) = k" by (intro sint_word_of_int_small) simp_all
  moreover have "s * 512 = word_of_int k" by (simp add: k_def mult.commute)
  ultimately show ?thesis by (simp only: k_def)
qed

text \<open>
  C21: a read request inside the disk that the host serves, possibly in short transfers, succeeds,
  fills the buffers of the request in order with the bytes of the disk from the request's sector on,
  and changes no other memory.
\<close>

theorem blk_request_read:
  assumes law: "pread_law (pio_pread io) content cap"
    and req: "br_type req = LKL_DEV_BLK_TYPE_READ" "good_bufs (br_buf req)" "disjoint_bufs (br_buf req)"
    and off: "off = 512 * uint (br_sector req)" "off + req_bytes (br_buf req) \<le> cap d" "cap d < 2 ^ 63"
  shows "\<exists>b'. blk_request io req (b, d) = Some (LKL_DEV_BLK_STATUS_OK, b', d) \<and>
    flat b' (br_buf req) = map (\<lambda>k. content d (off + int k)) [0..<nat (req_bytes (br_buf req))] \<and>
    (\<forall>x. (\<forall>v \<in> set (br_buf req). x \<notin> region v) \<longrightarrow> b' x = b x)"
proof -
  have "off < 2 ^ 63" using off(2,3) req_bytes_nonneg [of "br_buf req"] by linarith
  then have s: "sint (br_sector req * 512) = off" "0 \<le> off" using sector_offset off(1) by simp_all
  obtain ret where "rw_bufs (pio_pread io) (br_buf req) off 0 (b, d) = Some (ret, scatter_in (content d) off (br_buf req) b, d)" "0 \<le> ret"
    using rw_bufs_read [OF law req(2) s(2) off(2), of 0 b] by auto
  then have "blk_request io req (b, d) = Some (LKL_DEV_BLK_STATUS_OK, scatter_in (content d) off (br_buf req) b, d)"
    using req(1) by (simp add: blk_request_def do_rw_def s)
  then show ?thesis using flat_scatter_in [OF req(3)] scatter_in_other by blast
qed

lemma blk_request_write:
  assumes law: "pwrite_law (pio_pwrite io) content cap"
    and req: "br_type req = LKL_DEV_BLK_TYPE_WRITE" "good_bufs (br_buf req)"
    and off: "off = 512 * uint (br_sector req)" "off + req_bytes (br_buf req) \<le> cap d" "cap d < 2 ^ 63"
  shows "\<exists>d'. blk_request io req (b, d) = Some (LKL_DEV_BLK_STATUS_OK, b, d') \<and> cap d' = cap d \<and>
    (\<forall>i. content d' i = (if off \<le> i \<and> i < off + req_bytes (br_buf req) then flat b (br_buf req) ! nat (i - off) else content d i))"
proof -
  have "off < 2 ^ 63" using off(2,3) req_bytes_nonneg [of "br_buf req"] by linarith
  then have s: "sint (br_sector req * 512) = off" "0 \<le> off" using sector_offset off(1) by simp_all
  obtain ret d' where "rw_bufs (pio_pwrite io) (br_buf req) off 0 (b, d) = Some (ret, b, d')" "0 \<le> ret" "cap d' = cap d"
    "content d' = gather_out b off (br_buf req) (content d)"
    using rw_bufs_write [OF law req(2) s(2) off(2), of 0 b] by auto
  then show ?thesis
    using req(1) by (simp add: blk_request_def do_rw_def s gather_out_nth)
qed

text \<open>
  C14: what a write request stored, a later read of the same sectors returns, whatever way the two
  requests cut the range into buffers; the write leaves every other byte of the disk as it was.
\<close>

theorem blk_write_read:
  assumes laws: "pread_law (pio_pread io) content cap" "pwrite_law (pio_pwrite io) content cap"
    and w: "br_type wr = LKL_DEV_BLK_TYPE_WRITE" "good_bufs (br_buf wr)"
    and r: "br_type rd = LKL_DEV_BLK_TYPE_READ" "good_bufs (br_buf rd)" "disjoint_bufs (br_buf rd)"
    and same: "br_sector rd = br_sector wr" "req_bytes (br_buf rd) = req_bytes (br_buf wr)"
    and off: "off = 512 * uint (br_sector wr)" "off + req_bytes (br_buf wr) \<le> cap d" "cap d < 2 ^ 63"
  shows "\<exists>d' b'. blk_request io wr (b, d) = Some (LKL_DEV_BLK_STATUS_OK, b, d') \<and>
    blk_request io rd (c, d') = Some (LKL_DEV_BLK_STATUS_OK, b', d') \<and> flat b' (br_buf rd) = flat b (br_buf wr) \<and>
    (\<forall>i. i < off \<or> off + req_bytes (br_buf wr) \<le> i \<longrightarrow> content d' i = content d i)"
proof -
  obtain d' where d': "blk_request io wr (b, d) = Some (LKL_DEV_BLK_STATUS_OK, b, d')" "cap d' = cap d"
    "\<And>i. content d' i = (if off \<le> i \<and> i < off + req_bytes (br_buf wr) then flat b (br_buf wr) ! nat (i - off) else content d i)"
    using blk_request_write [OF laws(2) w off] by blast
  have "off < 2 ^ 63" using off(2,3) req_bytes_nonneg [of "br_buf wr"] by linarith
  then have s: "sint (br_sector rd * 512) = off" "0 \<le> off" using sector_offset off(1) same(1) by simp_all
  have le: "off + req_bytes (br_buf rd) \<le> cap d'" using off(2) same(2) d'(2) by simp
  obtain ret where "rw_bufs (pio_pread io) (br_buf rd) off 0 (c, d') = Some (ret, scatter_in (content d') off (br_buf rd) c, d')" "0 \<le> ret"
    using rw_bufs_read [OF laws(1) r(2) s(2) le, of 0 c] by auto
  then have "blk_request io rd (c, d') = Some (LKL_DEV_BLK_STATUS_OK, scatter_in (content d') off (br_buf rd) c, d')"
    using r(1) by (simp add: blk_request_def do_rw_def s)
  moreover have "flat (scatter_in (content d') off (br_buf rd) c) (br_buf rd) = flat b (br_buf wr)"
    unfolding flat_scatter_in [OF r(3)]
    by (rule nth_equalityI) (simp_all add: length_flat same(2) d'(3) zless_nat_eq_int_zless)
  ultimately show ?thesis using d' by auto
qed

section \<open>A disk\<close>

text \<open>A file of 4096 bytes whose calls transfer at most 300 bytes at a time.\<close>

type_synonym disk_file = "int \<Rightarrow> u8"

definition chunk_io :: "disk_file posix_io" where
  "chunk_io = \<lparr>
     pio_pread = (\<lambda>a len off (b, f). let r = min 300 len in (r, copy_in a f off r b, f)),
     pio_pwrite = (\<lambda>a len off (b, f). let r = min 300 len in (r, b, copy_out a b off r f)),
     pio_fdatasync = (\<lambda>f. (0, f)), pio_lseek_end = (\<lambda>f. 4096)\<rparr>"

lemma chunk_io_laws:
  "pread_law (pio_pread chunk_io) (\<lambda>f. f) (\<lambda>_. 4096)" "pwrite_law (pio_pwrite chunk_io) (\<lambda>f. f) (\<lambda>_. 4096)"
  by (auto simp: pread_law_def pwrite_law_def chunk_io_def Let_def)

definition one_buf :: "u32 \<Rightarrow> addr \<Rightarrow> lkl_blk_req" where
  "one_buf ty a = \<lparr>br_type = ty, br_prio = 0, br_sector = 2, br_buf = [\<lparr>iov_base = a, iov_len = 1024\<rparr>]\<rparr>"

lemma one_buf_facts:
  "br_type (one_buf ty a) = ty" "good_bufs (br_buf (one_buf ty a))" "disjoint_bufs (br_buf (one_buf ty a))"
  "br_sector (one_buf ty a) = 2" "req_bytes (br_buf (one_buf ty a)) = 1024"
  by (simp_all add: one_buf_def good_bufs_def req_bytes_def)

theorem blk_request_read_witness:
  "\<exists>b'. blk_request chunk_io (one_buf 0 0x1000) (\<lambda>_. 0, word_of_int) = Some (0, b', word_of_int) \<and>
    flat b' (br_buf (one_buf 0 0x1000)) =
      map (\<lambda>k. word_of_int (1024 + int k)) [0..<nat (req_bytes (br_buf (one_buf 0 0x1000)))] \<and>
    (\<forall>x. (\<forall>v \<in> set (br_buf (one_buf 0 0x1000)). x \<notin> region v) \<longrightarrow> b' x = (\<lambda>_. 0) x)"
  by (rule blk_request_read [OF chunk_io_laws(1)]) (simp_all add: one_buf_facts)

theorem blk_write_read_witness:
  "\<exists>d' b'. blk_request chunk_io (one_buf 1 0x1000) (ucast, word_of_int) = Some (0, ucast, d') \<and>
    blk_request chunk_io (one_buf 0 0x9000) (\<lambda>_. 0, d') = Some (0, b', d') \<and>
    flat b' (br_buf (one_buf 0 0x9000)) = flat ucast (br_buf (one_buf 1 0x1000)) \<and>
    (\<forall>i. i < 1024 \<or> 1024 + req_bytes (br_buf (one_buf 1 0x1000)) \<le> i \<longrightarrow> d' i = word_of_int i)"
  by (rule blk_write_read [OF chunk_io_laws]) (simp_all add: one_buf_facts)

end
