(* ===== verification/Virtio_Blk.thy ===== *)
theory Virtio_Blk
  imports Virtio_Regs Posix_Blk
begin

text \<open>
  The virtio block device of the host library, \<open>tools/lkl/lib/virtio_blk.c\<close>: what it does with a
  request taken from its queue. The disk's operations (\<open>struct lkl_dev_blk_ops\<close>) are an argument;
  the POSIX host's are those of \<open>Posix_Blk\<close>.
\<close>

definition blk_check_features :: "virtio_dev \<Rightarrow> int" where
  "blk_check_features dev = (if driver_features dev = device_features dev then 0 else - EINVAL)"

text \<open>The fields of \<open>struct lkl_virtio_blk_outhdr\<close> at an address.\<close>

definition load_bytes :: "bytes \<Rightarrow> addr \<Rightarrow> nat \<Rightarrow> u8 list" where
  "load_bytes b a n = map (\<lambda>i. b (a + word_of_nat i)) [0..<n]"

definition hdr_type :: "bytes \<Rightarrow> addr \<Rightarrow> u32" where
  "hdr_type b h = word_of_nat (le_val (load_bytes b h 4))"

definition hdr_ioprio :: "bytes \<Rightarrow> addr \<Rightarrow> u32" where
  "hdr_ioprio b h = word_of_nat (le_val (load_bytes b (h + 4) 4))"

definition hdr_sector :: "bytes \<Rightarrow> addr \<Rightarrow> u64" where
  "hdr_sector b h = word_of_nat (le_val (load_bytes b (h + 8) 8))"

text \<open>
  What happens before \<open>virtio_req_complete\<close>: \<open>le32toh (h->sector)\<close> keeps the low 32 bits of the
  sector only.
\<close>

definition blk_serve ::
  "'d lkl_dev_blk_ops \<Rightarrow> virtio_req \<Rightarrow> bytes \<times> 'd \<Rightarrow> (bytes \<times> 'd) option" where
  "blk_serve bops req s =
     (if buf_count req < 3 then Some s
      else
        let h = iov_base (buf req ! 0);
            t = iov_base (buf req ! (buf_count req - 1));
            b = (fst s)(t := word_of_int LKL_DEV_BLK_STATUS_IOERR) in
        if iov_len (buf req ! 0) \<noteq> 16 then Some (b, snd s)
        else if iov_len (buf req ! (buf_count req - 1)) \<noteq> 1 then Some (b, snd s)
        else do {
          (st, b, d) \<leftarrow> request bops \<lparr>br_type = hdr_type b h, br_prio = hdr_ioprio b h,
              br_sector = ucast (ucast (hdr_sector b h) :: u32), br_buf = take (buf_count req - 2) (drop 1 (buf req))\<rparr> (b, snd s);
          Some (b(t := word_of_int st), d)
        })"

definition blk_enqueue ::
  "'d lkl_dev_blk_ops \<Rightarrow> virtio_dev \<Rightarrow> nat \<Rightarrow> virtio_req_ctx \<Rightarrow> 'd vworld \<Rightarrow>
   (int \<times> virtio_dev \<times> 'd vworld) option" where
  "blk_enqueue bops dev q rq w = do {
     (b, d) \<leftarrow> blk_serve bops (rq_req rq) (m_byte (w_mem w), w_disk w);
     (dev, w) \<leftarrow> virtio_req_complete dev rq 0 (w\<lparr>w_mem := (w_mem w)\<lparr>m_byte := b\<rparr>, w_disk := d\<rparr>);
     Some (0, dev, w)
   }"

definition blk_ops ::
  "'d lkl_dev_blk_ops \<Rightarrow> 'd virtio_dev_ops" where
  "blk_ops bops = \<lparr>op_check_features = blk_check_features, op_enqueue = blk_enqueue bops,
     op_acquire_queue = None, op_release_queue = None\<rparr>"

interpretation blk: virtqueue_backend "blk_ops bops" "blk_serve bops" for bops
  by unfold_locales (simp_all add: blk_ops_def blk_enqueue_def)

text \<open>
  C12: notifying the block device processes every request the driver published, in order: the device
  stops at the driver's index, memory and disk are those after serving the requests one after the
  other, the used ring holds their heads in the same order with length 0, the available event is the
  index reached and the driver is interrupted when there was a request.
\<close>

theorem blk_process_queue_fifo:
  assumes "aget (queue dev) qi = Some q" "ready q \<noteq> 0" "queue_ok q (w_mem w)" "max_merge_len q = 0"
    and "pending_requests q (w_mem w) xss" "length xss \<le> unat (num q)"
    and "opt_fold (blk_serve bops) (map (chain_req (the (m_desc (w_mem w) (q_desc q)))) xss)
      (m_byte (w_mem w), w_disk w) = Some (b, d)"
    and "m_used (w_mem w) (q_used q) = Some u"
  shows "\<exists>dev' w' u'. virtio_process_queue (blk_ops bops) dev qi w = Some (dev', w') \<and>
    m_byte (w_mem w') = b \<and> w_disk w' = d \<and> m_used (w_mem w') (q_used q) = Some u' \<and>
    last_avail_idx (queue dev' ! qi) = a_idx (the (m_avail (w_mem w) (q_avail q))) \<and>
    u_idx u' = u_idx u + word_of_nat (length xss) \<and>
    (\<forall>k < length xss. u_ring u' ! ring_pos q (u_idx u + word_of_nat k) =
       \<lparr>ue_id = ucast (avail_head q (w_mem w) (last_avail_idx q + word_of_nat k)), ue_len = 0\<rparr>) \<and>
    (xss \<noteq> [] \<longrightarrow> u_avail_event u' = a_idx (the (m_avail (w_mem w) (q_avail q))) \<and>
       (\<exists>irqs. w_irqs w' = w_irqs w @ irq dev # irqs) \<and> int_status dev' AND 1 = 1)"
  by (rule blk.process_queue_fifo [OF assms])

section \<open>One request\<close>

text \<open>The buffers of a block request: the header, the data, the status byte.\<close>

definition blk_bufs :: "addr \<Rightarrow> iovec list \<Rightarrow> addr \<Rightarrow> virtio_req \<Rightarrow> bool" where
  "blk_bufs h data t req \<longleftrightarrow> data \<noteq> [] \<and>
     buf req = \<lparr>iov_base = h, iov_len = 16\<rparr> # data @ [\<lparr>iov_base = t, iov_len = 1\<rparr>]"

lemma blk_bufs_parts:
  assumes "blk_bufs h data t req"
  shows "\<not> buf_count req < 3" "buf req ! 0 = \<lparr>iov_base = h, iov_len = 16\<rparr>"
    and "buf req ! (buf_count req - 1) = \<lparr>iov_base = t, iov_len = 1\<rparr>" "take (buf_count req - 2) (drop 1 (buf req)) = data"
proof -
  have l: "buf_count req = length data + 2" using assms by (simp add: blk_bufs_def)
  moreover have "0 < length data" using assms by (simp add: blk_bufs_def)
  ultimately show "\<not> buf_count req < 3" by linarith
  show "buf req ! 0 = \<lparr>iov_base = h, iov_len = 16\<rparr>" using assms by (simp add: blk_bufs_def)
  show "buf req ! (buf_count req - 1) = \<lparr>iov_base = t, iov_len = 1\<rparr>" "take (buf_count req - 2) (drop 1 (buf req)) = data"
    using assms unfolding l by (simp_all add: blk_bufs_def nth_append)
qed

lemma blk_serve_eq:
  assumes "blk_bufs h data t req" "b' = b(t := 1)"
  shows "blk_serve bops req (b, d) = do {
    (st, b, d) \<leftarrow> request bops \<lparr>br_type = hdr_type b' h, br_prio = hdr_ioprio b' h,
        br_sector = ucast (ucast (hdr_sector b' h) :: u32), br_buf = data\<rparr> (b', d);
    Some (b(t := word_of_int st), d)
  }"
  using blk_bufs_parts [OF assms(1)] assms(2) by (simp add: blk_serve_def Let_def)

lemma hdr_status:
  assumes "t \<notin> region \<lparr>iov_base = h, iov_len = 16\<rparr>"
  shows "hdr_type (b(t := x)) h = hdr_type b h" "hdr_ioprio (b(t := x)) h = hdr_ioprio b h" "hdr_sector (b(t := x)) h = hdr_sector b h"
proof -
  have ne: "h + word_of_nat i \<noteq> t" if "i < 16" for i
    using in_region [of i "\<lparr>iov_base = h, iov_len = 16\<rparr>"] that assms by auto
  have "load_bytes (b(t := x)) (h + word_of_nat j) n = load_bytes b (h + word_of_nat j) n" if "j + n \<le> 16" for j n
    using that ne [of "j + _"] by (simp add: load_bytes_def add.assoc)
  from this [of 0 4] this [of 4 4] this [of 8 8]
  show "hdr_type (b(t := x)) h = hdr_type b h" "hdr_ioprio (b(t := x)) h = hdr_ioprio b h" "hdr_sector (b(t := x)) h = hdr_sector b h"
    by (simp_all add: hdr_type_def hdr_ioprio_def hdr_sector_def)
qed

lemma low_sector: "uint (ucast (ucast (x :: u64) :: u32) :: u64) = uint x mod 2 ^ 32"
proof -
  have "ucast (ucast x :: u32) = take_bit 32 x" by (rule bit_word_eqI) (auto simp: bit_simps)
  then show ?thesis by (simp only: uint_take_bit_mod)
qed

text \<open>
  C13: a well-formed read request through the block device on a POSIX disk: the data buffers receive
  the disk's bytes, the status byte says success and nothing else changes. The disk is read at the low
  32 bits of the sector in the header: from sector \<open>2 ^ 32\<close> on, a request reads other data than it
  asks for.
\<close>

theorem blk_read_request:
  assumes law: "pread_law (pio_pread io) content cap" and bufs: "blk_bufs h data t req"
    and ok: "good_bufs data" "disjoint_bufs data" "\<forall>v \<in> set data. t \<notin> region v"
    and t: "t \<notin> region \<lparr>iov_base = h, iov_len = 16\<rparr>" and ty: "hdr_type b h = LKL_DEV_BLK_TYPE_READ"
    and off: "off = 512 * (uint (hdr_sector b h) mod 2 ^ 32)" "off + req_bytes data \<le> cap d" "cap d < 2 ^ 63"
  shows "\<exists>b'. blk_serve (posix_blk_ops io) req (b, d) = Some (b', d) \<and> b' t = word_of_int LKL_DEV_BLK_STATUS_OK \<and>
    flat b' data = map (\<lambda>k. content d (off + int k)) [0..<nat (req_bytes data)] \<and>
    (\<forall>x. x \<noteq> t \<and> (\<forall>v \<in> set data. x \<notin> region v) \<longrightarrow> b' x = b x)"
proof -
  let ?b = "b(t := 1)" and ?req = "\<lparr>br_type = 0, br_prio = hdr_ioprio b h, br_sector = ucast (ucast (hdr_sector b h) :: u32), br_buf = data\<rparr>"
  have "off < 2 ^ 63" using off(2,3) req_bytes_nonneg [of data] by linarith
  then have s: "sint (br_sector ?req * 512) = off" "0 \<le> off"
    using sector_offset [of "br_sector ?req"] by (simp_all add: off(1) low_sector)
  obtain ret where r: "rw_bufs (pio_pread io) data off 0 (?b, d) = Some (ret, scatter_in (content d) off data ?b, d)" "0 \<le> ret"
    using rw_bufs_read [OF law ok(1) s(2) off(2), of 0 ?b] by auto
  let ?b' = "(scatter_in (content d) off data ?b)(t := 0)"
  have "blk_request io ?req (?b, d) = Some (0, scatter_in (content d) off data ?b, d)"
    using r by (simp add: blk_request_def do_rw_def s [simplified])
  then have "blk_serve (posix_blk_ops io) req (b, d) = Some (?b', d)"
    using blk_serve_eq [OF bufs refl, of "posix_blk_ops io" b d] ty by (simp add: hdr_status [OF t] posix_blk_ops_def)
  moreover have "flat ?b' data = flat (scatter_in (content d) off data ?b) data"
  proof -
    have "buf_bytes (g(t := 0)) v = buf_bytes g v" if "v \<in> set data" for g v
      using in_region [of _ v] ok(3) that by (auto simp: buf_bytes_def)
    then show ?thesis by (simp add: flat_def cong: map_cong)
  qed
  moreover have "?b' x = b x" if "x \<noteq> t" "\<forall>v \<in> set data. x \<notin> region v" for x
    using that by (simp add: scatter_in_other)
  ultimately show ?thesis using flat_scatter_in [OF ok(2)] by (intro exI [of _ ?b']) simp
qed

section \<open>A device with one request\<close>

text \<open>A queue of four descriptors with one published read request: header, 512 bytes, status.\<close>

definition demo_queue :: virtio_queue where
  "demo_queue = \<lparr>num_max = 32, num = 4, ready = 1, max_merge_len = 0, q_desc = 0x1000, q_avail = 0x2000, q_used = 0x3000,
     last_avail_idx = 0, last_used_idx_signaled = 0\<rparr>"

definition demo_dev :: virtio_dev where
  "demo_dev = \<lparr>device_id = 2, vendor_id = 0, device_features = 0x120000000, device_features_sel = 0,
     driver_features = 0x120000000, driver_features_sel = 0, queue_sel = 0, queue = [demo_queue], queue_notify = 0,
     int_status = 0, status = 15, config_gen = 0, irq = 1, config_data = replicate 60 0, config_len = 60,
     base = 0x1000000, virtio_mmio_id = 0\<rparr>"

definition demo_mem :: vmem where
  "demo_mem = \<lparr>m_desc = [0x1000 \<mapsto> [\<lparr>d_addr = 0x5000, d_len = 16, d_flags = 1, d_next = 1\<rparr>,
       \<lparr>d_addr = 0x6000, d_len = 512, d_flags = 3, d_next = 2\<rparr>, \<lparr>d_addr = 0x7000, d_len = 1, d_flags = 2, d_next = 0\<rparr>,
       \<lparr>d_addr = 0, d_len = 0, d_flags = 0, d_next = 0\<rparr>]],
     m_avail = [0x2000 \<mapsto> \<lparr>a_flags = 0, a_idx = 1, a_ring = [0, 0, 0, 0, 0]\<rparr>],
     m_used = [0x3000 \<mapsto> \<lparr>u_flags = 0, u_idx = 0, u_ring = replicate 4 \<lparr>ue_id = 0, ue_len = 0\<rparr>, u_avail_event = 0\<rparr>],
     m_byte = (\<lambda>_. 0)\<rparr>"

definition demo_world :: "disk_file vworld" where
  "demo_world = \<lparr>w_mem = demo_mem, w_irqs = [], w_disk = word_of_int\<rparr>"

definition demo_req :: virtio_req where
  "demo_req = \<lparr>buf = [\<lparr>iov_base = 0x5000, iov_len = 16\<rparr>, \<lparr>iov_base = 0x6000, iov_len = 512\<rparr>, \<lparr>iov_base = 0x7000, iov_len = 1\<rparr>],
     total_len = 529\<rparr>"

definition demo_bops :: "disk_file lkl_dev_blk_ops" where
  "demo_bops = \<lparr>get_capacity = (\<lambda>_. (0, 4096)), request = (\<lambda>r (b, d). Some (0, b, d))\<rparr>"

lemma demo_facts:
  "aget (queue demo_dev) 0 = Some demo_queue" "ready demo_queue \<noteq> 0" "max_merge_len demo_queue = 0" "unat (num demo_queue) = 4"
  "m_used (w_mem demo_world) (q_used demo_queue) = Some \<lparr>u_flags = 0, u_idx = 0, u_ring = replicate 4 \<lparr>ue_id = 0, ue_len = 0\<rparr>, u_avail_event = 0\<rparr>"
  by (simp_all add: demo_dev_def demo_queue_def demo_world_def demo_mem_def)

lemma demo_queue_ok: "queue_ok demo_queue (w_mem demo_world)"
  unfolding queue_ok_def
  by (intro conjI exI [of _ "2 :: nat"]) (simp_all add: demo_queue_def demo_world_def demo_mem_def)

lemma demo_pending: "pending_requests demo_queue (w_mem demo_world) [[0, 1, 2]]"
  by (simp add: pending_requests_def pending_count_def request_at_def avail_head_def ring_pos_def
      demo_queue_def demo_world_def demo_mem_def)

lemma demo_chain: "chain_req (the (m_desc (w_mem demo_world) (q_desc demo_queue))) [0, 1, 2] = demo_req"
  by (simp add: chain_req_def iov_of_def demo_req_def demo_queue_def demo_world_def demo_mem_def)

lemma demo_serve: "blk_serve demo_bops demo_req (\<lambda>_. 0, d) = Some (\<lambda>_. 0, d)"
  by (simp add: blk_serve_def demo_req_def demo_bops_def Let_def fun_upd_idem)

theorem blk_process_queue_fifo_witness:
  "\<exists>dev' w' u'. virtio_process_queue (blk_ops demo_bops) demo_dev 0 demo_world = Some (dev', w') \<and>
    m_used (w_mem w') 0x3000 = Some u' \<and> u_idx u' = 1 \<and> u_ring u' ! 0 = \<lparr>ue_id = 0, ue_len = 0\<rparr> \<and> (\<exists>irqs. w_irqs w' = 1 # irqs)"
proof -
  have s: "opt_fold (blk_serve demo_bops) (map (chain_req (the (m_desc (w_mem demo_world) (q_desc demo_queue)))) [[0, 1, 2]])
      (m_byte (w_mem demo_world), w_disk demo_world) = Some (\<lambda>_. 0, word_of_int)"
    unfolding list.map demo_chain using demo_serve by (simp add: demo_world_def demo_mem_def)
  have l: "length [[0 :: nat, 1, 2]] \<le> unat (num demo_queue)" by (simp add: demo_facts)
  have r: "ring_pos demo_queue 0 = 0" "irq demo_dev = 1" "q_used demo_queue = 0x3000" "w_irqs demo_world = []"
    "avail_head demo_queue (w_mem demo_world) 0 = 0" "last_avail_idx demo_queue = 0"
    by (simp_all add: avail_head_def ring_pos_def demo_queue_def demo_dev_def demo_world_def demo_mem_def)
  from blk_process_queue_fifo [OF demo_facts(1,2) demo_queue_ok demo_facts(3) demo_pending l s demo_facts(5)]
  show ?thesis by (force simp: r)
qed

lemma demo_disjoint: "0x7000 \<notin> region \<lparr>iov_base = 0x5000, iov_len = 16\<rparr>" "0x7000 \<notin> region \<lparr>iov_base = 0x6000, iov_len = 512\<rparr>"
  by (simp_all add: region_def)

theorem blk_read_request_witness:
  "\<exists>b'. blk_serve (posix_blk_ops chunk_io) demo_req (\<lambda>_. 0, word_of_int) = Some (b', word_of_int) \<and> b' 0x7000 = 0 \<and>
    flat b' [\<lparr>iov_base = 0x6000, iov_len = 512\<rparr>] = map (\<lambda>k. word_of_int (int k)) [0..<nat (req_bytes [\<lparr>iov_base = 0x6000, iov_len = 512\<rparr>])]"
proof -
  have z: "hdr_type (\<lambda>_. 0) 0x5000 = 0" "hdr_sector (\<lambda>_. 0) 0x5000 = 0"
    by (simp_all add: hdr_type_def hdr_sector_def load_bytes_def numeral_eq_Suc)
  have "blk_bufs 0x5000 [\<lparr>iov_base = 0x6000, iov_len = 512\<rparr>] 0x7000 demo_req" by (simp add: blk_bufs_def demo_req_def)
  from blk_read_request [OF chunk_io_laws(1) this _ _ _ demo_disjoint(1) z(1) refl, of word_of_int]
  show ?thesis using demo_disjoint(2) by (fastforce simp: z good_bufs_def req_bytes_def)
qed

end
