(* ===== verification/Virtio_Link.thy ===== *)
theory Virtio_Link
  imports Virtio_Mmio_Spec Virtio_Blk
begin

text \<open>
  The two sides of a queue together: the kernel's virtqueue, the memory-mapped registers between them
  and the device's queue. A request the driver exposes and kicks is served by the device before the
  kick returns, and the driver gets its token back with all descriptors; the state in which both
  sides agree is reached again, so any sequence of requests works.
\<close>

section \<open>Agreement\<close>

text \<open>
  Both sides work on the same ring, the device has taken everything the driver published and asks to
  be notified of the next request, and the driver has collected everything the device used.
\<close>

definition synced :: "'a vring_virtqueue \<Rightarrow> virtio_queue \<Rightarrow> vmem \<Rightarrow> bool" where
  "synced vq q m \<longleftrightarrow>
     num q = vq_num vq \<and> q_desc q = vq_desc vq \<and> q_avail q = vq_avail vq \<and> q_used q = vq_used vq \<and>
     last_avail_idx q = vq_avail_idx_shadow vq \<and> ready q \<noteq> 0 \<and> max_merge_len q = 0 \<and>
     vq_num_added vq = 0 \<and> vq_event vq \<and> \<not> vq_broken vq \<and>
     (\<exists>u. m_used m (vq_used vq) = Some u \<and> u_idx u = vq_last_used_idx vq \<and> u_avail_event u = vq_avail_idx_shadow vq)"

lemma synced_queue_ok: "synced vq q m \<Longrightarrow> vq_wf vq m \<Longrightarrow> queue_ok q m"
  by (auto simp: synced_def queue_ok_def elim!: vq_wfE)

lemma queue_ok_same_ring:
  "queue_ok q m \<Longrightarrow> num q' = num q \<Longrightarrow> q_desc q' = q_desc q \<Longrightarrow> q_avail q' = q_avail q \<Longrightarrow> q_used q' = q_used q \<Longrightarrow> queue_ok q' m"
  by (simp add: queue_ok_def)

section \<open>What the device sees of an exposed buffer\<close>

lemma chained_is_chain:
  assumes "queue_ok q m" "length t = unat (num q)"
  shows "chained t xs \<Longrightarrow> \<forall>i \<in> set xs. i < length t \<and> d_addr (t ! i) \<noteq> 0 \<and> d_len (t ! i) \<noteq> 0 \<Longrightarrow> is_chain q t xs"
proof (induction xs rule: induct_list012)
  case (3 i j xs)
  then have "unat (d_next (t ! i)) = j" "j < unat (num q)" using assms(2) by auto
  then have "ring_pos q (d_next (t ! i)) = j" by (simp add: ring_pos_mod [OF assms(1)])
  with 3 show ?case by simp
qed auto

text \<open>The request that stands for a scatter list.\<close>

definition sg_req :: "(scatter \<times> bool) list \<Rightarrow> virtio_req" where
  "sg_req sgl = \<lparr>buf = map (\<lambda>s. \<lparr>iov_base = sg_phys (fst s), iov_len = ucast (sg_length (fst s))\<rparr>) sgl,
     total_len = sum_list (map (\<lambda>s. sg_length (fst s)) sgl)\<rparr>"

lemma added_desc_sel [simp]: "d_addr (added_desc l s d) = sg_phys (fst s)" "d_len (added_desc l s d) = sg_length (fst s)"
  by (simp_all add: added_desc_def sg_desc_def Let_def)

lemma map_added_table:
  assumes "distinct free" "set free \<subseteq> {..<length t}" "length sgl \<le> length free"
    and "\<And>l s d. f (added_desc l s d) = g s"
  shows "map (\<lambda>i. f (added_table free sgl t ! i)) (take (length sgl) free) = map g sgl"
  using assms added_table_nth(1) [OF assms(1-3)] by (intro nth_equalityI) (simp_all add: min_absorb1)

lemma chain_req_added:
  assumes "distinct free" "set free \<subseteq> {..<length t}" "length sgl \<le> length free"
  shows "chain_req (added_table free sgl t) (take (length sgl) free) = sg_req sgl"
  using map_added_table [OF assms, of iov_of "\<lambda>s. \<lparr>iov_base = sg_phys (fst s), iov_len = ucast (sg_length (fst s))\<rparr>"]
    map_added_table [OF assms, of d_len "\<lambda>s. sg_length (fst s)"]
  by (simp add: chain_req_def sg_req_def iov_of_def)

lemma added_is_chain:
  assumes "queue_ok q m1" "length t = unat (num q)" "distinct free" "set free \<subseteq> {..<length t}" "linked t free"
    and "length sgl \<le> length free" "sgl \<noteq> []"
    and sg: "\<forall>s \<in> set sgl. sg_phys (fst s) \<noteq> 0 \<and> sg_length (fst s) \<noteq> 0"
  shows "is_chain q (added_table free sgl t) (take (length sgl) free)"
proof (rule chained_is_chain [OF assms(1)])
  let ?t = "added_table free sgl t"
  show "length ?t = unat (num q)" using assms(2) by simp
  show "chained ?t (take (length sgl) free)" by (rule added_chain(1) [OF assms(3-7)])
  show "\<forall>i \<in> set (take (length sgl) free). i < length ?t \<and> d_addr (?t ! i) \<noteq> 0 \<and> d_len (?t ! i) \<noteq> 0"
  proof
    fix i assume i: "i \<in> set (take (length sgl) free)"
    then obtain k where k: "k < length sgl" "i = free ! k" by (auto simp: in_set_conv_nth)
    then have "sgl ! k \<in> set sgl" by simp
    then show "i < length ?t \<and> d_addr (?t ! i) \<noteq> 0 \<and> d_len (?t ! i) \<noteq> 0"
      using added_table_nth(1) [OF assms(3,4,6) k(1)] k sg assms(4) in_set_takeD [OF i] by auto
  qed
qed

lemma vq_inv_free:
  assumes "vq_inv vq m free flight" "m_desc m (vq_desc vq) = Some t"
  shows "distinct free" "set free \<subseteq> {..<length t}" "linked t free" "length t = unat (vq_num vq)"
proof -
  show l: "length t = unat (vq_num vq)" using assms by (auto simp: vq_inv_def elim: vq_wfE)
  from assms have "mset free + (\<Sum>h<unat (vq_num vq). mset (flight h)) = mset [0..<unat (vq_num vq)]"
    by (simp add: vq_inv_def Let_def)
  from mset_upt_part [OF this] l show "distinct free" "set free \<subseteq> {..<length t}" by auto
  show "linked t free" using assms by (simp add: vq_inv_def Let_def)
qed

lemma added_request:
  assumes inv: "vq_inv vq m free flight" and sy: "synced vq q m"
    and sgl: "sgl \<noteq> []" "length sgl \<le> length free" "length sgl \<le> 19"
    and sg: "\<forall>s \<in> set sgl. sg_phys (fst s) \<noteq> 0 \<and> sg_length (fst s) \<noteq> 0"
    and t: "m_desc m (vq_desc vq) = Some t"
    and m1: "m1 = added_avail vq (put_desc (vq_desc vq) (added_table free sgl t) m)"
  shows "pending_requests q m1 [take (length sgl) free] \<and> queue_ok q m1 \<and>
    chain_req (the (m_desc m1 (q_desc q))) (take (length sgl) free) = sg_req sgl \<and>
    avail_head q m1 (last_avail_idx q) = word_of_nat (hd free) \<and> hd free < unat (vq_num vq) \<and> hd free < 2 ^ 16"
proof -
  let ?n = "length sgl" and ?t = "added_table free sgl t"
  note fr = vq_inv_free [OF inv t]
  from inv have wf: "vq_wf vq m" and hd: "hd free = unat (vq_free_head vq)"
    using sgl t by (auto simp: vq_inv_def Let_def)
  from wf obtain k a u where k: "k \<le> 15" "vq_num vq = 2 ^ k" "unat (vq_num vq) = 2 ^ k"
    and a: "m_avail m (vq_avail vq) = Some a" "length (a_ring a) = Suc (unat (vq_num vq))"
    and u: "m_used m (vq_used vq) = Some u" "length (u_ring u) = unat (vq_num vq)"
    by (rule vq_wfE)
  have "hd free \<in> set free" using sgl by (cases free) auto
  then have h: "hd free < unat (vq_num vq)" using fr(2,4) by auto
  then have n16: "hd free < 2 ^ 16" using k power_increasing [of k 15 "2 :: nat"] by simp
  have q: "num q = vq_num vq" "q_desc q = vq_desc vq" "q_avail q = vq_avail vq" "q_used q = vq_used vq"
    "last_avail_idx q = vq_avail_idx_shadow vq" using sy by (simp_all add: synced_def)
  define p where "p = ring_pos q (vq_avail_idx_shadow vq)"
  have pos: "unat (ucast (vq_avail_idx_shadow vq) AND (vq_num vq - 1) :: u32) = p" by (simp add: ring_pos_def q p_def)
  define a1 where "a1 = a\<lparr>a_ring := (a_ring a)[p := ucast (vq_free_head vq)], a_idx := vq_avail_idx_shadow vq + 1\<rparr>"
  have m1': "m_desc m1 (vq_desc vq) = Some ?t" "m_avail m1 (vq_avail vq) = Some a1" "m_used m1 = m_used m"
    using a by (simp_all add: m1 added_avail_def Let_def a1_def pos)
  have ok: "queue_ok q m1" using k fr(4) a u m1' by (auto simp: queue_ok_def q a1_def)
  have "p < length (a_ring a)" using ring_pos_less [OF ok] a(2) q(1) by (simp add: p_def less_Suc_eq)
  then have hd1: "avail_head q m1 (last_avail_idx q) = word_of_nat (hd free)"
    using m1' hd by (simp add: avail_head_def q p_def [symmetric] a1_def)
  have "unat (word_of_nat (hd free) :: u16) = hd free" using n16 by (intro unat_eqI [OF refl]) simp
  then have "ring_pos q (word_of_nat (hd free)) = hd free" using h by (simp add: ring_pos_mod [OF ok] q)
  moreover have "hd (take ?n free) = hd free" using sgl by (cases sgl) simp_all
  moreover have "is_chain q ?t (take ?n free)"
    using added_is_chain [OF ok _ fr(1-3) sgl(2,1) sg] fr(4) q(1) by simp
  moreover have "pending_count q m1 = 1" using m1' by (simp add: pending_count_def q a1_def)
  ultimately have "pending_requests q m1 [take ?n free]"
    using hd1 sgl(2,3) m1'(1) by (simp add: pending_requests_def request_at_def q)
  with ok hd1 h n16 chain_req_added [OF fr(1,2) sgl(2)] m1'(1) q(2) show ?thesis by simp
qed

section \<open>The driver's side of a round trip\<close>

lemma flight_of_free:
  assumes "vq_inv vq m free flight" "h \<in> set free"
  shows "h < unat (vq_num vq)" "flight h = []"
proof -
  have ms: "mset free + (\<Sum>h<unat (vq_num vq). mset (flight h)) = mset [0..<unat (vq_num vq)]"
    and fl: "\<And>h. h < unat (vq_num vq) \<Longrightarrow> flight h \<noteq> [] \<Longrightarrow> hd (flight h) = h"
    using assms(1) by (simp_all add: vq_inv_def Let_def)
  show h: "h < unat (vq_num vq)" using mset_upt_part [OF ms] assms(2) by auto
  show "flight h = []"
  proof (rule ccontr)
    assume "flight h \<noteq> []"
    then have "h \<in> set (flight h)" using fl [OF h] hd_in_set by metis
    then show False using flight_parts(1) [OF ms h] assms(2) by auto
  qed
qed

lemma vq_inv_used:
  assumes "vq_inv vq m free flight" "length (u_ring u') = unat (vq_num vq)"
  shows "vq_inv (vq\<lparr>vq_num_added := k\<rparr>) (m\<lparr>m_byte := bs, m_used := (m_used m)(vq_used vq \<mapsto> u')\<rparr>) free flight"
  using assms by (auto simp: vq_inv_def vq_wf_def Let_def)

lemma kick_needed:
  assumes "vq_wf vq m" "vq_event vq" "vq_num_added vq = 1"
    and "m_used m (vq_used vq) = Some u" "u_avail_event u = vq_avail_idx_shadow vq - 1"
  shows "virtqueue_kick_prepare vq m = Some (True, vq\<lparr>vq_num_added := 0\<rparr>)"
proof -
  have "length (u_ring u) = unat (vq_num vq)" using assms(1,4) by (auto elim: vq_wfE)
  then show ?thesis using assms(2-)
    by (simp add: virtqueue_kick_prepare_def vring_avail_event_def vring_need_event_def)
qed

lemma add_sgs_eq:
  assumes inv: "vq_inv vq m free flight" and sy: "synced vq q m" and t: "m_desc m (vq_desc vq) = Some t"
    and sgl: "sgl = sg_list sgs out_sgs in_sgs" "out_sgs + in_sgs \<le> length sgs"
    and len: "sgl \<noteq> []" "length sgl \<le> length free" "length sgl \<le> 19"
  shows "\<exists>i. virtqueue_add_sgs dma kmalloc notify sgs out_sgs in_sgs (Some tok) vq m x =
      Some (0, added_vq (word_of_nat (length sgl)) i tok vq, added_avail vq (put_desc (vq_desc vq) (added_table free sgl t) m), x) \<and>
    vq_inv (added_vq (word_of_nat (length sgl)) i tok vq) (added_avail vq (put_desc (vq_desc vq) (added_table free sgl t) m))
      (drop (length sgl) free) (flight(hd free := take (length sgl) free))"
proof -
  let ?n = "word_of_nat (length sgl) :: u32"
  have n: "unat ?n = length sgl" using len(3) by (intro unat_eqI [OF refl]) simp
  have "length sgl = length (concat (take out_sgs sgs) @ concat (take in_sgs (drop out_sgs sgs)))"
    by (simp add: sgl sg_list_def)
  also have "\<dots> = length (concat (take (out_sgs + in_sgs) sgs))" by (simp add: take_add)
  finally have l: "length (concat (take (out_sgs + in_sgs) sgs)) = length sgl" by simp
  have nb: "\<not> vq_broken vq" "vq_num_added vq \<noteq> 65534" using sy by (simp_all add: synced_def)
  obtain i where i: "virtqueue_add dma kmalloc notify sgs ?n out_sgs in_sgs (Some tok) vq m x =
      Some (0, added_vq ?n i tok vq, added_avail vq (put_desc (vq_desc vq) (added_table free sgl t) m), x)"
    "length sgl < length free \<longrightarrow> unat i = free ! length sgl"
    using virtqueue_add_eq [OF inv nb(1) sgl n len(1,2) nb(2) t, of dma kmalloc notify tok x] by blast
  then show ?thesis
    using added_inv [OF inv n len(1,2) t i(2), of tok] sgl(2) l by (auto simp: virtqueue_add_sgs_def)
qed

lemma drained_used_one:
  assumes "queue_ok q m" "m_used m (q_used q) = Some u"
  shows "u_idx (drained_used q m 1) = u_idx u + 1" "length (u_ring (drained_used q m 1)) = unat (num q)"
    and "u_ring (drained_used q m 1) ! (unat (u_idx u) mod unat (num q)) = \<lparr>ue_id = ucast (avail_head q m (last_avail_idx q)), ue_len = 0\<rparr>"
    and "u_avail_event (drained_used q m 1) = a_idx (the (m_avail m (q_avail q)))"
proof -
  have "length (u_ring u) = unat (num q)" using assms by (auto elim: queue_okE)
  then show "u_idx (drained_used q m 1) = u_idx u + 1" "length (u_ring (drained_used q m 1)) = unat (num q)"
    "u_ring (drained_used q m 1) ! (unat (u_idx u) mod unat (num q)) = \<lparr>ue_id = ucast (avail_head q m (last_avail_idx q)), ue_len = 0\<rparr>"
    "u_avail_event (drained_used q m 1) = a_idx (the (m_avail m (q_avail q)))"
    using assms(2) ring_pos_less [OF assms(1), of "u_idx u"]
    by (simp_all add: drained_used_def pending_heads_def used_push_def ring_pos_mod [OF assms(1)])
qed

text \<open>After the device has used the one buffer it was given, the driver collects it.\<close>

lemma collect_used:
  assumes inv: "vq_inv vq m free flight" and nb: "\<not> vq_broken vq" and ok: "queue_ok q m"
    and q: "num q = vq_num vq" "q_used q = vq_used vq"
    and u: "m_used m (vq_used vq) = Some u" "u_idx u = vq_last_used_idx vq"
    and h: "avail_head q m (last_avail_idx q) = word_of_nat h" "h < unat (vq_num vq)" "h < 2 ^ 16" "flight h \<noteq> []"
    and m2: "m2 = m\<lparr>m_byte := mb, m_used := (m_used m)(vq_used vq \<mapsto> drained_used q m 1)\<rparr>"
    and vq3: "vq3 = (detached_vq (word_of_nat h) (length (flight h)) (vq\<lparr>vq_num_added := 0\<rparr>))
      \<lparr>vq_last_used_idx := vq_last_used_idx vq + 1\<rparr>"
  shows "\<exists>tok m3. virtqueue_get_buf (vq\<lparr>vq_num_added := 0\<rparr>) m2 = Some (Some tok, Some 0, vq3, m3) \<and>
    ds_data (vq_desc_state vq ! h) = Some tok \<and> vq_inv vq3 m3 (flight h @ free) (flight(h := [])) \<and>
    m_used m3 (vq_used vq) = Some (drained_used q m 1) \<and> m_byte m3 = mb"
proof -
  let ?vq = "vq\<lparr>vq_num_added := 0\<rparr>" and ?u = "drained_used q m 1"
  have u': "m_used m (q_used q) = Some u" using u q by simp
  note d = drained_used_one [OF ok u']
  have i2: "vq_inv ?vq m2 free flight" using vq_inv_used [OF inv, of ?u 0 mb] d(2) q(1) by (simp add: m2)
  have used: "m_used m2 (vq_used ?vq) = Some ?u" by (simp add: m2)
  have ne: "u_idx ?u \<noteq> vq_last_used_idx ?vq" using d(1) u(2) by simp
  have h16: "unat (word_of_nat h :: u16) = h" and hh: "unat (word_of_nat h :: u32) = h"
    using h(3) by (intro unat_eqI [OF refl], simp)+
  then have "(ucast (word_of_nat h :: u16) :: u32) = word_of_nat h" by (simp add: word_unat_eq_iff unat_ucast_up)
  then have e: "\<lparr>ue_id = word_of_nat h, ue_len = 0\<rparr> = u_ring ?u ! (unat (vq_last_used_idx ?vq) mod unat (vq_num ?vq))"
    using d(3) u(2) q(1) h(1) by simp
  have lt: "ue_id \<lparr>ue_id = word_of_nat h, ue_len = 0 :: u32\<rparr> < vq_num ?vq" using h(2) hh by (simp add: word_less_nat_alt)
  have "h = unat (ue_id \<lparr>ue_id = word_of_nat h, ue_len = 0 :: u32\<rparr>)" using hh by simp
  from get_buf_eq [OF i2 _ used ne e this lt h(4), of vq3] nb vq3
  show ?thesis by (auto simp: m2)
qed

lemma drained_cases:
  assumes "drained qi q 1 mb dk dev w dev' w'"
  obtains sig irqs where "dev' = dev\<lparr>queue := (queue dev)[qi :=
      q\<lparr>last_avail_idx := a_idx (the (m_avail (w_mem w) (q_avail q))), last_used_idx_signaled := sig\<rparr>], int_status := int_status dev OR 1\<rparr>"
    and "w_irqs w' = w_irqs w @ irq dev # irqs" "w_disk w' = dk"
    and "w_mem w' = (w_mem w)\<lparr>m_byte := mb, m_used := (m_used (w_mem w))(q_used q \<mapsto> drained_used q (w_mem w) 1)\<rparr>"
proof -
  from assms [unfolded drained_def] obtain sig irqs where d: "dev' = dev\<lparr>queue := (queue dev)[qi :=
      q\<lparr>last_avail_idx := a_idx (the (m_avail (w_mem w) (q_avail q))), last_used_idx_signaled := sig\<rparr>],
      int_status := int_status dev OR (if irqs = [] then 0 else 1)\<rparr>"
    and w: "w' = w\<lparr>w_mem := (w_mem w)\<lparr>m_byte := mb, m_used := (m_used (w_mem w))(q_used q \<mapsto> drained_used q (w_mem w) 1)\<rparr>,
          w_irqs := w_irqs w @ irqs, w_disk := dk\<rparr>" and i: "set irqs \<subseteq> {irq dev}" "(1 :: nat) \<noteq> 0 \<longrightarrow> irqs \<noteq> []"
    by blast
  obtain irqs' where e: "irqs = irq dev # irqs'" using i by (cases irqs) auto
  show ?thesis by (rule that [of sig irqs']) (use d w in \<open>simp_all add: e\<close>)
qed

lemma collect_added:
  assumes inv: "vq_inv vq m free flight" and sy: "synced vq q m" and t: "m_desc m (vq_desc vq) = Some t"
    and len: "sgl \<noteq> []" "length sgl \<le> length free"
    and vq1: "vq1 = added_vq n i tok vq" and m1: "m1 = added_avail vq (put_desc (vq_desc vq) (added_table free sgl t) m)"
    and i1: "vq_inv vq1 m1 (drop (length sgl) free) (flight(hd free := take (length sgl) free))"
    and ok: "queue_ok q m1" and ah: "avail_head q m1 (last_avail_idx q) = word_of_nat (hd free)"
    and h: "hd free < unat (vq_num vq)" "hd free < 2 ^ 16"
    and m2: "m2 = m1\<lparr>m_byte := mb, m_used := (m_used m1)(q_used q \<mapsto> drained_used q m1 1)\<rparr>"
    and q': "q' = q\<lparr>last_avail_idx := a_idx (the (m_avail m1 (q_avail q))), last_used_idx_signaled := sig\<rparr>"
  shows "\<exists>vq3 m3. virtqueue_get_buf (vq1\<lparr>vq_num_added := 0\<rparr>) m2 = Some (Some tok, Some 0, vq3, m3) \<and>
    vq_inv vq3 m3 free flight \<and> synced vq3 q' m3 \<and> vq_index vq3 = vq_index vq \<and> m_byte m3 = mb"
proof -
  let ?h = "hd free" and ?xs = "take (length sgl) free"
  from sy obtain u where u: "m_used m (vq_used vq) = Some u" "u_idx u = vq_last_used_idx vq" by (auto simp: synced_def)
  have qv: "num q = vq_num vq" "q_desc q = vq_desc vq" "q_avail q = vq_avail vq" "q_used q = vq_used vq"
    "ready q \<noteq> 0" "max_merge_len q = 0" "vq_event vq" "\<not> vq_broken vq"
    using sy by (simp_all add: synced_def)
  have v1: "vq_vring vq1 = vq_vring vq" "vq_event vq1" "vq_avail_idx_shadow vq1 = vq_avail_idx_shadow vq + 1"
    "vq_index vq1 = vq_index vq" "\<not> vq_broken vq1" "vq_last_used_idx vq1 = vq_last_used_idx vq"
    using qv by (simp_all add: vq1 added_vq_def)
  have u1: "m_used m1 = m_used m" and ai: "a_idx (the (m_avail m1 (q_avail q))) = vq_avail_idx_shadow vq + 1"
    using qv(3) by (simp_all add: m1 added_avail_def Let_def put_desc_def)
  define fl where "fl = flight(?h := ?xs)"
  have "?h \<in> set free" using len by (cases free) auto
  then have "flight ?h = []" by (rule flight_of_free(2) [OF inv])
  then have xs: "fl ?h = ?xs" "fl ?h \<noteq> []" "fl(?h := []) = flight" using len by (auto simp: fl_def fun_eq_iff)
  define vq3 where "vq3 = (detached_vq (word_of_nat ?h) (length (fl ?h)) (vq1\<lparr>vq_num_added := 0\<rparr>))
    \<lparr>vq_last_used_idx := vq_last_used_idx vq1 + 1\<rparr>"
  have c: "num q = vq_num vq1" "q_used q = vq_used vq1" "m_used m1 (vq_used vq1) = Some u" "u_idx u = vq_last_used_idx vq1"
    "?h < unat (vq_num vq1)" using qv u u1 v1 h by simp_all
  from collect_used [OF i1 [folded fl_def] v1(5) ok c(1-4) ah c(5) h(2) xs(2) m2 [unfolded c(2)] vq3_def] obtain tok' m3
    where g: "virtqueue_get_buf (vq1\<lparr>vq_num_added := 0\<rparr>) m2 = Some (Some tok', Some 0, vq3, m3)"
      "ds_data (vq_desc_state vq1 ! ?h) = Some tok'" "m_used m3 (vq_used vq1) = Some (drained_used q m1 1)" "m_byte m3 = mb"
    and i3: "vq_inv vq3 m3 (fl ?h @ drop (length sgl) free) (fl(?h := []))" by blast
  have "length (vq_desc_state vq) = unat (vq_num vq)" "?h = unat (vq_free_head vq)"
    using inv len by (auto simp: vq_inv_def vq_wf_def Let_def)
  then have t': "tok' = tok" using g(2) h by (simp add: vq1 added_vq_def)
  have i3': "vq_inv vq3 m3 free flight" using i3 xs by simp
  have mu: "m_used m1 (q_used q) = Some u" using c by simp
  note du = drained_used_one(1,4) [OF ok mu]
  have v3: "vq_vring vq3 = vq_vring vq" "vq_event vq3" "vq_avail_idx_shadow vq3 = vq_avail_idx_shadow vq + 1" "vq_num_added vq3 = 0"
    "vq_index vq3 = vq_index vq" "\<not> vq_broken vq3" "vq_last_used_idx vq3 = vq_last_used_idx vq + 1"
    using v1 by (simp_all add: vq3_def detached_vq_def)
  have sy': "synced vq3 q' m3"
    unfolding synced_def q' v3 using qv g(3) ai du u(2) v1(1) by (simp add: v3)
  show ?thesis by (intro exI conjI) (rule g(1) [unfolded t'] i3' sy' v3(5) g(4))+
qed

text \<open>
  One request as a driver that waits for it issues it: expose the buffers, kick, collect. The result is
  the token collected and the state after. A list of requests is issued one after the other.
\<close>

type_synonym 'a sync_req = "scatter list list \<times> nat \<times> nat \<times> 'a"

definition sync_request ::
  "dma_ops \<Rightarrow> (nat \<Rightarrow> addr) \<Rightarrow> 'd bus \<Rightarrow> addr \<Rightarrow> 'a sync_req \<Rightarrow> 'a vring_virtqueue \<times> 'd bus_world \<Rightarrow>
   ('a option \<times> 'a vring_virtqueue \<times> 'd bus_world) option" where
  "sync_request dma kmalloc rs b = (\<lambda>(sgs, out_sgs, in_sgs, tok) (vq, w). do {
     (r, vq, m, w) \<leftarrow> virtqueue_add_sgs dma kmalloc (vm_notify rs b) sgs out_sgs in_sgs (Some tok) vq (bus_mem w) w;
     if r \<noteq> 0 then None
     else do {
       (k, vq, m, w) \<leftarrow> virtqueue_kick (vm_notify rs b) vq m w;
       (t, l, vq, m) \<leftarrow> virtqueue_get_buf vq m;
       Some (t, vq, set_mem m w)
     }
   })"

fun sync_requests ::
  "dma_ops \<Rightarrow> (nat \<Rightarrow> addr) \<Rightarrow> 'd bus \<Rightarrow> addr \<Rightarrow> 'a sync_req list \<Rightarrow> 'a vring_virtqueue \<times> 'd bus_world \<Rightarrow>
   ('a option list \<times> 'a vring_virtqueue \<times> 'd bus_world) option" where
  "sync_requests dma kmalloc rs b [] s = Some ([], s)"
| "sync_requests dma kmalloc rs b (r # rs') s = do {
     (t, s) \<leftarrow> sync_request dma kmalloc rs b r s;
     (ts, s) \<leftarrow> sync_requests dma kmalloc rs b rs' s;
     Some (t # ts, s)
   }"

text \<open>The scatter list of a request, and that a queue with \<open>n\<close> descriptors can take it.\<close>

definition req_sgl :: "'a sync_req \<Rightarrow> (scatter \<times> bool) list" where
  "req_sgl = (\<lambda>(sgs, out_sgs, in_sgs, tok). sg_list sgs out_sgs in_sgs)"

definition req_fits :: "nat \<Rightarrow> 'a sync_req \<Rightarrow> bool" where
  "req_fits n r \<longleftrightarrow> (case r of (sgs, out_sgs, in_sgs, tok) \<Rightarrow> out_sgs + in_sgs \<le> length sgs) \<and>
     req_sgl r \<noteq> [] \<and> length (req_sgl r) \<le> n \<and> length (req_sgl r) \<le> VIRTIO_REQ_MAX_BUFS \<and>
     (\<forall>s \<in> set (req_sgl r). sg_phys (fst s) \<noteq> 0 \<and> sg_length (fst s) \<noteq> 0)"

text \<open>Driver and device agree about the queue, \<open>free\<close> are the free descriptors.\<close>

definition agree :: "addr \<Rightarrow> 'd virtio_dev_ops \<Rightarrow> nat list \<Rightarrow> (nat \<Rightarrow> nat list) \<Rightarrow> 'a vring_virtqueue \<Rightarrow> 'd bus_world \<Rightarrow> bool" where
  "agree data ops free flight vq w \<longleftrightarrow> vq_inv vq (bus_mem w) free flight \<and>
     (\<exists>dev q. bw_devs w data = Some (dev, ops) \<and> aget (queue dev) (unat (vq_index vq)) = Some q \<and> synced vq q (bus_mem w))"

section \<open>A request there and back\<close>

context virtqueue_backend begin

lemma kick_serves:
  assumes on: "on_bus rs b data sz" and dev: "bw_devs w data = Some (dev, ops)"
    and q: "aget (queue dev) (unat (vq_index vq)) = Some q" "ready q \<noteq> 0" "max_merge_len q = 0"
    and k: "virtqueue_kick_prepare vq m = Some (True, vq')" "\<not> vq_broken vq'" "vq_index vq' = vq_index vq"
    and r: "pending_requests q m [xs]" "queue_ok q m"
    and s: "serve (chain_req (the (m_desc m (q_desc q))) xs) (m_byte m, w_disk (bw_world w)) = Some (mb, dk)"
  shows "\<exists>dev' vw'. virtqueue_kick (vm_notify rs b) vq m w = Some (True, vq', w_mem vw', put_dev data dev' ops vw' w) \<and>
    drained (unat (vq_index vq)) q 1 mb dk dev ((bw_world w)\<lparr>w_mem := m\<rparr>) dev' vw'"
proof -
  let ?w = "(bw_world w)\<lparr>w_mem := m\<rparr>"
  have "opt_fold serve (map (chain_req (the (m_desc (w_mem ?w) (q_desc q)))) [xs]) (m_byte (w_mem ?w), w_disk ?w) = Some (mb, dk)"
    using s by simp
  then obtain dev' vw' where p: "virtio_process_queue ops dev (unat (vq_index vq)) ?w = Some (dev', vw')"
    "drained (unat (vq_index vq)) q (length [xs]) mb dk dev ?w dev' vw'"
    using process_queue [of dev "unat (vq_index vq)" q ?w "[xs]" mb dk] q r by auto
  have "writel rs (vq_index vq) (reg_addr b VIRTIO_MMIO_QUEUE_NOTIFY) (set_mem m w) = Some (put_dev data dev' ops vw' w)"
    using dev p(1) by (simp add: writel_reg [OF on] virtio_write_reg_def set_mem_def put_dev_def)
  then show ?thesis using k p(2)
    by (intro exI [of _ dev'] exI [of _ vw']) (simp add: virtqueue_kick_def virtqueue_notify_def vm_notify_def)
qed

lemma request_roundtrip:
  assumes on: "on_bus rs b data sz" and dev: "bw_devs w data = Some (dev, ops)"
    and q: "aget (queue dev) (unat (vq_index vq)) = Some q"
    and inv: "vq_inv vq (bus_mem w) free flight" and sy: "synced vq q (bus_mem w)"
    and sgl: "sgl = sg_list sgs out_sgs in_sgs" "out_sgs + in_sgs \<le> length sgs"
    and len: "sgl \<noteq> []" "length sgl \<le> length free" "length sgl \<le> 19"
    and sg: "\<forall>s \<in> set sgl. sg_phys (fst s) \<noteq> 0 \<and> sg_length (fst s) \<noteq> 0"
    and s: "serve (sg_req sgl) (m_byte (bus_mem w), w_disk (bw_world w)) = Some (mb, dk)"
  shows "\<exists>vq1 m1 vq2 m2 w2 vq3 m3 dev' q'.
    virtqueue_add_sgs dma kmalloc notify sgs out_sgs in_sgs (Some tok) vq (bus_mem w) x = Some (0, vq1, m1, x) \<and>
    virtqueue_kick (vm_notify rs b) vq1 m1 w = Some (True, vq2, m2, w2) \<and>
    virtqueue_get_buf vq2 m2 = Some (Some tok, Some 0, vq3, m3) \<and>
    bw_devs w2 data = Some (dev', ops) \<and> aget (queue dev') (unat (vq_index vq)) = Some q' \<and>
    vq_inv vq3 m3 free flight \<and> synced vq3 q' m3 \<and> vq_index vq3 = vq_index vq \<and> m_byte m3 = mb \<and>
    w_disk (bw_world w2) = dk \<and> int_status dev' AND 1 = 1 \<and> (\<exists>irqs. w_irqs (bw_world w2) = w_irqs (bw_world w) @ irq dev # irqs)"
proof -
  let ?m = "bus_mem w" and ?h = "hd free" and ?xs = "take (length sgl) free"
  from inv obtain t where t: "m_desc ?m (vq_desc vq) = Some t" by (auto simp: vq_inv_def elim: vq_wfE)
  define m1 where "m1 = added_avail vq (put_desc (vq_desc vq) (added_table free sgl t) ?m)"
  from add_sgs_eq [OF inv sy t sgl len, of dma kmalloc notify tok x, folded m1_def] obtain i where
    a: "virtqueue_add_sgs dma kmalloc notify sgs out_sgs in_sgs (Some tok) vq ?m x = Some (0, added_vq (word_of_nat (length sgl)) i tok vq, m1, x)"
    and i1: "vq_inv (added_vq (word_of_nat (length sgl)) i tok vq) m1 (drop (length sgl) free) (flight(?h := ?xs))" by blast
  define vq1 where "vq1 = added_vq (word_of_nat (length sgl)) i tok vq"
  note ra = added_request [OF inv sy len sg t m1_def]
  from sy obtain u where u: "m_used ?m (vq_used vq) = Some u" "u_avail_event u = vq_avail_idx_shadow vq" by (auto simp: synced_def)
  have qv: "ready q \<noteq> 0" "max_merge_len q = 0" using sy by (simp_all add: synced_def)
  have v1: "vq_vring vq1 = vq_vring vq" "vq_event vq1" "vq_num_added vq1 = 1" "vq_avail_idx_shadow vq1 = vq_avail_idx_shadow vq + 1"
    "vq_index vq1 = vq_index vq" "\<not> vq_broken vq1"
    using sy by (simp_all add: vq1_def added_vq_def synced_def)
  have u1: "m_used m1 = m_used ?m" "m_byte m1 = m_byte ?m" by (simp_all add: m1_def added_avail_def Let_def put_desc_def)
  have wf1: "vq_wf vq1 m1" using i1 by (simp add: vq1_def vq_inv_def)
  let ?vq2 = "vq1\<lparr>vq_num_added := 0\<rparr>"
  have kp: "virtqueue_kick_prepare vq1 m1 = Some (True, ?vq2)"
    using kick_needed [OF wf1 v1(2,3), of u] u u1 v1 by simp
  have "serve (chain_req (the (m_desc m1 (q_desc q))) ?xs) (m_byte m1, w_disk (bw_world w)) = Some (mb, dk)"
    using s ra u1 by simp
  from kick_serves [OF on dev _ qv kp _ _ _ _ this] q ra v1 obtain dev' vw' where
    kk: "virtqueue_kick (vm_notify rs b) vq1 m1 w = Some (True, ?vq2, w_mem vw', put_dev data dev' ops vw' w)"
    and dr: "drained (unat (vq_index vq)) q 1 mb dk dev ((bw_world w)\<lparr>w_mem := m1\<rparr>) dev' vw'" by auto
  have e: "w_mem ((bw_world w)\<lparr>w_mem := m1\<rparr>) = m1" "w_irqs ((bw_world w)\<lparr>w_mem := m1\<rparr>) = w_irqs (bw_world w)" by simp_all
  from drained_cases [OF dr, unfolded e] obtain sig irqs where
    d: "dev' = dev\<lparr>queue := (queue dev)[unat (vq_index vq) :=
        q\<lparr>last_avail_idx := a_idx (the (m_avail m1 (q_avail q))), last_used_idx_signaled := sig\<rparr>], int_status := int_status dev OR 1\<rparr>"
      "w_irqs vw' = w_irqs (bw_world w) @ irq dev # irqs" "w_disk vw' = dk"
      "w_mem vw' = m1\<lparr>m_byte := mb, m_used := (m_used m1)(q_used q \<mapsto> drained_used q m1 1)\<rparr>"
    by blast
  define q' where "q' = q\<lparr>last_avail_idx := a_idx (the (m_avail m1 (q_avail q))), last_used_idx_signaled := sig\<rparr>"
  from collect_added [OF inv sy t len(1,2) vq1_def m1_def i1 [folded vq1_def] _ _ _ _ d(4) q'_def] ra obtain vq3 m3
    where g: "virtqueue_get_buf ?vq2 (w_mem vw') = Some (Some tok, Some 0, vq3, m3)" "vq_inv vq3 m3 free flight"
      "synced vq3 q' m3" "vq_index vq3 = vq_index vq" "m_byte m3 = mb" by blast
  let ?w2 = "put_dev data dev' ops vw' w"
  have st: "int_status dev' AND 1 = 1" unfolding d(1) by (rule bit_word_eqI) (auto simp: bit_simps)
  have qa: "aget (queue dev') (unat (vq_index vq)) = Some q'" using q d(1) by (auto simp: aget_Some_iff q'_def)
  have w2: "bw_devs ?w2 data = Some (dev', ops)" "w_disk (bw_world ?w2) = dk"
    "w_irqs (bw_world ?w2) = w_irqs (bw_world w) @ irq dev # irqs" using d by simp_all
  show ?thesis
    by (intro exI conjI) (rule a [folded vq1_def] kk g w2 qa st)+
qed

lemma sync_request_served:
  assumes on: "on_bus rs b data sz" and ag: "agree data ops free flight vq w" and fit: "req_fits (length free) r"
    and s: "serve (sg_req (req_sgl r)) (m_byte (bus_mem w), w_disk (bw_world w)) = Some (mb, dk)"
  shows "\<exists>vq' w'. sync_request dma kmalloc rs b r (vq, w) = Some (Some (snd (snd (snd r))), vq', w') \<and>
    agree data ops free flight vq' w' \<and> m_byte (bus_mem w') = mb \<and> w_disk (bw_world w') = dk"
proof -
  obtain sgs out_sgs in_sgs tok where r: "r = (sgs, out_sgs, in_sgs, tok)" by (cases r)
  from ag obtain dev q where a: "bw_devs w data = Some (dev, ops)" "aget (queue dev) (unat (vq_index vq)) = Some q"
    "vq_inv vq (bus_mem w) free flight" "synced vq q (bus_mem w)" by (auto simp: agree_def)
  have sgl: "req_sgl r = sg_list sgs out_sgs in_sgs" "out_sgs + in_sgs \<le> length sgs" using fit by (simp_all add: r req_sgl_def req_fits_def)
  from request_roundtrip [OF on a sgl, of mb dk dma kmalloc "vm_notify rs b" tok w] fit s
  obtain vq1 m1 vq2 m2 w2 vq3 m3 dev' q' where
    c: "virtqueue_add_sgs dma kmalloc (vm_notify rs b) sgs out_sgs in_sgs (Some tok) vq (bus_mem w) w = Some (0, vq1, m1, w)"
      "virtqueue_kick (vm_notify rs b) vq1 m1 w = Some (True, vq2, m2, w2)"
      "virtqueue_get_buf vq2 m2 = Some (Some tok, Some 0, vq3, m3)"
    and e: "bw_devs w2 data = Some (dev', ops)" "aget (queue dev') (unat (vq_index vq)) = Some q'"
      "vq_inv vq3 m3 free flight" "synced vq3 q' m3" "vq_index vq3 = vq_index vq" "m_byte m3 = mb" "w_disk (bw_world w2) = dk"
    unfolding req_fits_def by blast
  have "agree data ops free flight vq3 (set_mem m3 w2)" using e by (auto simp: agree_def)
  with c e show ?thesis by (simp add: sync_request_def r) (simp add: set_mem_def)
qed

lemma sync_requests_served:
  assumes "on_bus rs b data sz" "agree data ops free flight vq w" "\<forall>r \<in> set reqs. req_fits (length free) r"
    and "opt_fold serve (map (\<lambda>r. sg_req (req_sgl r)) reqs) (m_byte (bus_mem w), w_disk (bw_world w)) = Some (mb, dk)"
  shows "\<exists>vq' w'. sync_requests dma kmalloc rs b reqs (vq, w) = Some (map (\<lambda>r. Some (snd (snd (snd r)))) reqs, vq', w') \<and>
    agree data ops free flight vq' w' \<and> m_byte (bus_mem w') = mb \<and> w_disk (bw_world w') = dk"
  using assms(2-)
proof (induction reqs arbitrary: vq w)
  case (Cons r reqs)
  then obtain mb1 dk1 where s: "serve (sg_req (req_sgl r)) (m_byte (bus_mem w), w_disk (bw_world w)) = Some (mb1, dk1)"
    and rest: "opt_fold serve (map (\<lambda>r. sg_req (req_sgl r)) reqs) (mb1, dk1) = Some (mb, dk)"
    by (auto simp: bind_eq_Some_conv)
  have "req_fits (length free) r" using Cons.prems(2) by simp
  from sync_request_served [OF assms(1) Cons.prems(1) this s, of dma kmalloc] obtain vq1 w1 where
    o: "sync_request dma kmalloc rs b r (vq, w) = Some (Some (snd (snd (snd r))), vq1, w1)" "agree data ops free flight vq1 w1"
      "m_byte (bus_mem w1) = mb1" "w_disk (bw_world w1) = dk1" by blast
  from Cons.IH [OF o(2)] Cons.prems(2) rest o(3,4) show ?case by (auto simp: o(1))
qed simp

end

text \<open>
  C1: any sequence of block requests works from end to end. When driver and device agree about the
  queue, every request the driver exposes fits it, and the back end can serve them in order, then each
  kick makes the device serve the request, the driver collects exactly the tokens it exposed, in
  order, memory and disk are those after serving the requests one after the other, and all
  descriptors are free again with both sides in agreement.
\<close>

theorem blk_requests_end_to_end:
  assumes "on_bus rs b data sz" "agree data (blk_ops bops) free flight vq w" "\<forall>r \<in> set reqs. req_fits (length free) r"
    and "opt_fold (blk_serve bops) (map (\<lambda>r. sg_req (req_sgl r)) reqs) (m_byte (bus_mem w), w_disk (bw_world w)) = Some (mb, dk)"
  shows "\<exists>vq' w'. sync_requests dma kmalloc rs b reqs (vq, w) = Some (map (\<lambda>r. Some (snd (snd (snd r)))) reqs, vq', w') \<and>
    agree data (blk_ops bops) free flight vq' w' \<and> m_byte (bus_mem w') = mb \<and> w_disk (bw_world w') = dk"
  by (rule blk.sync_requests_served [OF assms])

section \<open>Two reads through a queue of four\<close>

definition demo_vq :: "nat vring_virtqueue" where
  "demo_vq = small_vq\<lparr>vq_num_free := 4, vq_free_head := 0, vq_avail_idx_shadow := 0,
     vq_desc_state := replicate 4 \<lparr>ds_data = None, ds_indir = 0\<rparr>\<rparr>"

definition idle_mem :: vmem where
  "idle_mem = \<lparr>m_desc = [0x1000 \<mapsto> map (\<lambda>i. \<lparr>d_addr = 0, d_len = 0, d_flags = 0, d_next = i\<rparr>) [1, 2, 3, 0]],
     m_avail = [0x2000 \<mapsto> \<lparr>a_flags = 0, a_idx = 0, a_ring = [0, 0, 0, 0, 0]\<rparr>],
     m_used = [0x3000 \<mapsto> \<lparr>u_flags = 0, u_idx = 0, u_ring = replicate 4 \<lparr>ue_id = 0, ue_len = 0\<rparr>, u_avail_event = 0\<rparr>],
     m_byte = (\<lambda>_. 0)\<rparr>"

definition idle_bus :: "disk_file bus_world" where
  "idle_bus = \<lparr>bw_devs = [7 \<mapsto> (demo_dev, blk_ops demo_bops)],
     bw_world = \<lparr>w_mem = idle_mem, w_irqs = [], w_disk = word_of_int\<rparr>\<rparr>"

lemma idle_agree: "agree 7 (blk_ops demo_bops) [0, 1, 2, 3] (\<lambda>_. []) demo_vq idle_bus"
proof -
  have "vq_wf demo_vq idle_mem"
    unfolding vq_wf_def Let_def
    by (intro conjI exI [of _ "2 :: nat"])
      (simp_all add: demo_vq_def small_vq_def small_ring_def idle_mem_def vring_use_dma_api_def)
  moreover have "mset [0..<4] = {#0, 1, 2, 3#}" by (simp add: numeral_eq_Suc)
  ultimately have "vq_inv demo_vq idle_mem [0, 1, 2, 3] (\<lambda>_. [])"
    by (simp add: vq_inv_def Let_def demo_vq_def small_vq_def small_ring_def idle_mem_def)
  then show ?thesis
    by (simp add: agree_def idle_bus_def demo_dev_def synced_def demo_queue_def demo_vq_def small_vq_def small_ring_def idle_mem_def)
qed

definition read_req :: "nat \<Rightarrow> nat sync_req" where
  "read_req tok = ([[\<lparr>sg_phys = 0x5000, sg_length = 16\<rparr>], [\<lparr>sg_phys = 0x6000, sg_length = 512\<rparr>],
     [\<lparr>sg_phys = 0x7000, sg_length = 1\<rparr>]], 1, 2, tok)"

lemma read_req_facts: "req_fits 4 (read_req tok)" "sg_req (req_sgl (read_req tok)) = demo_req" "snd (snd (snd (read_req tok))) = tok"
  by (simp_all add: req_fits_def req_sgl_def read_req_def sg_list_def sg_req_def demo_req_def)

definition no_dma :: dma_ops where
  "no_dma = \<lparr>dma_map = \<lambda>a _ _. a, dma_mapping_error = \<lambda>_. False\<rparr>"

theorem blk_requests_end_to_end_witness:
  "\<exists>vq' w'. sync_requests no_dma (\<lambda>_. 0) demo_regions demo_base [read_req 9, read_req 11] (demo_vq, idle_bus) =
      Some ([Some 9, Some 11], vq', w') \<and> agree 7 (blk_ops demo_bops) [0, 1, 2, 3] (\<lambda>_. []) vq' w'"
proof -
  have s: "opt_fold (blk_serve demo_bops) (map (\<lambda>r. sg_req (req_sgl r)) [read_req 9, read_req 11])
      (m_byte (bus_mem idle_bus), w_disk (bw_world idle_bus)) = Some (\<lambda>_. 0, word_of_int)"
    by (simp add: read_req_facts demo_serve idle_bus_def idle_mem_def)
  have f: "\<forall>r \<in> set [read_req 9, read_req 11]. req_fits (length [0 :: nat, 1, 2, 3]) r"
    using read_req_facts(1) by (simp add: numeral_eq_Suc)
  from blk_requests_end_to_end [OF demo_on_bus idle_agree f s, of no_dma "\<lambda>_. 0"]
  show ?thesis by (simp only: list.map read_req_facts) blast
qed

end
