(* ===== verification/Virtio_Type.thy ===== *)
theory Virtio_Type
  imports Virtio_Regs Virtio_Blk
begin

text \<open>
  The type of a virtio device of the host library: what the registers of \<open>tools/lkl/lib/virtio.c\<close> never change, the
  bounds they keep, and the accesses that are defined for every device of that type.
\<close>

section \<open>Well-typed devices\<close>


text \<open>The identity of the device: what the host chose when it set the device up.\<close>

definition dev_shape :: "virtio_dev \<Rightarrow> (u32 \<times> u32 \<times> u64 \<times> int) \<times> (addr \<times> int \<times> u32 \<times> u32 list)" where
  "dev_shape dev = ((device_id dev, vendor_id dev, device_features dev, irq dev),
     (base dev, config_len dev, virtio_mmio_id dev, map num_max (queue dev)))"

definition same_type :: "virtio_dev \<Rightarrow> virtio_dev \<Rightarrow> bool" where
  "same_type dev dev' \<longleftrightarrow> dev_shape dev' = dev_shape dev \<and> config_data dev' = config_data dev \<and>
     device_features_sel dev' = device_features_sel dev \<and> driver_features_sel dev' = driver_features_sel dev"

lemma same_type_refl [simp]: "same_type dev dev"
  by (simp add: same_type_def)




section \<open>Serving a queue\<close>







section \<open>Registers\<close>


lemma same_type_fields [simp]:
  "same_type dev (dev\<lparr>queue_sel := i\<rparr>)" "same_type dev (dev\<lparr>int_status := i\<rparr>)" "same_type dev (dev\<lparr>status := i\<rparr>)"
  "same_type dev (dev\<lparr>driver_features := f\<rparr>)"
  by (simp_all add: same_type_def dev_shape_def)

lemma set_status_type [simp]: "same_type dev (set_status ops val dev)"
  by (simp add: set_status_def)

lemma write_features_type [simp]: "same_type dev (virtio_write_driver_features val dev)"
  by (simp add: virtio_write_driver_features_def)









end
