(* ===== verification/Node_Loop.thy ===== *)
theory Node_Loop
  imports LKL_Prelude
begin

text \<open>
  The threads of the node binding: operations queued in JavaScript (\<open>lib/queue.js\<close>) run on the worker thread
  (\<open>src/worker.cc\<close>), and the worker and the threads of the kernel call JavaScript on the default loop
  (\<open>src/async.cc\<close>), which delivers results and disk requests.

  The libraries the binding calls are parameters: \<open>uv_async_send\<close> and the turn of a loop, semaphores and mutexes of
  libuv, and the queue of the package \<open>async\<close>. Nothing is assumed of a second \<open>uv_async_send\<close> before the loop
  has run, because libuv may merge the two.
\<close>

section \<open>Libraries\<close>

record ('a, 's, 'm, 'q, 'op) node_libs =
  async_send :: "'a \<Rightarrow> 'a"
  async_fire :: "'a \<Rightarrow> 'a option"
  sem_new :: 's
  sem_post :: "'s \<Rightarrow> 's"
  sem_wait :: "'s \<Rightarrow> 's option"
  mutex_lock :: "'m \<Rightarrow> 'm option"
  mutex_unlock :: "'m \<Rightarrow> 'm"
  queue_push :: "'op \<Rightarrow> 'q \<Rightarrow> 'q"
  queue_start :: "'q \<Rightarrow> ('op \<times> 'q) option"
  queue_done :: "'q \<Rightarrow> 'q"

text \<open>
  What the documentation of the libraries says of them, over what is observed of a handle (a call is pending), a mutex
  (it is locked), a semaphore (its value) and a queue (a task runs, and the tasks that wait). Where a function
  blocks it has no result.
\<close>

record ('a, 's, 'm, 'q, 'op) node_views =
  pend :: "'a \<Rightarrow> bool"
  locked :: "'m \<Rightarrow> bool"
  count :: "'s \<Rightarrow> nat"
  runs :: "'q \<Rightarrow> bool"
  waits :: "'q \<Rightarrow> 'op list"

definition async_ok :: "('a, 's, 'm, 'q, 'op) node_libs \<Rightarrow> ('a, 's, 'm, 'q, 'op) node_views \<Rightarrow> bool" where
  "async_ok L V \<longleftrightarrow> (\<forall>a. \<not> pend V a \<longrightarrow> pend V (async_send L a)) \<and>
     (\<forall>a. async_fire L a = None \<longleftrightarrow> \<not> pend V a) \<and> (\<forall>a a'. async_fire L a = Some a' \<longrightarrow> \<not> pend V a')"

definition sem_ok :: "('a, 's, 'm, 'q, 'op) node_libs \<Rightarrow> ('a, 's, 'm, 'q, 'op) node_views \<Rightarrow> bool" where
  "sem_ok L V \<longleftrightarrow> count V (sem_new L) = 0 \<and> (\<forall>s. count V (sem_post L s) = Suc (count V s)) \<and>
     (\<forall>s. sem_wait L s = None \<longleftrightarrow> count V s = 0) \<and> (\<forall>s s'. sem_wait L s = Some s' \<longrightarrow> count V s = Suc (count V s'))"

definition mutex_ok :: "('a, 's, 'm, 'q, 'op) node_libs \<Rightarrow> ('a, 's, 'm, 'q, 'op) node_views \<Rightarrow> bool" where
  "mutex_ok L V \<longleftrightarrow> (\<forall>m. mutex_lock L m = None \<longleftrightarrow> locked V m) \<and>
     (\<forall>m m'. mutex_lock L m = Some m' \<longrightarrow> locked V m') \<and> (\<forall>m. locked V m \<longrightarrow> \<not> locked V (mutex_unlock L m))"

definition queue_ok :: "('a, 's, 'm, 'q, 'op) node_libs \<Rightarrow> ('a, 's, 'm, 'q, 'op) node_views \<Rightarrow> bool" where
  "queue_ok L V \<longleftrightarrow> (\<forall>op q. runs V (queue_push L op q) = runs V q \<and> waits V (queue_push L op q) = waits V q @ [op]) \<and>
     (\<forall>q. queue_start L q = None \<longleftrightarrow> runs V q \<or> waits V q = []) \<and>
     (\<forall>q op q'. queue_start L q = Some (op, q') \<longrightarrow> runs V q' \<and> waits V q = op # waits V q') \<and>
     (\<forall>q. \<not> runs V (queue_done L q) \<and> waits V (queue_done L q) = waits V q)"

definition libs_ok :: "('a, 's, 'm, 'q, 'op) node_libs \<Rightarrow> ('a, 's, 'm, 'q, 'op) node_views \<Rightarrow> bool" where
  "libs_ok L V \<longleftrightarrow> async_ok L V \<and> sem_ok L V \<and> mutex_ok L V \<and> queue_ok L V"

section \<open>Threads\<close>

text \<open>
  What a thread asks the default loop to run: the callback of an operation with its result, or a function of a
  disk. The counters of a thread in \<open>run_on_default_loop\<close>, and after it in the wait for the reply of the disk.
\<close>

datatype ('op, 'r) call = Reply 'op 'r | Request

datatype ('op, 'r) pc = Idle | Locking "('op, 'r) call" | Sending "('op, 'r) call" | Waiting "('op, 'r) call"
  | Unlocking "('op, 'r) call" | AwaitJs

text \<open>
  Thread 0 is the worker; \<open>n_cur\<close> is the operation it runs. \<open>n_info\<close> is \<open>worker_info\<close>. \<open>n_data\<close> is \<open>async->data\<close>:
  the thread whose \<open>info\<close> it points to. \<open>n_main\<close> is the thread whose call the default loop is running. \<open>n_log\<close> are the
  callbacks that have run, and \<open>n_submitted\<close> the operations added to the queue.
\<close>

record ('op, 'r, 'k, 'a, 's, 'm, 'q) node =
  n_queue :: 'q
  n_info :: "'op option"
  n_wasync :: 'a
  n_cur :: "'op option"
  n_kern :: 'k
  n_lock :: 'm
  n_dasync :: 'a
  n_data :: "nat option"
  n_pcs :: "nat \<Rightarrow> ('op, 'r) pc"
  n_sems :: "nat \<Rightarrow> 's"
  n_main :: "nat option"
  n_log :: "('op \<times> 'r) list"
  n_submitted :: "'op list"

definition addOperation ::
  "('a, 's, 'm, 'q, 'op) node_libs \<Rightarrow> 'op \<Rightarrow> ('op, 'r, 'k, 'a, 's, 'm, 'q) node \<Rightarrow> ('op, 'r, 'k, 'a, 's, 'm, 'q) node" where
  "addOperation L op s = s\<lparr>n_queue := queue_push L op (n_queue s), n_submitted := n_submitted s @ [op]\<rparr>"

definition run_on_worker_loop ::
  "('a, 's, 'm, 'q, 'op) node_libs \<Rightarrow> 'op \<Rightarrow> ('op, 'r, 'k, 'a, 's, 'm, 'q) node \<Rightarrow> ('op, 'r, 'k, 'a, 's, 'm, 'q) node" where
  "run_on_worker_loop L op s = s\<lparr>n_info := Some op, n_wasync := async_send L (n_wasync s)\<rparr>"

text \<open>The function of the queue and \<open>default_loop_entry\<close> up to the call: the callback of an operation is also the end of its task.\<close>

fun deliver ::
  "('a, 's, 'm, 'q, 'op) node_libs \<Rightarrow> ('op, 'r) call \<Rightarrow> ('op, 'r, 'k, 'a, 's, 'm, 'q) node \<Rightarrow> ('op, 'r, 'k, 'a, 's, 'm, 'q) node" where
  "deliver L (Reply op r) s = s\<lparr>n_log := n_log s @ [(op, r)], n_queue := queue_done L (n_queue s)\<rparr>"
| "deliver L Request s = s"

text \<open>
  The steps of the threads. \<open>exec\<close> is what an operation does in the kernel. While it runs, the worker may itself ask
  for the capacity of a disk.
\<close>

inductive node_step ::
  "('a, 's, 'm, 'q, 'op) node_libs \<Rightarrow> ('op \<Rightarrow> 'k \<Rightarrow> 'r \<times> 'k) \<Rightarrow>
   ('op, 'r, 'k, 'a, 's, 'm, 'q) node \<Rightarrow> ('op, 'r, 'k, 'a, 's, 'm, 'q) node \<Rightarrow> bool" for L exec where
  step_submit: "node_step L exec s (addOperation L op s)"
| step_start: "queue_start L (n_queue s) = Some (op, q) \<Longrightarrow> node_step L exec s (run_on_worker_loop L op (s\<lparr>n_queue := q\<rparr>))"
| step_worker: "n_pcs s 0 = Idle \<Longrightarrow> n_cur s = None \<Longrightarrow> async_fire L (n_wasync s) = Some a \<Longrightarrow>
    node_step L exec s (s\<lparr>n_wasync := a, n_cur := n_info s\<rparr>)"
| step_exec: "n_pcs s 0 = Idle \<Longrightarrow> n_cur s = Some op \<Longrightarrow> exec op (n_kern s) = (r, k) \<Longrightarrow>
    node_step L exec s (s\<lparr>n_kern := k, n_cur := None, n_pcs := (n_pcs s)(0 := Locking (Reply op r))\<rparr>)"
| step_request: "n_pcs s t = Idle \<Longrightarrow> t = 0 \<longrightarrow> n_cur s \<noteq> None \<Longrightarrow>
    node_step L exec s (s\<lparr>n_pcs := (n_pcs s)(t := Locking Request)\<rparr>)"
| step_lock: "n_pcs s t = Locking c \<Longrightarrow> mutex_lock L (n_lock s) = Some m \<Longrightarrow>
    node_step L exec s (s\<lparr>n_lock := m, n_pcs := (n_pcs s)(t := Sending c)\<rparr>)"
| step_send: "n_pcs s t = Sending c \<Longrightarrow>
    node_step L exec s (s\<lparr>n_sems := (n_sems s)(t := sem_new L), n_data := Some t, n_dasync := async_send L (n_dasync s),
      n_pcs := (n_pcs s)(t := Waiting c)\<rparr>)"
| step_loop: "n_main s = None \<Longrightarrow> async_fire L (n_dasync s) = Some a \<Longrightarrow> n_data s = Some t \<Longrightarrow> n_pcs s t = Waiting c \<Longrightarrow>
    node_step L exec s (deliver L c (s\<lparr>n_dasync := a, n_main := Some t\<rparr>))"
| step_post: "n_main s = Some t \<Longrightarrow>
    node_step L exec s (s\<lparr>n_sems := (n_sems s)(t := sem_post L (n_sems s t)), n_main := None\<rparr>)"
| step_wake: "n_pcs s t = Waiting c \<Longrightarrow> sem_wait L (n_sems s t) = Some w \<Longrightarrow>
    node_step L exec s (s\<lparr>n_sems := (n_sems s)(t := w), n_pcs := (n_pcs s)(t := Unlocking c)\<rparr>)"
| step_unlock: "n_pcs s t = Unlocking c \<Longrightarrow>
    node_step L exec s (s\<lparr>n_lock := mutex_unlock L (n_lock s), n_pcs := (n_pcs s)(t := (if c = Request then AwaitJs else Idle))\<rparr>)"
| step_reply: "n_pcs s t = AwaitJs \<Longrightarrow> node_step L exec s (s\<lparr>n_pcs := (n_pcs s)(t := Idle)\<rparr>)"

abbreviation node_steps where "node_steps L exec \<equiv> (node_step L exec)\<^sup>*\<^sup>*"

text \<open>After \<open>init_async\<close> and \<open>init_worker\<close>: nothing is queued, pending or locked.\<close>

definition node_init ::
  "('a, 's, 'm, 'q, 'op) node_views \<Rightarrow> 'k \<Rightarrow> ('op, 'r, 'k, 'a, 's, 'm, 'q) node \<Rightarrow> bool" where
  "node_init V k s \<longleftrightarrow> \<not> runs V (n_queue s) \<and> waits V (n_queue s) = [] \<and> n_info s = None \<and> \<not> pend V (n_wasync s) \<and>
     n_cur s = None \<and> n_kern s = k \<and> \<not> locked V (n_lock s) \<and> \<not> pend V (n_dasync s) \<and> n_data s = None \<and>
     n_pcs s = (\<lambda>t. Idle) \<and> n_main s = None \<and> n_log s = [] \<and> n_submitted s = []"

section \<open>The operations as a sequence\<close>

text \<open>What JavaScript is promised: operations take effect one at a time, in the order in which they were added.\<close>

record ('op, 'r, 'k) fifo =
  f_todo :: "'op list"
  f_kern :: 'k
  f_done :: "('op \<times> 'r) list"

inductive fifo_step :: "('op \<Rightarrow> 'k \<Rightarrow> 'r \<times> 'k) \<Rightarrow> ('op, 'r, 'k) fifo \<Rightarrow> ('op, 'r, 'k) fifo \<Rightarrow> bool" for exec where
  fifo_submit: "fifo_step exec f (f\<lparr>f_todo := f_todo f @ [op]\<rparr>)"
| fifo_exec: "f_todo f = op # todo \<Longrightarrow> exec op (f_kern f) = (r, k) \<Longrightarrow>
    fifo_step exec f (f\<lparr>f_todo := todo, f_kern := k, f_done := f_done f @ [(op, r)]\<rparr>)"

text \<open>The result that has been computed and whose callback has not run.\<close>

fun reply_of :: "bool \<Rightarrow> ('op, 'r) pc \<Rightarrow> ('op \<times> 'r) list" where
  "reply_of p (Locking (Reply op r)) = [(op, r)]"
| "reply_of p (Sending (Reply op r)) = [(op, r)]"
| "reply_of p (Waiting (Reply op r)) = (if p then [(op, r)] else [])"
| "reply_of p pc = []"

definition undelivered ::
  "('a, 's, 'm, 'q, 'op) node_views \<Rightarrow> ('op, 'r, 'k, 'a, 's, 'm, 'q) node \<Rightarrow> ('op \<times> 'r) list" where
  "undelivered V s = reply_of (pend V (n_dasync s)) (n_pcs s 0)"

definition started ::
  "('a, 's, 'm, 'q, 'op) node_views \<Rightarrow> ('op, 'r, 'k, 'a, 's, 'm, 'q) node \<Rightarrow> 'op list" where
  "started V s = (case n_cur s of Some op \<Rightarrow> [op] | None \<Rightarrow> []) @
     (if pend V (n_wasync s) then (case n_info s of Some op \<Rightarrow> [op] | None \<Rightarrow> []) else [])"

definition node_abs ::
  "('a, 's, 'm, 'q, 'op) node_views \<Rightarrow> ('op, 'r, 'k, 'a, 's, 'm, 'q) node \<Rightarrow> ('op, 'r, 'k) fifo" where
  "node_abs V s = \<lparr>f_todo = started V s @ waits V (n_queue s), f_kern = n_kern s, f_done = n_log s @ undelivered V s\<rparr>"

section \<open>Invariants\<close>

lemma libs_async:
  assumes "libs_ok L V"
  shows "\<not> pend V a \<Longrightarrow> pend V (async_send L a)" "async_fire L a = None \<longleftrightarrow> \<not> pend V a"
    "async_fire L a = Some a' \<Longrightarrow> pend V a \<and> \<not> pend V a'"
proof -
  have ok: "async_ok L V" using assms by (simp add: libs_ok_def)
  then show "\<not> pend V a \<Longrightarrow> pend V (async_send L a)" and none: "async_fire L a = None \<longleftrightarrow> \<not> pend V a"
    by (simp_all add: async_ok_def)
  show "pend V a \<and> \<not> pend V a'" if "async_fire L a = Some a'"
    using none that ok by (auto simp: async_ok_def)
qed

lemma libs_sem:
  assumes "libs_ok L V"
  shows "count V (sem_new L) = 0" "count V (sem_post L w) = Suc (count V w)" "sem_wait L w = None \<longleftrightarrow> count V w = 0"
    "sem_wait L w = Some w' \<Longrightarrow> count V w = Suc (count V w')"
proof -
  have "sem_ok L V" using assms by (simp add: libs_ok_def)
  then show "count V (sem_new L) = 0" "count V (sem_post L w) = Suc (count V w)" "sem_wait L w = None \<longleftrightarrow> count V w = 0"
    and "sem_wait L w = Some w' \<Longrightarrow> count V w = Suc (count V w')"
    by (simp_all add: sem_ok_def)
qed

lemma libs_mutex:
  assumes "libs_ok L V"
  shows "mutex_lock L m = None \<longleftrightarrow> locked V m" "mutex_lock L m = Some m' \<Longrightarrow> \<not> locked V m \<and> locked V m'"
    "locked V m \<Longrightarrow> \<not> locked V (mutex_unlock L m)"
proof -
  have ok: "mutex_ok L V" using assms by (simp add: libs_ok_def)
  then show none: "mutex_lock L m = None \<longleftrightarrow> locked V m" and "locked V m \<Longrightarrow> \<not> locked V (mutex_unlock L m)"
    by (simp_all add: mutex_ok_def)
  show "\<not> locked V m \<and> locked V m'" if "mutex_lock L m = Some m'" using none that ok by (auto simp: mutex_ok_def)
qed

lemma libs_queue:
  assumes "libs_ok L V"
  shows "runs V (queue_push L op q) = runs V q" "waits V (queue_push L op q) = waits V q @ [op]"
    "queue_start L q = None \<longleftrightarrow> runs V q \<or> waits V q = []"
    "queue_start L q = Some (op, q') \<Longrightarrow> \<not> runs V q \<and> runs V q' \<and> waits V q = op # waits V q'"
    "\<not> runs V (queue_done L q)" "waits V (queue_done L q) = waits V q"
proof -
  have ok: "queue_ok L V" using assms by (simp add: libs_ok_def)
  then show none: "queue_start L q = None \<longleftrightarrow> runs V q \<or> waits V q = []"
    and "runs V (queue_push L op q) = runs V q" "waits V (queue_push L op q) = waits V q @ [op]"
    and "\<not> runs V (queue_done L q)" "waits V (queue_done L q) = waits V q"
    by (simp_all add: queue_ok_def)
  show "\<not> runs V q \<and> runs V q' \<and> waits V q = op # waits V q'" if "queue_start L q = Some (op, q')"
    using none that ok by (auto simp: queue_ok_def)
qed

fun in_section :: "('op, 'r) pc \<Rightarrow> bool" where
  "in_section (Sending c) = True"
| "in_section (Waiting c) = True"
| "in_section (Unlocking c) = True"
| "in_section pc = False"

text \<open>The mutex: one thread at a time is between locking and unlocking.\<close>

definition lock_inv where
  "lock_inv V s \<longleftrightarrow> (\<forall>t. in_section (n_pcs s t) \<longrightarrow> locked V (n_lock s)) \<and>
     (\<forall>t u. in_section (n_pcs s t) \<longrightarrow> in_section (n_pcs s u) \<longrightarrow> t = u) \<and>
     (locked V (n_lock s) \<longrightarrow> (\<exists>t. in_section (n_pcs s t)))"

lemma lock_inv_outside:
  assumes "lock_inv V s" "n_lock s' = n_lock s" "\<And>u. in_section (n_pcs s' u) = in_section (n_pcs s u)"
  shows "lock_inv V s'"
  using assms by (simp add: lock_inv_def)

lemma deliver_simps [simp]:
  "n_lock (deliver L c s) = n_lock s" "n_pcs (deliver L c s) = n_pcs s" "n_dasync (deliver L c s) = n_dasync s"
  "n_data (deliver L c s) = n_data s" "n_sems (deliver L c s) = n_sems s" "n_main (deliver L c s) = n_main s"
  "n_info (deliver L c s) = n_info s" "n_wasync (deliver L c s) = n_wasync s" "n_cur (deliver L c s) = n_cur s"
  "n_kern (deliver L c s) = n_kern s" "n_submitted (deliver L c s) = n_submitted s"
  by (cases c; simp)+

lemma lock_inv_step: "node_step L exec s s' \<Longrightarrow> libs_ok L V \<Longrightarrow> lock_inv V s \<Longrightarrow> lock_inv V s'"
proof (induction rule: node_step.induct)
  case (step_lock s t c m)
  then have "\<not> locked V (n_lock s)" "locked V m" using libs_mutex(2) [OF step_lock(3,2)] by simp_all
  with step_lock(4) show ?case by (auto simp: lock_inv_def)
next
  case (step_unlock s t c)
  have t: "in_section (n_pcs s t)" using step_unlock(1) by simp
  then have "\<not> in_section (n_pcs s u)" if "u \<noteq> t" for u using step_unlock(3) that unfolding lock_inv_def by blast
  moreover have "locked V (n_lock s)" using t step_unlock(3) unfolding lock_inv_def by blast
  ultimately show ?case using libs_mutex(3) [OF step_unlock(2)] by (auto simp: lock_inv_def)
qed (erule lock_inv_outside; auto simp: addOperation_def run_on_worker_loop_def)+

text \<open>
  The default loop: the call that is pending or running belongs to the thread in the critical section, which waits,
  and whose semaphore is posted exactly once.
\<close>

definition loop_inv where
  "loop_inv V s \<longleftrightarrow>
     (\<forall>t c. n_pcs s t = Sending c \<or> n_pcs s t = Unlocking c \<longrightarrow> \<not> pend V (n_dasync s) \<and> n_main s = None) \<and>
     (\<forall>t c. n_pcs s t = Waiting c \<longrightarrow> n_data s = Some t \<and>
        (if pend V (n_dasync s) then n_main s = None \<and> count V (n_sems s t) = 0
         else if n_main s = None then count V (n_sems s t) = 1
         else n_main s = Some t \<and> count V (n_sems s t) = 0)) \<and>
     (pend V (n_dasync s) \<or> n_main s \<noteq> None \<longrightarrow> (\<exists>t c. n_pcs s t = Waiting c))"

lemma loop_inv_outside:
  assumes "loop_inv V s" "n_dasync s' = n_dasync s" "n_main s' = n_main s" "n_data s' = n_data s" "n_sems s' = n_sems s"
    and "n_pcs s' = (n_pcs s)(t := p)" "\<not> in_section p" "\<not> in_section (n_pcs s t)"
  shows "loop_inv V s'"
proof -
  have "n_pcs s' u = p' \<longleftrightarrow> n_pcs s u = p'" if "in_section p'" for u p'
    using assms(6-8) that by auto
  then have "n_pcs s' u = Sending c \<longleftrightarrow> n_pcs s u = Sending c" "n_pcs s' u = Waiting c \<longleftrightarrow> n_pcs s u = Waiting c"
    "n_pcs s' u = Unlocking c \<longleftrightarrow> n_pcs s u = Unlocking c" for u c by simp_all
  then show ?thesis using assms(1-5) by (simp add: loop_inv_def)
qed

lemma loop_inv_same:
  "loop_inv V s \<Longrightarrow> n_dasync s' = n_dasync s \<Longrightarrow> n_main s' = n_main s \<Longrightarrow> n_data s' = n_data s \<Longrightarrow> n_sems s' = n_sems s \<Longrightarrow>
   n_pcs s' = n_pcs s \<Longrightarrow> loop_inv V s'"
  by (simp add: loop_inv_def)

text \<open>A step of the thread in the critical section: the others are outside, so that only its own clause counts.\<close>

lemma loop_inv_alone:
  assumes "lock_inv V s" "in_section (n_pcs s t)" "n_pcs s' = (n_pcs s)(t := p)"
    and "\<And>c. p = Sending c \<or> p = Unlocking c \<Longrightarrow> \<not> pend V (n_dasync s') \<and> n_main s' = None"
    and "\<And>c. p = Waiting c \<Longrightarrow> n_data s' = Some t \<and> (if pend V (n_dasync s') then n_main s' = None \<and> count V (n_sems s' t) = 0
         else if n_main s' = None then count V (n_sems s' t) = 1 else n_main s' = Some t \<and> count V (n_sems s' t) = 0)"
    and "pend V (n_dasync s') \<or> n_main s' \<noteq> None \<Longrightarrow> \<exists>c. p = Waiting c"
  shows "loop_inv V s'"
proof -
  have "\<not> in_section (n_pcs s u)" if "u \<noteq> t" for u using assms(1,2) that by (auto simp: lock_inv_def)
  then have "n_pcs s' u = p' \<longleftrightarrow> u = t \<and> p = p'" if "in_section p'" for u p' using assms(3) that by auto
  then have "n_pcs s' u = Sending c \<longleftrightarrow> u = t \<and> p = Sending c" "n_pcs s' u = Waiting c \<longleftrightarrow> u = t \<and> p = Waiting c"
    "n_pcs s' u = Unlocking c \<longleftrightarrow> u = t \<and> p = Unlocking c" for u c by simp_all
  then show ?thesis using assms(4-6) unfolding loop_inv_def by auto
qed

lemma loop_inv_leave:
  assumes "lock_inv V s" "in_section (n_pcs s t)" "n_pcs s' = (n_pcs s)(t := p)" "\<not> in_section p"
    and "\<not> pend V (n_dasync s')" "n_main s' = None"
  shows "loop_inv V s'"
  by (rule loop_inv_alone [OF assms(1-3)]) (use assms(4-6) in auto)

lemma loop_inv_idle:
  assumes "loop_inv V s" "\<And>t. \<not> in_section (n_pcs s t)"
  shows "\<not> pend V (n_dasync s)" "n_main s = None"
proof -
  have "n_pcs s t \<noteq> Waiting c" for t c using assms(2) [of t] by auto
  then show "\<not> pend V (n_dasync s)" "n_main s = None" using assms(1) by (auto simp: loop_inv_def)
qed

lemma loop_inv_quiet:
  "loop_inv V s \<Longrightarrow> n_pcs s t = Sending c \<or> n_pcs s t = Unlocking c \<Longrightarrow> \<not> pend V (n_dasync s) \<and> n_main s = None"
  unfolding loop_inv_def by blast

lemma loop_inv_waiting:
  "loop_inv V s \<Longrightarrow> n_pcs s t = Waiting c \<Longrightarrow> n_data s = Some t \<and>
   (if pend V (n_dasync s) then n_main s = None \<and> count V (n_sems s t) = 0
    else if n_main s = None then count V (n_sems s t) = 1 else n_main s = Some t \<and> count V (n_sems s t) = 0)"
  unfolding loop_inv_def by blast

lemma loop_inv_active: "loop_inv V s \<Longrightarrow> pend V (n_dasync s) \<or> n_main s \<noteq> None \<Longrightarrow> \<exists>t c. n_pcs s t = Waiting c"
  unfolding loop_inv_def by blast

lemma loop_inv_main:
  assumes "loop_inv V s" "n_main s = Some t"
  obtains c where "n_pcs s t = Waiting c" "n_data s = Some t" "\<not> pend V (n_dasync s)" "count V (n_sems s t) = 0"
proof -
  obtain u c where u: "n_pcs s u = Waiting c" using loop_inv_active [OF assms(1)] assms(2) by auto
  with loop_inv_waiting [OF assms(1) u] assms(2) that show thesis by (simp split: if_splits)
qed

lemma loop_inv_step: "node_step L exec s s' \<Longrightarrow> libs_ok L V \<Longrightarrow> lock_inv V s \<Longrightarrow> loop_inv V s \<Longrightarrow> loop_inv V s'"
proof (induction rule: node_step.induct)
  case (step_lock s t c m)
  have free: "\<not> in_section (n_pcs s u)" for u using step_lock(4) libs_mutex(2) [OF step_lock(3,2)] by (auto simp: lock_inv_def)
  have "\<not> pend V (n_dasync s)" "n_main s = None" using loop_inv_idle [OF step_lock(5) free] by blast+
  moreover have "n_pcs s u \<noteq> Waiting d" for u d using free [of u] by auto
  ultimately show ?case unfolding loop_inv_def by auto
next
  case (step_send s t c)
  then have q: "\<not> pend V (n_dasync s)" "n_main s = None" using loop_inv_quiet [OF step_send(4), of t c] by simp_all
  show ?case
    by (rule loop_inv_alone [OF step_send(3), of t _ "Waiting c"])
      (use step_send(1) q libs_sem(1) [OF step_send(2)] libs_async(1) [OF step_send(2)] in simp_all)
next
  case (step_loop s a t c)
  have p: "pend V (n_dasync s)" "\<not> pend V a" using libs_async(3) [OF step_loop(5,2)] by simp_all
  show ?case
    by (rule loop_inv_alone [OF step_loop(6), of t _ "Waiting c"])
      (use step_loop(3,4) p loop_inv_waiting [OF step_loop(7,4)] in \<open>simp_all add: fun_upd_idem\<close>)
next
  case (step_post s t)
  from step_post(4,1) obtain c where "n_pcs s t = Waiting c" "n_data s = Some t" "\<not> pend V (n_dasync s)" "count V (n_sems s t) = 0"
    by (rule loop_inv_main)
  then show ?case
    by (intro loop_inv_alone [OF step_post(3), of t _ "Waiting c"]) (simp_all add: libs_sem(2) [OF step_post(2)] fun_upd_idem)
next
  case (step_wake s t c w)
  have "count V (n_sems s t) \<noteq> 0" using libs_sem(4) [OF step_wake(3,2)] by simp
  then have "\<not> pend V (n_dasync s)" "n_main s = None" using loop_inv_waiting [OF step_wake(5,1)] by (simp_all split: if_splits)
  then show ?case by (intro loop_inv_alone [OF step_wake(4), of t _ "Unlocking c"]) (simp_all add: step_wake(1))
next
  case (step_unlock s t c)
  then have "\<not> pend V (n_dasync s)" "n_main s = None" using loop_inv_quiet [OF step_unlock(4), of t c] by simp_all
  then show ?case
    by (intro loop_inv_leave [OF step_unlock(3), of t _ "if c = Request then AwaitJs else Idle"]) (simp_all add: step_unlock(1))
next
  case (step_exec s op r k)
  show ?case by (rule loop_inv_outside [of V s _ 0 "Locking (Reply op r)"]) (use step_exec in \<open>simp_all\<close>)
next
  case (step_request s t)
  show ?case by (rule loop_inv_outside [of V s _ t "Locking Request"]) (use step_request in \<open>simp_all\<close>)
next
  case (step_reply s t)
  show ?case by (rule loop_inv_outside [of V s _ t Idle]) (use step_reply in \<open>simp_all\<close>)
next
  case (step_submit s op)
  show ?case by (rule loop_inv_same [of V s]) (use step_submit in \<open>simp_all add: addOperation_def\<close>)
next
  case (step_start s op q)
  show ?case by (rule loop_inv_same [of V s]) (use step_start in \<open>simp_all add: run_on_worker_loop_def\<close>)
next
  case (step_worker s a)
  show ?case by (rule loop_inv_same [of V s]) (use step_worker in \<open>simp_all\<close>)
qed

text \<open>
  The worker: a task of the queue is pending for the worker, or running there, or has a result that is not yet
  delivered. Only the worker has results.
\<close>

fun call_of :: "('op, 'r) pc \<Rightarrow> ('op, 'r) call option" where
  "call_of (Locking c) = Some c"
| "call_of (Sending c) = Some c"
| "call_of (Waiting c) = Some c"
| "call_of (Unlocking c) = Some c"
| "call_of AwaitJs = Some Request"
| "call_of Idle = None"

definition calls_ok :: "'op option \<Rightarrow> (nat \<Rightarrow> ('op, 'r) pc) \<Rightarrow> bool" where
  "calls_ok cur pcs \<longleftrightarrow> (\<forall>t op r. call_of (pcs t) = Some (Reply op r) \<longrightarrow> t = 0 \<and> cur = None) \<and>
     (call_of (pcs 0) = Some Request \<longrightarrow> cur \<noteq> None)"

definition work_inv where
  "work_inv V s \<longleftrightarrow> (pend V (n_wasync s) \<longrightarrow> n_info s \<noteq> None) \<and>
     length (started V s) + length (undelivered V s) = (if runs V (n_queue s) then 1 else 0) \<and>
     calls_ok (n_cur s) (n_pcs s) \<and>
     n_submitted s = map fst (n_log s @ undelivered V s) @ started V s @ waits V (n_queue s)"

lemma calls_ok_same: "calls_ok cur pcs \<Longrightarrow> call_of p = call_of (pcs t) \<Longrightarrow> calls_ok cur (pcs(t := p))"
  unfolding calls_ok_def by (auto split: if_splits)

lemma calls_ok_idle: "calls_ok cur pcs \<Longrightarrow> call_of p = None \<Longrightarrow> calls_ok cur (pcs(t := p))"
  unfolding calls_ok_def by (auto split: if_splits)

lemma calls_ok_request:
  "calls_ok cur pcs \<Longrightarrow> call_of p = Some Request \<Longrightarrow> t = 0 \<longrightarrow> cur \<noteq> None \<Longrightarrow> calls_ok cur (pcs(t := p))"
  unfolding calls_ok_def by (auto split: if_splits)

lemma calls_ok_reply: "calls_ok cur pcs \<Longrightarrow> call_of p = Some (Reply op r) \<Longrightarrow> calls_ok None (pcs(0 := p))"
  unfolding calls_ok_def by (auto split: if_splits)

lemma calls_ok_start: "calls_ok None pcs \<Longrightarrow> pcs 0 = Idle \<Longrightarrow> calls_ok cur pcs"
  unfolding calls_ok_def by (metis call_of.simps(6) option.distinct(1))

lemma calls_ok_worker: "calls_ok cur pcs \<Longrightarrow> call_of (pcs t) = Some (Reply op r) \<Longrightarrow> t = 0"
  unfolding calls_ok_def by blast

lemma reply_of_call: "reply_of p pc \<noteq> [] \<Longrightarrow> \<exists>op r. call_of pc = Some (Reply op r)"
  by (cases "(p, pc)" rule: reply_of.cases) auto

lemma reply_of_outside: "\<not> in_section pc \<Longrightarrow> reply_of p pc = reply_of q pc"
  by (cases "(p, pc)" rule: reply_of.cases) auto

text \<open>Steps that change neither the results nor the operations under way.\<close>

lemma work_inv_keep:
  assumes "work_inv V s" "n_wasync s' = n_wasync s" "n_info s' = n_info s" "n_cur s' = n_cur s" "n_queue s' = n_queue s"
    and "n_submitted s' = n_submitted s" "n_log s' = n_log s" "undelivered V s' = undelivered V s"
    and "calls_ok (n_cur s) (n_pcs s')"
  shows "work_inv V s'"
proof -
  have "started V s' = started V s" using assms(2-4) by (simp add: started_def)
  then show ?thesis using assms by (simp add: work_inv_def)
qed

lemma node_abs_keep:
  assumes "n_wasync s' = n_wasync s" "n_info s' = n_info s" "n_cur s' = n_cur s" "n_queue s' = n_queue s"
    and "n_kern s' = n_kern s" "n_log s' = n_log s" "undelivered V s' = undelivered V s"
  shows "node_abs V s' = node_abs V s"
  using assms by (simp add: node_abs_def started_def)

lemma work_start:
  assumes "libs_ok L V" "work_inv V s" "queue_start L (n_queue s) = Some (op, q)"
  defines "s' \<equiv> run_on_worker_loop L op (s\<lparr>n_queue := q\<rparr>)"
  shows "work_inv V s' \<and> node_abs V s' = node_abs V s"
proof -
  have q: "\<not> runs V (n_queue s)" "runs V q" "waits V (n_queue s) = op # waits V q"
    using libs_queue(4) [OF assms(1,3)] by simp_all
  with assms(2) have e: "started V s = []" "undelivered V s = []" by (simp_all add: work_inv_def)
  with assms(2) have w: "\<not> pend V (n_wasync s)" "n_cur s = None" by (auto simp: work_inv_def started_def split: option.splits)
  have "started V s' = [op]" using w libs_async(1) [OF assms(1) w(1)] by (simp add: s'_def run_on_worker_loop_def started_def)
  moreover have "undelivered V s' = []" using e(2) by (simp add: s'_def run_on_worker_loop_def undelivered_def)
  ultimately show ?thesis using assms(2) q e
    by (simp add: work_inv_def node_abs_def) (simp add: s'_def run_on_worker_loop_def)
qed

lemma work_worker:
  assumes "libs_ok L V" "work_inv V s" "n_cur s = None" "async_fire L (n_wasync s) = Some a" "n_pcs s 0 = Idle"
  defines "s' \<equiv> s\<lparr>n_wasync := a, n_cur := n_info s\<rparr>"
  shows "work_inv V s' \<and> node_abs V s' = node_abs V s"
proof -
  have p: "pend V (n_wasync s)" "\<not> pend V a" using libs_async(3) [OF assms(1,4)] by simp_all
  then have "started V s' = started V s" using assms(3) by (simp add: s'_def started_def)
  moreover have u: "undelivered V s' = undelivered V s" by (simp add: s'_def undelivered_def)
  moreover have "calls_ok (n_cur s') (n_pcs s')" using assms(2,3,5) by (auto simp: work_inv_def s'_def intro: calls_ok_start)
  ultimately show ?thesis using assms(2,5) p
    by (simp add: work_inv_def node_abs_def) (simp add: s'_def)
qed

lemma work_exec:
  assumes "work_inv V s" "n_pcs s 0 = Idle" "n_cur s = Some op" "exec op (n_kern s) = (r, k)"
  defines "s' \<equiv> s\<lparr>n_kern := k, n_cur := None, n_pcs := (n_pcs s)(0 := Locking (Reply op r))\<rparr>"
  shows "work_inv V s' \<and> fifo_step exec (node_abs V s) (node_abs V s')"
proof -
  have u: "undelivered V s = []" "undelivered V s' = [(op, r)]" using assms(2) by (simp_all add: undelivered_def s'_def)
  have l: "length (started V s) = (if runs V (n_queue s) then 1 else 0)" using assms(1) u(1) by (simp add: work_inv_def)
  have w: "\<not> pend V (n_wasync s)"
  proof
    assume p: "pend V (n_wasync s)"
    then obtain i where "n_info s = Some i" using assms(1) by (auto simp: work_inv_def)
    then show False using l p assms(3) by (simp add: started_def split: if_splits)
  qed
  then have runs: "runs V (n_queue s)" using l assms(3) by (simp add: started_def split: if_splits)
  have st: "started V s = [op]" "started V s' = []" using w assms(3) by (simp_all add: started_def s'_def)
  have c: "calls_ok (n_cur s') (n_pcs s')" using assms(1) by (auto simp: s'_def work_inv_def intro: calls_ok_reply)
  have f: "n_wasync s' = n_wasync s" "n_queue s' = n_queue s" "n_submitted s' = n_submitted s" "n_log s' = n_log s"
    by (simp_all add: s'_def)
  have "n_submitted s = map fst (n_log s) @ [op] @ waits V (n_queue s)" using assms(1) u st by (simp add: work_inv_def)
  then have "work_inv V s'" using w runs c by (simp add: work_inv_def f st u)
  moreover have "fifo_step exec (node_abs V s)
      ((node_abs V s)\<lparr>f_todo := waits V (n_queue s), f_kern := k, f_done := f_done (node_abs V s) @ [(op, r)]\<rparr>)"
    by (rule fifo_exec) (use st assms(4) in \<open>simp_all add: node_abs_def\<close>)
  ultimately show ?thesis using st u by (simp add: node_abs_def s'_def)
qed

lemma work_deliver:
  assumes "libs_ok L V" "work_inv V s" "n_pcs s 0 = Waiting (Reply op r)" "pend V (n_dasync s)" "\<not> pend V a"
  defines "s' \<equiv> deliver L (Reply op r) (s\<lparr>n_dasync := a, n_main := Some 0\<rparr>)"
  shows "work_inv V s' \<and> node_abs V s' = node_abs V s"
proof -
  have u: "undelivered V s = [(op, r)]" "undelivered V s' = []" using assms(3-5) by (simp_all add: undelivered_def s'_def)
  have st: "started V s' = started V s" by (simp add: started_def s'_def)
  have "started V s = []" using assms(2) u by (simp add: work_inv_def split: if_splits)
  with assms(2) u st show ?thesis
    by (simp add: work_inv_def node_abs_def) (simp add: s'_def libs_queue(5,6) [OF assms(1)])
qed

text \<open>A thread other than the worker changes nothing for the worker: the worker does not wait for the default loop.\<close>

lemma undelivered_other:
  assumes "lock_inv V s" "in_section (n_pcs s t)" "t \<noteq> 0" "n_pcs s' 0 = n_pcs s 0"
  shows "undelivered V s' = undelivered V s"
proof -
  have "\<not> in_section (n_pcs s 0)" using assms(1-3) unfolding lock_inv_def by blast
  then show ?thesis using assms(4) reply_of_outside by (simp add: undelivered_def)
qed

text \<open>Every step keeps the invariant and is a step of the sequence, or none.\<close>

lemma work_same:
  assumes "work_inv V s" "n_wasync s' = n_wasync s" "n_info s' = n_info s" "n_cur s' = n_cur s" "n_queue s' = n_queue s"
    and "n_submitted s' = n_submitted s" "n_log s' = n_log s" "n_kern s' = n_kern s" "undelivered V s' = undelivered V s"
    and "calls_ok (n_cur s) (n_pcs s')"
  shows "work_inv V s' \<and> node_abs V s' = node_abs V s"
  using work_inv_keep [OF assms(1-7,9,10)] node_abs_keep [OF assms(2-5,8,7,9)] by blast

lemma work_loop:
  assumes "libs_ok L V" "lock_inv V s" "work_inv V s" "async_fire L (n_dasync s) = Some a" "n_pcs s t = Waiting c"
  defines "s' \<equiv> deliver L c (s\<lparr>n_dasync := a, n_main := Some t\<rparr>)"
  shows "work_inv V s' \<and> node_abs V s' = node_abs V s"
proof (cases c)
  case (Reply op r)
  have p: "pend V (n_dasync s)" "\<not> pend V a" using libs_async(3) [OF assms(1,4)] by simp_all
  have "t = 0" using assms(3,5) Reply calls_ok_worker [of "n_cur s" "n_pcs s" t op r] by (simp add: work_inv_def)
  then show ?thesis using work_deliver [OF assms(1,3) _ p] assms(5) Reply by (simp add: s'_def)
next
  case Request
  have "undelivered V s' = undelivered V s"
  proof (cases "t = 0")
    case True
    then show ?thesis using assms(5) Request by (simp add: s'_def undelivered_def)
  next
    case False
    then show ?thesis using assms(2,5) by (intro undelivered_other) (simp_all add: s'_def)
  qed
  moreover have "calls_ok (n_cur s) (n_pcs s)" using assms(3) by (simp add: work_inv_def)
  ultimately show ?thesis using Request by (intro work_same [OF assms(3)]) (simp_all add: s'_def)
qed

lemma work_calls: "work_inv V s \<Longrightarrow> calls_ok (n_cur s) (n_pcs s)"
  by (simp add: work_inv_def)

lemma work_submit:
  assumes "libs_ok L V" "work_inv V s"
  shows "work_inv V (addOperation L op s) \<and> fifo_step exec (node_abs V s) (node_abs V (addOperation L op s))"
proof -
  have "undelivered V (addOperation L op s) = undelivered V s" "started V (addOperation L op s) = started V s"
    by (simp_all add: addOperation_def undelivered_def started_def)
  moreover have "fifo_step exec (node_abs V s) ((node_abs V s)\<lparr>f_todo := f_todo (node_abs V s) @ [op]\<rparr>)" by (rule fifo_submit)
  ultimately show ?thesis using assms(2) libs_queue(1,2) [OF assms(1)]
    by (simp add: work_inv_def node_abs_def) (simp add: addOperation_def)
qed

text \<open>A step that only moves one thread: its call stays, ends, or is a new request.\<close>

lemma work_move:
  assumes "work_inv V s" "n_wasync s' = n_wasync s" "n_info s' = n_info s" "n_cur s' = n_cur s" "n_queue s' = n_queue s"
    and "n_submitted s' = n_submitted s" "n_log s' = n_log s" "n_kern s' = n_kern s" "undelivered V s' = undelivered V s"
    and "n_pcs s' = (n_pcs s)(t := p)"
    and "call_of p = call_of (n_pcs s t) \<or> call_of p = None \<or> call_of p = Some Request \<and> (t = 0 \<longrightarrow> n_cur s \<noteq> None)"
  shows "work_inv V s' \<and> node_abs V s' = node_abs V s"
proof (rule work_same [OF assms(1-9)])
  show "calls_ok (n_cur s) (n_pcs s')"
    using assms(10,11) work_calls [OF assms(1)] by (auto intro: calls_ok_same calls_ok_idle calls_ok_request)
qed

lemma work_lock:
  fixes m
  assumes "work_inv V s" "n_pcs s t = Locking c"
  defines "s' \<equiv> s\<lparr>n_lock := m, n_pcs := (n_pcs s)(t := Sending c)\<rparr>"
  shows "work_inv V s' \<and> node_abs V s' = node_abs V s"
proof -
  have "undelivered V s' = undelivered V s" using assms(2) by (cases c) (auto simp: undelivered_def s'_def)
  then show ?thesis by (intro work_move [OF assms(1), of s' t "Sending c"]) (simp_all add: s'_def assms(2))
qed

lemma work_send:
  assumes "libs_ok L V" "lock_inv V s" "loop_inv V s" "work_inv V s" "n_pcs s t = Sending c"
  defines "s' \<equiv> s\<lparr>n_sems := (n_sems s)(t := sem_new L), n_data := Some t, n_dasync := async_send L (n_dasync s),
      n_pcs := (n_pcs s)(t := Waiting c)\<rparr>"
  shows "work_inv V s' \<and> node_abs V s' = node_abs V s"
proof -
  have p: "pend V (async_send L (n_dasync s))"
    using loop_inv_quiet [OF assms(3), of t c] assms(5) libs_async(1) [OF assms(1)] by simp
  have "undelivered V s' = undelivered V s"
  proof (cases "t = 0")
    case True
    then show ?thesis using p assms(5) by (cases c) (simp_all add: undelivered_def s'_def)
  next
    case False
    then show ?thesis using assms(5) by (intro undelivered_other [OF assms(2)]) (simp_all add: s'_def)
  qed
  then show ?thesis by (intro work_move [OF assms(4), of s' t "Waiting c"]) (simp_all add: s'_def assms(5))
qed

lemma work_wake:
  assumes "libs_ok L V" "loop_inv V s" "work_inv V s" "n_pcs s t = Waiting c" "sem_wait L (n_sems s t) = Some w"
  defines "s' \<equiv> s\<lparr>n_sems := (n_sems s)(t := w), n_pcs := (n_pcs s)(t := Unlocking c)\<rparr>"
  shows "work_inv V s' \<and> node_abs V s' = node_abs V s"
proof -
  have "count V (n_sems s t) \<noteq> 0" using libs_sem(4) [OF assms(1,5)] by simp
  then have "\<not> pend V (n_dasync s)" using loop_inv_waiting [OF assms(2,4)] by (simp split: if_splits)
  then have "undelivered V s' = undelivered V s" using assms(4) by (cases c) (auto simp: undelivered_def s'_def)
  then show ?thesis by (intro work_move [OF assms(3), of s' t "Unlocking c"]) (simp_all add: s'_def assms(4))
qed

text \<open>Steps that only move a thread which has no result to deliver.\<close>

lemma work_silent:
  assumes "work_inv V s" "n_wasync s' = n_wasync s" "n_info s' = n_info s" "n_cur s' = n_cur s" "n_queue s' = n_queue s"
    and "n_submitted s' = n_submitted s" "n_log s' = n_log s" "n_kern s' = n_kern s" "n_dasync s' = n_dasync s"
    and "n_pcs s' = (n_pcs s)(t := p)" "\<And>b. reply_of b p = []" "\<And>b. reply_of b (n_pcs s t) = []"
    and "call_of p = call_of (n_pcs s t) \<or> call_of p = None \<or> call_of p = Some Request \<and> (t = 0 \<longrightarrow> n_cur s \<noteq> None)"
  shows "work_inv V s' \<and> (node_abs V s' = node_abs V s \<or> P)"
proof -
  have "undelivered V s' = undelivered V s" using assms(9-12) by (auto simp: undelivered_def)
  then show ?thesis using work_move [OF assms(1-8) _ assms(10,13)] by blast
qed

lemma work_step:
  "node_step L exec s s' \<Longrightarrow> libs_ok L V \<Longrightarrow> lock_inv V s \<Longrightarrow> loop_inv V s \<Longrightarrow> work_inv V s \<Longrightarrow>
   work_inv V s' \<and> (node_abs V s' = node_abs V s \<or> fifo_step exec (node_abs V s) (node_abs V s'))"
proof (induction rule: node_step.induct)
  case (step_submit s op)
  then show ?case using work_submit [OF step_submit(1,4), of op exec] by blast
next
  case (step_start s op q)
  then show ?case using work_start [OF step_start(2,5,1)] by blast
next
  case (step_worker s a)
  then show ?case using work_worker [OF step_worker(4,7,2,3,1)] by blast
next
  case (step_exec s op r k)
  then show ?case using work_exec [OF step_exec(7,1,2), of exec r k] by blast
next
  case (step_loop s a t c)
  then show ?case using work_loop [OF step_loop(5,6,8,2,4)] by blast
next
  case (step_request s t)
  show ?case
    by (rule work_silent [OF step_request(6), of _ t "Locking Request"]) (use step_request(1,2) in simp_all)
next
  case (step_lock s t c m)
  then show ?case using work_lock [OF step_lock(6,1), of m] by blast
next
  case (step_send s t c)
  then show ?case using work_send [OF step_send(2-5,1)] by blast
next
  case (step_post s t)
  then show ?case
    using work_same [OF step_post(5), of "s\<lparr>n_sems := (n_sems s)(t := sem_post L (n_sems s t)), n_main := None\<rparr>"]
      work_calls [OF step_post(5)] by (auto simp: undelivered_def)
next
  case (step_wake s t c w)
  then show ?case using work_wake [OF step_wake(3,5,6,1,2)] by blast
next
  case (step_unlock s t c)
  show ?case
    by (rule work_silent [OF step_unlock(5), of _ t "if c = Request then AwaitJs else Idle"]) (use step_unlock(1) in simp_all)
next
  case (step_reply s t)
  show ?case by (rule work_silent [OF step_reply(5), of _ t Idle]) (use step_reply(1) in simp_all)
qed

lemma node_inv_init: "node_init V k s \<Longrightarrow> lock_inv V s \<and> loop_inv V s \<and> work_inv V s"
  by (simp add: node_init_def lock_inv_def loop_inv_def work_inv_def calls_ok_def started_def undelivered_def)

lemma node_abs_init: "node_init V k s \<Longrightarrow> node_abs V s = \<lparr>f_todo = [], f_kern = k, f_done = []\<rparr>"
  by (simp add: node_init_def node_abs_def started_def undelivered_def)

lemma node_steps_inv:
  assumes "node_steps L exec s s'" "libs_ok L V" "lock_inv V s" "loop_inv V s" "work_inv V s"
  shows "lock_inv V s' \<and> loop_inv V s' \<and> work_inv V s' \<and> (fifo_step exec)\<^sup>*\<^sup>* (node_abs V s) (node_abs V s')"
  using assms(1)
proof (induction rule: rtranclp_induct)
  case base
  then show ?case using assms(3-5) by simp
next
  case (step t u)
  then have i: "lock_inv V t" "loop_inv V t" "work_inv V t" by simp_all
  have "lock_inv V u" "loop_inv V u" using lock_inv_step loop_inv_step step(2) assms(2) i by blast+
  moreover have "work_inv V u" "node_abs V u = node_abs V t \<or> fifo_step exec (node_abs V t) (node_abs V u)"
    using work_step [OF step(2) assms(2) i] by blast+
  moreover have "(fifo_step exec)\<^sup>*\<^sup>* (node_abs V s) (node_abs V t)" using step(3) by blast
  ultimately show ?case by (metis rtranclp.rtrancl_into_rtrancl)
qed

section \<open>The binding implements the sequence\<close>

text \<open>
  C2: Whatever the interleaving of the JavaScript thread, the worker and the threads of the kernel, the operations
  take effect one at a time in the order in which they were added, as if each were run to its end before the next:
  every reachable state of the binding is a reachable state of the abstract queue. The operations that have run and
  the ones that have not are together the ones that were added; the callbacks that have run are those of the
  operations that have run, in order, each once and with its own result, but for at most the last one. A call that is
  pending on the default loop is that of a thread that is still waiting for it.
\<close>

theorem node_refines_fifo:
  assumes "libs_ok L V" "node_init V k s0" "node_steps L exec s0 s"
  shows "(fifo_step exec)\<^sup>*\<^sup>* \<lparr>f_todo = [], f_kern = k, f_done = []\<rparr> (node_abs V s) \<and>
    n_submitted s = map fst (f_done (node_abs V s)) @ f_todo (node_abs V s) \<and>
    (\<exists>rest. f_done (node_abs V s) = n_log s @ rest \<and> length rest \<le> 1) \<and>
    (\<forall>a. async_fire L (n_dasync s) = Some a \<longrightarrow> (\<exists>t c. n_data s = Some t \<and> n_pcs s t = Waiting c \<and> n_main s = None))"
proof -
  have i: "lock_inv V s0" "loop_inv V s0" "work_inv V s0" using node_inv_init [OF assms(2)] by blast+
  have inv: "loop_inv V s" "work_inv V s"
    and ref: "(fifo_step exec)\<^sup>*\<^sup>* \<lparr>f_todo = [], f_kern = k, f_done = []\<rparr> (node_abs V s)"
    using node_steps_inv [OF assms(3,1) i] node_abs_init [OF assms(2)] by simp_all
  have "length (undelivered V s) \<le> 1" "n_submitted s = map fst (f_done (node_abs V s)) @ f_todo (node_abs V s)"
    using inv(2) by (auto simp: work_inv_def node_abs_def split: if_splits)
  moreover have "\<exists>t c. n_data s = Some t \<and> n_pcs s t = Waiting c \<and> n_main s = None" if "async_fire L (n_dasync s) = Some a" for a
  proof -
    have p: "pend V (n_dasync s)" using libs_async(3) [OF assms(1) that] by simp
    then obtain t c where "n_pcs s t = Waiting c" using loop_inv_active [OF inv(1)] by blast
    then show ?thesis using loop_inv_waiting [OF inv(1)] p by fastforce
  qed
  ultimately show ?thesis using ref by (simp add: node_abs_def)
qed

definition demo_libs :: "(bool, nat, bool, bool \<times> nat list, nat) node_libs" where
  "demo_libs = \<lparr>async_send = (\<lambda>a. True), async_fire = (\<lambda>a. if a then Some False else None), sem_new = 0, sem_post = Suc,
     sem_wait = (\<lambda>s. if s = 0 then None else Some (s - 1)), mutex_lock = (\<lambda>m. if m then None else Some True),
     mutex_unlock = (\<lambda>m. False), queue_push = (\<lambda>op (r, w). (r, w @ [op])),
     queue_start = (\<lambda>(r, w). if r then None else case w of [] \<Rightarrow> None | op # w \<Rightarrow> Some (op, True, w)),
     queue_done = (\<lambda>(r, w). (False, w))\<rparr>"

definition demo_views :: "(bool, nat, bool, bool \<times> nat list, nat) node_views" where
  "demo_views = \<lparr>pend = (\<lambda>a. a), locked = (\<lambda>m. m), count = (\<lambda>s. s), runs = fst, waits = snd\<rparr>"

definition demo_start :: "(nat, nat, nat, bool, nat, bool, bool \<times> nat list) node" where
  "demo_start = \<lparr>n_queue = (False, []), n_info = None, n_wasync = False, n_cur = None, n_kern = 7, n_lock = False,
     n_dasync = False, n_data = None, n_pcs = (\<lambda>t. Idle), n_sems = (\<lambda>t. 0), n_main = None, n_log = [], n_submitted = []\<rparr>"

lemma demo_libs_ok: "libs_ok demo_libs demo_views"
  by (auto simp: libs_ok_def async_ok_def sem_ok_def mutex_ok_def queue_ok_def demo_libs_def demo_views_def
      split: if_splits list.splits)

text \<open>One operation, up to its callback.\<close>

lemma demo_run:
  "\<exists>s. node_steps demo_libs (\<lambda>op k. (op + k, Suc k)) demo_start s \<and> n_log s = [(5, 12)] \<and> n_kern s = 8"
proof -
  let ?step = "node_step demo_libs (\<lambda>op k :: nat. (op + k, Suc k))"
  define s1 where "s1 = addOperation demo_libs 5 demo_start"
  define s2 where "s2 = run_on_worker_loop demo_libs 5 (s1\<lparr>n_queue := (True, [])\<rparr>)"
  define s3 where "s3 = s2\<lparr>n_wasync := False, n_cur := n_info s2\<rparr>"
  define s4 where "s4 = s3\<lparr>n_kern := 8, n_cur := None, n_pcs := (n_pcs s3)(0 := Locking (Reply 5 12))\<rparr>"
  define s5 where "s5 = s4\<lparr>n_lock := True, n_pcs := (n_pcs s4)(0 := Sending (Reply 5 12))\<rparr>"
  define s6 where "s6 = s5\<lparr>n_sems := (n_sems s5)(0 := sem_new demo_libs), n_data := Some 0,
    n_dasync := async_send demo_libs (n_dasync s5), n_pcs := (n_pcs s5)(0 := Waiting (Reply 5 12))\<rparr>"
  define s7 where "s7 = deliver demo_libs (Reply 5 12) (s6\<lparr>n_dasync := False, n_main := Some 0\<rparr>)"
  note defs = s1_def s2_def s3_def s4_def s5_def s6_def s7_def demo_start_def demo_libs_def addOperation_def run_on_worker_loop_def
  have "?step demo_start s1" unfolding s1_def by (rule step_submit)
  moreover have "?step s1 s2" unfolding s2_def by (rule step_start) (simp add: defs)
  moreover have "?step s2 s3" unfolding s3_def by (rule step_worker) (simp_all add: defs)
  moreover have "?step s3 s4" unfolding s4_def by (rule step_exec) (simp_all add: defs)
  moreover have "?step s4 s5" unfolding s5_def by (rule step_lock) (simp_all add: defs)
  moreover have "?step s5 s6" unfolding s6_def by (rule step_send) (simp add: defs)
  moreover have "?step s6 s7" unfolding s7_def by (rule step_loop) (simp_all add: defs)
  ultimately have "node_steps demo_libs (\<lambda>op k :: nat. (op + k, Suc k)) demo_start s7" by (meson converse_rtranclp_into_rtranclp rtranclp.rtrancl_refl)
  then show ?thesis by (intro exI [of _ s7]) (simp add: defs)
qed

theorem node_refines_fifo_witness:
  "\<exists>s. n_log s = [(5, 12)] \<and>
     (fifo_step (\<lambda>op k. (op + k, Suc k)))\<^sup>*\<^sup>* \<lparr>f_todo = [], f_kern = 7, f_done = []\<rparr> (node_abs demo_views s)"
proof -
  obtain s where s: "node_steps demo_libs (\<lambda>op k. (op + k, Suc k)) demo_start s" "n_log s = [(5, 12)]" using demo_run by blast
  have "node_init demo_views 7 demo_start" by (simp add: node_init_def demo_start_def demo_views_def)
  with node_refines_fifo [OF demo_libs_ok this s(1)] s(2) show ?thesis by blast
qed

end
