(* ===== verification/Lkl_Fs.thy ===== *)
theory Lkl_Fs
  imports Kstring
begin

text \<open>
  The file system helpers of the host library, \<open>tools/lkl/lib/fs.c\<close>: mounting, finding the device
  number of a disk in sysfs, and reading directories, with the decoding of device numbers of
  \<open>include/linux/kdev_t.h\<close>.

  The kernel behind the system calls is an argument: a function from the call and the kernel's state
  \<open>'k\<close> to the result, the bytes stored in the caller's buffer and the new state. Paths and names are
  strings without their terminating NUL.
\<close>

section \<open>System calls\<close>

datatype syscall =
    SysMkdir string int
  | SysRmdir string
  | SysUnlink string
  | SysAccess string int
  | SysMknod string int u32
  | SysMount string string string int "string option"
  | SysUmount string int
  | SysOpen string int int
  | SysRead int nat
  | SysWrite int string
  | SysClose int
  | SysLseek int int int
  | SysGetdents64 int nat
  | SysNanosleep int int
  | SysSetrlimit int u32 u32
  | SysSync

type_synonym 'k kernel = "syscall \<Rightarrow> 'k \<Rightarrow> int \<times> u8 list \<times> 'k"

text \<open>A call whose \<open>long\<close> result is kept, and one whose result is stored in an \<open>int\<close>.\<close>

definition sys_long :: "'k kernel \<Rightarrow> syscall \<Rightarrow> 'k \<Rightarrow> int \<times> 'k" where
  "sys_long sys c k = (let (r, _, k) = sys c k in (r, k))"

definition int_of_long :: "int \<Rightarrow> int" where
  "int_of_long r = sint (word_of_int r :: u32)"

definition sys_int :: "'k kernel \<Rightarrow> syscall \<Rightarrow> 'k \<Rightarrow> int \<times> 'k" where
  "sys_int sys c k = (let (r, k) = sys_long sys c k in (int_of_long r, k))"

abbreviation (input) LKL_S_IRWXO :: int where "LKL_S_IRWXO \<equiv> 7"
abbreviation (input) LKL_O_RDONLY :: int where "LKL_O_RDONLY \<equiv> 0"
abbreviation (input) LKL_O_WRONLY :: int where "LKL_O_WRONLY \<equiv> 1"
abbreviation (input) LKL_O_DIRECTORY :: int where "LKL_O_DIRECTORY \<equiv> 0x10000"
abbreviation (input) BLK_NODE_MODE :: int where "BLK_NODE_MODE \<equiv> 0x6180"

section \<open>Mounting a pseudo file system\<close>

definition lkl_mount_fs :: "'k kernel \<Rightarrow> string \<Rightarrow> 'k \<Rightarrow> int \<times> 'k" where
  "lkl_mount_fs sys fstype k =
     (let dir = ''/'' @ take 50 fstype; (ret, k) = sys_int sys (SysMkdir dir 0xff) k in
      if ret \<noteq> 0 \<and> ret \<noteq> - EEXIST then (ret, k)
      else
        let (ret, k) = sys_int sys (SysMount ''none'' dir fstype 0 None) k in
        if ret \<noteq> 0 \<and> ret \<noteq> - EBUSY then (ret, snd (sys_int sys (SysRmdir dir) k))
        else if ret = - EBUSY then (1, k)
        else (0, k))"

section \<open>Device numbers\<close>

definition new_encode_dev :: "u32 \<Rightarrow> u32 \<Rightarrow> u32" where
  "new_encode_dev major minor = (minor AND 0xff) OR push_bit 8 major OR push_bit 12 (minor AND NOT 0xff)"

text \<open>The kernel's decoding: the pair of major and minor number.\<close>

definition new_decode_dev :: "u32 \<Rightarrow> u32 \<times> u32" where
  "new_decode_dev dev =
     (drop_bit 8 (dev AND 0xfff00), (dev AND 0xff) OR (drop_bit 12 dev AND 0xfff00))"

definition startswith :: "string \<Rightarrow> string \<Rightarrow> bool" where
  "startswith str pre \<longleftrightarrow> take (length pre) str = pre"

text \<open>One \<open>%d\<close> of the C library's \<open>sscanf\<close>: blanks, a sign, digits; no result when the number does
  not fit an \<open>int\<close>, and \<open>Inl\<close> when there is no number.\<close>

definition scan_int :: "string \<Rightarrow> (unit + int \<times> string) option" where
  "scan_int s =
     (let s = dropWhile isspace s;
          neg = (hd0 s = CHR ''-''); s = (if neg \<or> hd0 s = CHR ''+'' then drop 1 s else s);
          ds = takeWhile isdigit s; v = foldl (\<lambda>n c. 10 * n + int (code c - 48)) 0 ds;
          v = (if neg then - v else v) in
      if ds = [] then Some (Inl ())
      else if v < - (2 ^ 31) \<or> 2 ^ 31 \<le> v then None
      else Some (Inr (v, drop (length ds) s)))"

text \<open>\<open>sscanf(buf, "%d:%d", ...)\<close>: the two numbers when both are there.\<close>

definition scan_dev :: "string \<Rightarrow> (int \<times> int) option option" where
  "scan_dev s = do {
     a \<leftarrow> scan_int s;
     case a of
       Inl _ \<Rightarrow> Some None
     | Inr (major, r) \<Rightarrow>
         if hd0 r \<noteq> CHR '':'' then Some None
         else do {
           b \<leftarrow> scan_int (drop 1 r);
           case b of Inl _ \<Rightarrow> Some None | Inr (minor, _) \<Rightarrow> Some (Some (major, minor))
         }
   }"

text \<open>The string at the start of a byte array; no result without a terminating NUL.\<close>

definition cstring :: "u8 list \<Rightarrow> string option" where
  "cstring bs = (if 0 \<in> set bs then Some (map (\<lambda>b. char_of (unat b)) (takeWhile (\<lambda>b. b \<noteq> 0) bs)) else None)"

text \<open>\<open>Inr\<close> is the device number stored through \<open>pdevid\<close>.\<close>

definition encode_dev_from_sysfs :: "'k kernel \<Rightarrow> string \<Rightarrow> 'k \<Rightarrow> ((int + u32) \<times> 'k) option" where
  "encode_dev_from_sysfs sys sysfs_path k = do {
     let (fd, k) = sys_long sys (SysOpen sysfs_path LKL_O_RDONLY 0) k;
     if fd < 0 then Some (Inl (int_of_long fd), k)
     else do {
       let (r, data, k) = sys (SysRead fd 16) k;
       if length data > 16 then None
       else do {
         let ret = int_of_long r;
         let buf0 = data @ replicate (16 - length data) 0;
         res \<leftarrow> (if ret < 0 then Some (Inl ret)
           else if ret = 16 then Some (Inl (- ENOBUFS))
           else do {
             s \<leftarrow> cstring buf0;
             d \<leftarrow> scan_dev s;
             case d of
               None \<Rightarrow> Some (Inl (- EINVAL))
             | Some (major, minor) \<Rightarrow> Some (Inr (new_encode_dev (word_of_int major) (word_of_int minor)))
           });
         Some (res, snd (sys_long sys (SysClose fd) k))
       }
     }
   }"

section \<open>Directories\<close>

record lkl_dir =
  dir_fd :: int
  dir_buf :: "u8 list"
  dir_pos :: "nat option"
  dir_len :: int

definition lkl_dir_alloc :: "bool \<Rightarrow> int + lkl_dir" where
  "lkl_dir_alloc mem_ok =
     (if \<not> mem_ok then Inl (- ENOMEM)
      else Inr \<lparr>dir_fd = 0, dir_buf = replicate 1024 0, dir_pos = None, dir_len = 0\<rparr>)"

definition lkl_opendir :: "'k kernel \<Rightarrow> bool \<Rightarrow> string \<Rightarrow> 'k \<Rightarrow> (int + lkl_dir) \<times> 'k" where
  "lkl_opendir sys mem_ok path k =
     (case lkl_dir_alloc mem_ok of
        Inl err \<Rightarrow> (Inl err, k)
      | Inr dir \<Rightarrow>
          let (fd, k) = sys_int sys (SysOpen path (LKL_O_RDONLY + LKL_O_DIRECTORY) 0) k in
          if fd < 0 then (Inl fd, k) else (Inr (dir\<lparr>dir_fd := fd\<rparr>), k))"

definition lkl_fdopendir :: "bool \<Rightarrow> int \<Rightarrow> int + lkl_dir" where
  "lkl_fdopendir mem_ok fd =
     (case lkl_dir_alloc mem_ok of Inl err \<Rightarrow> Inl err | Inr dir \<Rightarrow> Inr (dir\<lparr>dir_fd := fd\<rparr>))"

definition lkl_rewinddir :: "'k kernel \<Rightarrow> lkl_dir \<Rightarrow> 'k \<Rightarrow> lkl_dir \<times> 'k" where
  "lkl_rewinddir sys dir k =
     (dir\<lparr>dir_len := 0, dir_pos := None\<rparr>, snd (sys_long sys (SysLseek (dir_fd dir) 0 0) k))"

definition lkl_closedir :: "'k kernel \<Rightarrow> lkl_dir \<Rightarrow> 'k \<Rightarrow> int \<times> 'k" where
  "lkl_closedir sys dir k = sys_int sys (SysClose (dir_fd dir)) k"

text \<open>The fields of the entry at offset \<open>p\<close> of the buffer: \<open>d_reclen\<close> and \<open>d_name\<close>.\<close>

definition d_reclen :: "u8 list \<Rightarrow> nat \<Rightarrow> nat option" where
  "d_reclen b p = (if p + 18 \<le> length b then Some (le_val (take 2 (drop (p + 16) b))) else None)"

definition d_name :: "u8 list \<Rightarrow> nat \<Rightarrow> string option" where
  "d_name b p = cstring (drop (p + 19) b)"

text \<open>The result is the offset of the entry in the buffer, \<open>None\<close> for the null pointer.\<close>

definition return_de :: "lkl_dir \<Rightarrow> nat \<Rightarrow> (nat option \<times> lkl_dir) option" where
  "return_de dir p = do { n \<leftarrow> d_reclen (dir_buf dir) p; Some (Some p, dir\<lparr>dir_pos := Some (p + n)\<rparr>) }"

definition read_buf :: "'k kernel \<Rightarrow> lkl_dir \<Rightarrow> 'k \<Rightarrow> (nat option \<times> lkl_dir \<times> 'k) option" where
  "read_buf sys dir k = do {
     let (r, data, k) = sys (SysGetdents64 (dir_fd dir) 1024) k;
     if length data > length (dir_buf dir) then None
     else do {
       let dir = dir\<lparr>dir_pos := None, dir_buf := data @ drop (length data) (dir_buf dir), dir_len := int_of_long r\<rparr>;
       if dir_len dir \<le> 0 then Some (None, dir, k)
       else do { (e, dir) \<leftarrow> return_de dir 0; Some (e, dir, k) }
     }
   }"

definition lkl_readdir :: "'k kernel \<Rightarrow> lkl_dir \<Rightarrow> 'k \<Rightarrow> (nat option \<times> lkl_dir \<times> 'k) option" where
  "lkl_readdir sys dir k =
     (if dir_len dir < 0 then Some (None, dir, k)
      else case dir_pos dir of
        Some p \<Rightarrow>
          if int p < dir_len dir then do { (e, dir) \<leftarrow> return_de dir p; Some (e, dir, k) }
          else read_buf sys dir k
      | None \<Rightarrow> read_buf sys dir k)"

definition lkl_errdir :: "lkl_dir \<Rightarrow> int" where
  "lkl_errdir dir = (if dir_len dir \<ge> 0 then 0 else dir_len dir)"

definition lkl_dirfd :: "lkl_dir \<Rightarrow> int" where
  "lkl_dirfd dir = dir_fd dir"

text \<open>
  The loop of \<open>get_node_with_prefix\<close> over the entries; it does not end when the kernel keeps
  returning entries.
\<close>

partial_function (option) find_node ::
  "'k kernel \<Rightarrow> string \<Rightarrow> nat \<Rightarrow> lkl_dir \<Rightarrow> 'k \<Rightarrow> ((int + string) \<times> lkl_dir \<times> 'k) option" where
  "find_node sys prefix result_len dir k = do {
     (e, dir, k) \<leftarrow> lkl_readdir sys dir k;
     case e of
       None \<Rightarrow> Some (Inl (- ENOENT), dir, k)
     | Some p \<Rightarrow> do {
         name \<leftarrow> d_name (dir_buf dir) p;
         if startswith name prefix then
           Some (if length name + 1 > result_len then Inl (- ENOMEM) else Inr name, dir, k)
         else find_node sys prefix result_len dir k
       }
   }"

definition get_node_with_prefix ::
  "'k kernel \<Rightarrow> bool \<Rightarrow> string \<Rightarrow> string \<Rightarrow> nat \<Rightarrow> 'k \<Rightarrow> ((int + string) \<times> 'k) option" where
  "get_node_with_prefix sys mem_ok path prefix result_len k =
     (case lkl_opendir sys mem_ok path k of
        (Inl ret, k) \<Rightarrow> Some (Inl ret, k)
      | (Inr dir, k) \<Rightarrow> do {
          (r, dir, k) \<leftarrow> find_node sys prefix result_len dir k;
          Some (r, snd (lkl_closedir sys dir k))
        })"

section \<open>The device number of a disk\<close>

text \<open>The text in the buffer and its size; the result of a failed call leaves the buffer to no one.\<close>

definition snprintf_append :: "nat \<Rightarrow> string \<Rightarrow> string \<Rightarrow> (int + string)" where
  "snprintf_append len text new =
     (if length new \<ge> len - length text then Inl (- ENOMEM) else Inr (text @ new))"

abbreviation (input) LKL_PATH_MAX :: nat where "LKL_PATH_MAX \<equiv> 4096"

text \<open>\<open>num_boot\<close> is the result of \<open>virtio_get_num_bootdevs\<close>, \<open>mem_ok\<close> says whether the
  directory handles can be allocated.\<close>

definition blkdev_dir :: "u32 \<Rightarrow> int \<Rightarrow> string" where
  "blkdev_dir num_boot disk_id =
     (if word_of_int disk_id \<ge> num_boot
      then ''/sysfs/devices/platform/virtio-mmio.'' @ int_str (sint (word_of_int disk_id - num_boot)) @ ''.auto''
      else ''/sysfs/devices/virtio-mmio-cmdline/virtio-mmio.'' @ int_str disk_id)"

definition lkl_get_virtio_blkdev ::
  "'k kernel \<Rightarrow> bool \<Rightarrow> u32 \<Rightarrow> int \<Rightarrow> u32 \<Rightarrow> 'k \<Rightarrow> ((int + u32) \<times> 'k) option" where
  "lkl_get_virtio_blkdev sys mem_ok num_boot disk_id part k =
     (if disk_id < 0 then Some (Inl (- EINVAL), k)
      else
        let (ret, k) = lkl_mount_fs sys ''sysfs'' k in
        if ret < 0 then Some (Inl ret, k)
        else case snprintf_append LKL_PATH_MAX [] (blkdev_dir num_boot disk_id) of
          Inl e \<Rightarrow> Some (Inl e, k)
        | Inr path \<Rightarrow> do {
            (v, k) \<leftarrow> get_node_with_prefix sys mem_ok path ''virtio'' LKL_PATH_MAX k;
            case v of
              Inl e \<Rightarrow> Some (Inl e, k)
            | Inr virtio_name \<Rightarrow> (case snprintf_append LKL_PATH_MAX path (''/'' @ virtio_name @ ''/block'') of
                Inl e \<Rightarrow> Some (Inl e, k)
              | Inr path \<Rightarrow> do {
                  (d, k) \<leftarrow> get_node_with_prefix sys mem_ok path ''vd'' LKL_PATH_MAX k;
                  case d of
                    Inl e \<Rightarrow> Some (Inl e, k)
                  | Inr disk_name \<Rightarrow> (case snprintf_append LKL_PATH_MAX path
                        (if part = 0 then ''/'' @ disk_name @ ''/dev''
                         else ''/'' @ disk_name @ ''/'' @ disk_name @ int_str (sint part) @ ''/dev'') of
                      Inl e \<Rightarrow> Some (Inl e, k)
                    | Inr path \<Rightarrow> encode_dev_from_sysfs sys path k)
                })
          })"

section \<open>Mounting a disk\<close>

definition hex8 :: "u32 \<Rightarrow> string" where
  "hex8 d = pad0 8 (hex_str (unat d))"

text \<open>\<open>access\<close> on a directory, which is created when it does not exist.\<close>

definition ensure_dir :: "'k kernel \<Rightarrow> string \<Rightarrow> 'k \<Rightarrow> int \<times> 'k" where
  "ensure_dir sys path k =
     (let (err, k) = sys_int sys (SysAccess path LKL_S_IRWXO) k in
      if err < 0 \<and> err = - ENOENT then sys_int sys (SysMkdir path 448) k else (err, k))"

text \<open>\<open>Inr\<close> is success with the mount point stored in \<open>mnt_str\<close>.\<close>

definition lkl_mount_dev ::
  "'k kernel \<Rightarrow> bool \<Rightarrow> u32 \<Rightarrow> u32 \<Rightarrow> u32 \<Rightarrow> string \<Rightarrow> int \<Rightarrow> string option \<Rightarrow> u32 \<Rightarrow> 'k \<Rightarrow>
   ((int + string) \<times> 'k) option" where
  "lkl_mount_dev sys mem_ok num_boot disk_id part fs_type flags data mnt_str_len k =
     (if mnt_str_len < 14 then Some (Inl (- ENOMEM), k)
      else do {
        (d, k) \<leftarrow> lkl_get_virtio_blkdev sys mem_ok num_boot (sint disk_id) part k;
        case d of
          Inl err \<Rightarrow> if err < 0 then Some (Inl err, k) else None
        | Inr dev \<Rightarrow>
            let dev_str = ''/dev/'' @ hex8 dev; mnt_str = ''/mnt/'' @ hex8 dev;
                (err, k) = ensure_dir sys ''/dev'' k in
            if err < 0 then Some (Inl err, k)
            else let (err, k) = sys_int sys (SysMknod dev_str BLK_NODE_MODE dev) k in
            if err < 0 then Some (Inl err, k)
            else let (err, k) = ensure_dir sys ''/mnt'' k in
            if err < 0 then Some (Inl err, k)
            else let (err, k) = sys_int sys (SysMkdir mnt_str 448) k in
            if err < 0 then Some (Inl err, snd (sys_int sys (SysUnlink dev_str) k))
            else
              let opts = (case data of Some s \<Rightarrow> take 4095 s | None \<Rightarrow> []);
                  (err, k) = sys_int sys (SysMount dev_str mnt_str fs_type flags (Some opts)) k in
              if err < 0 then
                let k = snd (sys_int sys (SysUnlink dev_str) k); k = snd (sys_int sys (SysRmdir mnt_str) k)
                in Some (Inl err, k)
              else Some (Inr mnt_str, k)
      })"

function lkl_umount_timeout :: "'k kernel \<Rightarrow> string \<Rightarrow> int \<Rightarrow> int \<Rightarrow> 'k \<Rightarrow> int \<times> 'k" where
  "lkl_umount_timeout sys path flags timeout_ms k =
     (let (err, k) = sys_long sys (SysUmount path flags) k in
      if err \<noteq> - EBUSY then (err, k)
      else
        let k = snd (sys_long sys (SysNanosleep 0 10000000) k); timeout_ms = timeout_ms - 10 in
        if timeout_ms > 0 then lkl_umount_timeout sys path flags timeout_ms k else (err, k))"
  by pat_completeness auto
termination
  by (relation "measure (\<lambda>(sys, path, flags, t, k). nat t)") auto

declare lkl_umount_timeout.simps [simp del]

definition lkl_umount_dev ::
  "'k kernel \<Rightarrow> bool \<Rightarrow> u32 \<Rightarrow> u32 \<Rightarrow> u32 \<Rightarrow> int \<Rightarrow> int \<Rightarrow> 'k \<Rightarrow> (int \<times> 'k) option" where
  "lkl_umount_dev sys mem_ok num_boot disk_id part flags timeout_ms k = do {
     (d, k) \<leftarrow> lkl_get_virtio_blkdev sys mem_ok num_boot (sint disk_id) part k;
     case d of
       Inl err \<Rightarrow> if err < 0 then Some (err, k) else None
     | Inr dev \<Rightarrow>
         let (err, k) = lkl_umount_timeout sys (''/mnt/'' @ hex8 dev) flags timeout_ms k; err = int_of_long err in
         if err \<noteq> 0 then Some (err, k)
         else let (err, k) = sys_int sys (SysUnlink (''/dev/'' @ hex8 dev)) k in
         if err \<noteq> 0 then Some (err, k)
         else Some (sys_long sys (SysRmdir (''/mnt/'' @ hex8 dev)) k)
   }"

definition lkl_set_fd_limit :: "'k kernel \<Rightarrow> u32 \<Rightarrow> 'k \<Rightarrow> int \<times> 'k" where
  "lkl_set_fd_limit sys fd_limit k = sys_int sys (SysSetrlimit 7 fd_limit fd_limit) k"

section \<open>Device numbers survive\<close>

lemma bit_new_encode_dev:
  "bit (new_encode_dev major minor) j \<longleftrightarrow>
     (if j < 8 then bit minor j else j < 32 \<and> (bit major (j - 8) \<or> 20 \<le> j \<and> bit minor (j - 12)))"
proof -
  have m: "(0xff :: u32) = mask 8" by (simp add: mask_eq_exp_minus_1)
  have "j < 8 \<Longrightarrow> bit (new_encode_dev major minor) j = bit minor j"
    by (simp add: new_encode_dev_def m bit_and_iff bit_or_iff bit_push_bit_iff bit_mask_iff)
  moreover have "\<not> j < 8 \<Longrightarrow> bit (new_encode_dev major minor) j = (j < 32 \<and> (bit major (j - 8) \<or> 20 \<le> j \<and> bit minor (j - 12)))"
    by (simp add: new_encode_dev_def m bit_and_iff bit_or_iff bit_push_bit_iff bit_not_iff bit_mask_iff) linarith
  ultimately show ?thesis by simp
qed

lemma new_decode_encode_dev:
  assumes "unat major < 2 ^ 12" "unat minor < 2 ^ 20"
  shows "new_decode_dev (new_encode_dev major minor) = (major, minor)"
proof -
  have b: "bit major i \<Longrightarrow> i < 12" "bit minor i \<Longrightarrow> i < 20" for i
    using assms bit_less_pow2 by blast+
  have m: "(0xff :: u32) = mask 8" "(0xfff00 :: u32) = push_bit 8 (mask 12)"
    by (simp_all add: mask_eq_exp_minus_1)
  note bits = bit_new_encode_dev m bit_and_iff bit_or_iff bit_drop_bit_eq bit_push_bit_iff bit_mask_iff
  have "bit (drop_bit 8 (new_encode_dev major minor AND 0xfff00)) n = bit major n" if "n < 32" for n
    using that b(1) [of n] by (cases "n < 12") (auto simp: bits)
  moreover have "bit ((new_encode_dev major minor AND 0xff) OR (drop_bit 12 (new_encode_dev major minor) AND 0xfff00)) n = bit minor n"
    if "n < 32" for n
    using that b(1) [of "4 + n"] b(2) [of n] by (cases "n < 8") (auto simp: bits)
  ultimately show ?thesis unfolding new_decode_dev_def prod.inject
    by (intro conjI bit_word_eqI) simp_all
qed

definition digits_val :: "string \<Rightarrow> int" where
  "digits_val ds = foldl (\<lambda>n c. 10 * n + int (code c - 48)) 0 ds"

lemma dec_str_digits: "(\<forall>c \<in> set (dec_str n). isdigit c) \<and> digits_val (dec_str n) = int n \<and> dec_str n \<noteq> []"
proof (rule num_str_induct [of 10])
  fix n :: nat assume "n < 10"
  then show "(\<forall>c \<in> set (dec_str n). isdigit c) \<and> digits_val (dec_str n) = int n \<and> dec_str n \<noteq> []"
    by (simp add: num_str.simps [of 10 n] digits_val_def isdigit_def code_digit_char)
next
  fix n :: nat assume "10 \<le> n"
    and "(\<forall>c \<in> set (dec_str (n div 10)). isdigit c) \<and> digits_val (dec_str (n div 10)) = int (n div 10) \<and> dec_str (n div 10) \<noteq> []"
  moreover have "n mod 10 \<le> 9" "10 * int (n div 10) + int (n mod 10) = int n"
    using of_nat_add [of "10 * (n div 10)" "n mod 10", where 'a = int] by simp_all
  ultimately show "(\<forall>c \<in> set (dec_str n). isdigit c) \<and> digits_val (dec_str n) = int n \<and> dec_str n \<noteq> []"
    by (simp add: num_str.simps [of 10 n] digits_val_def isdigit_def code_digit_char)
qed simp

lemma length_dec_str: "n < 10 ^ Suc k \<Longrightarrow> length (dec_str n) \<le> Suc k"
proof (induction k arbitrary: n)
  case 0
  then show ?case by (simp add: num_str.simps [of 10 n])
next
  case (Suc k)
  show ?case
  proof (cases "n < 10")
    case False
    have "n div 10 < 10 ^ Suc k" using Suc.prems by (simp add: less_mult_imp_div_less mult.commute)
    with Suc.IH False show ?thesis by (simp add: num_str.simps [of 10 n])
  qed (simp add: num_str.simps [of 10 n])
qed

lemma scan_int_dec_str:
  assumes "n < 2 ^ 31" "\<not> isdigit (hd0 s)"
  shows "scan_int (dec_str n @ s) = Some (Inr (int n, s))"
proof -
  note d = dec_str_digits [of n]
  then obtain c ds where c: "dec_str n = c # ds" by (cases "dec_str n") auto
  have "isdigit c" using d c by simp
  then have "\<not> isspace c" "c \<noteq> CHR ''-''" "c \<noteq> CHR ''+''" by (auto simp: isdigit_def isspace_def code_def)
  moreover have "takeWhile isdigit (dec_str n @ s) = dec_str n"
    using d assms(2) by (cases s) (auto simp: takeWhile_append)
  moreover have "(2 :: int) ^ 31 = int (2 ^ 31)" by simp
  ultimately show ?thesis
    using d assms(1) by (simp add: scan_int_def Let_def c digits_val_def del: of_nat_power)
qed

definition to_bytes :: "string \<Rightarrow> u8 list" where
  "to_bytes s = map (\<lambda>c. word_of_nat (code c)) s"

lemma char_of_code [simp]: "char_of (unat (word_of_nat (code c) :: u8)) = c"
proof -
  have "code c < 2 ^ 8" by (simp add: code_def)
  then have "unat (word_of_nat (code c) :: u8) = code c" by (intro unat_eqI [OF refl]) simp
  then show ?thesis by (simp add: code_def)
qed

lemma length_to_bytes [simp]: "length (to_bytes s) = length s"
  by (simp add: to_bytes_def)

lemma to_bytes_nonzero:
  assumes "NUL \<notin> set s"
  shows "0 \<notin> set (to_bytes s)"
proof
  assume "0 \<in> set (to_bytes s)"
  then obtain c where c: "c \<in> set s" "(0 :: u8) = word_of_nat (code c)" by (auto simp: to_bytes_def)
  have "char_of (unat (0 :: u8)) = c" unfolding c(2) by (rule char_of_code)
  then have "c = NUL" by (auto simp: char_of_def)
  with c assms show False by simp
qed

lemma cstring_to_bytes:
  assumes "NUL \<notin> set s"
  shows "cstring (to_bytes s @ 0 # r) = Some s"
proof -
  have "takeWhile (\<lambda>b. b \<noteq> 0) (to_bytes s @ 0 # r) = to_bytes s"
    using to_bytes_nonzero [OF assms] by (subst takeWhile_append2) auto
  then show ?thesis by (simp add: cstring_def) (simp add: to_bytes_def comp_def)
qed

text \<open>
  C36: a device number makes the round trip through sysfs. When the kernel shows the numbers
  \<open>major:minor\<close> of a block device in its sysfs file, the library reads them, encodes them, and the
  number it then hands to \<open>mknod\<close> is decoded by the kernel to the same major and minor number; the
  file is closed again.
\<close>

theorem sysfs_dev_roundtrip:
  assumes "sys (SysOpen path 0 0) k = (fd, os, k1)" "0 \<le> fd"
    and "sys (SysRead fd 16) k1 = (r, to_bytes (dec_str major @ '':'' @ dec_str minor @ [CHR 0x0A]), k2)"
    and r: "0 \<le> r" "r < 16" and n: "major < 2 ^ 12" "minor < 2 ^ 20"
  shows "\<exists>dev. encode_dev_from_sysfs sys path k = Some (Inr dev, snd (sys_long sys (SysClose fd) k2)) \<and>
    new_decode_dev dev = (word_of_nat major, word_of_nat minor)"
proof -
  let ?s = "dec_str major @ '':'' @ dec_str minor @ [CHR 0x0A]"
  have l: "length (dec_str major @ '':'' @ dec_str minor) < 15"
    using length_dec_str [of major 3] length_dec_str [of minor 6] n by simp
  have nul: "\<not> isdigit NUL" "\<not> isdigit CHR '':''" "\<not> isdigit CHR 0x0A" by (simp_all add: isdigit_def code_def)
  then have nn: "NUL \<notin> set ?s" using dec_str_digits [of major] dec_str_digits [of minor] by auto
  have "16 - length (to_bytes ?s) = Suc (15 - length (to_bytes ?s))" using l by simp
  then have c: "cstring (to_bytes ?s @ replicate (16 - length (to_bytes ?s)) 0) = Some ?s"
    by (simp only: replicate_Suc cstring_to_bytes [OF nn])
  define data where "data = to_bytes ?s"
  have d: "length data \<le> 16" using l by (simp add: data_def)
  have "scan_dev ?s = Some (Some (int major, int minor))"
    using scan_int_dec_str [of major "'':'' @ dec_str minor @ [CHR 0x0A]"] scan_int_dec_str [of minor "[CHR 0x0A]"] n nul
    by (simp add: scan_dev_def)
  moreover have "int_of_long r = r" using r by (simp add: int_of_long_def sint_word_of_int_small)
  ultimately have "encode_dev_from_sysfs sys path k =
      Some (Inr (new_encode_dev (word_of_nat major) (word_of_nat minor)), snd (sys_long sys (SysClose fd) k2))"
    using assms(1,2) assms(3-5) [folded data_def] c [folded data_def] d
    by (simp add: encode_dev_from_sysfs_def sys_long_def [of sys "SysOpen path 0 0"] Let_def)
  moreover have "unat (word_of_nat major :: u32) < 2 ^ 12" "unat (word_of_nat minor :: u32) < 2 ^ 20"
    using n by (simp_all add: unat_of_nat)
  ultimately show ?thesis using new_decode_encode_dev by blast
qed

text \<open>A kernel whose only file shows the numbers of the first virtio disk.\<close>

definition sysfs_kernel :: "nat kernel" where
  "sysfs_kernel c k = (case c of
     SysOpen _ _ _ \<Rightarrow> (3, [], Suc k)
   | SysRead _ _ \<Rightarrow> (6, to_bytes (dec_str 254 @ '':'' @ dec_str 17 @ [CHR 0x0A]), k)
   | SysClose _ \<Rightarrow> (0, [], k - 1)
   | _ \<Rightarrow> (- ENOSYS, [], k))"

theorem sysfs_dev_roundtrip_witness:
  "\<exists>dev. encode_dev_from_sysfs sysfs_kernel ''dev'' 0 = Some (Inr dev, 0) \<and> new_decode_dev dev = (254, 17)"
  using sysfs_dev_roundtrip [of sysfs_kernel "''dev''" 0 3 "[]" 1 6 254 17 1]
  by (simp add: sysfs_kernel_def sys_long_def)

section \<open>Waiting for a busy file system\<close>

text \<open>The state after \<open>n\<close> attempts with their pauses, all of them finding the file system busy.\<close>

fun busy_rounds :: "'k kernel \<Rightarrow> string \<Rightarrow> int \<Rightarrow> nat \<Rightarrow> 'k \<Rightarrow> 'k option" where
  "busy_rounds sys path flags 0 k = Some k"
| "busy_rounds sys path flags (Suc n) k =
     (let (err, k) = sys_long sys (SysUmount path flags) k in
      if err = - EBUSY then busy_rounds sys path flags n (snd (sys_long sys (SysNanosleep 0 10000000) k)) else None)"

definition umount_limit :: "int \<Rightarrow> nat" where
  "umount_limit t = max 1 (nat ((t + 9) div 10))"

lemma umount_limit_step: "10 < t \<Longrightarrow> umount_limit t = Suc (umount_limit (t - 10))" "t \<le> 10 \<Longrightarrow> umount_limit t = 1"
  by (auto simp: umount_limit_def max_def nat_eq_iff)

text \<open>
  C38: unmounting with a time limit ends. It tries once per started 10 ms of the limit and at least
  once: if the first attempt that does not find the file system busy is within these attempts, its
  result is returned right away, and if all of them find it busy the result is that it is busy.
\<close>

theorem umount_timeout_attempts:
  "(\<forall>n k' err k''. n < umount_limit t \<and> busy_rounds sys path flags n k = Some k' \<and>
      sys_long sys (SysUmount path flags) k' = (err, k'') \<and> err \<noteq> - EBUSY \<longrightarrow>
      lkl_umount_timeout sys path flags t k = (err, k'')) \<and>
   (\<forall>k'. busy_rounds sys path flags (umount_limit t) k = Some k' \<longrightarrow>
      lkl_umount_timeout sys path flags t k = (- EBUSY, k'))"
proof (induction "umount_limit t" arbitrary: t k)
  case 0
  then show ?case by (simp add: umount_limit_def)
next
  case (Suc m)
  obtain e k1 where e: "sys_long sys (SysUmount path flags) k = (e, k1)" by fastforce
  let ?k = "snd (sys_long sys (SysNanosleep 0 10000000) k1)"
  show ?case
  proof (cases "e = - EBUSY")
    case False
    then show ?thesis
      using e by (auto simp: lkl_umount_timeout.simps [of sys path flags t k] Suc(2) [symmetric] gr0_conv_Suc
          less_Suc_eq_0_disj Let_def)
  next
    case True
    show ?thesis
    proof (cases "10 < t")
      case t: True
      then have l: "m = umount_limit (t - 10)" using Suc(2) umount_limit_step(1) by auto
      have "lkl_umount_timeout sys path flags t k = lkl_umount_timeout sys path flags (t - 10) ?k"
        using e True t by (simp add: lkl_umount_timeout.simps [of sys path flags t k] Let_def)
      with Suc(1) [OF l, of ?k] e True show ?thesis
        by (auto simp: Suc(2) [symmetric] l less_Suc_eq_0_disj)
    next
      case False
      then have l: "umount_limit t = 1" using umount_limit_step(2) by simp
      have "lkl_umount_timeout sys path flags t k = (- EBUSY, ?k)"
        using e True False by (simp add: lkl_umount_timeout.simps [of sys path flags t k] Let_def)
      then show ?thesis unfolding l using e True by (auto intro!: gr0I)
    qed
  qed
qed

text \<open>A kernel that finds the file system busy for \<open>k\<close> more attempts.\<close>

definition busy_kernel :: "nat kernel" where
  "busy_kernel c k = (case c of SysUmount _ _ \<Rightarrow> if k = 0 then (0, [], 0) else (- EBUSY, [], k - 1) | _ \<Rightarrow> (0, [], k))"

theorem umount_timeout_attempts_witness:
  "lkl_umount_timeout busy_kernel ''/mnt'' 0 25 2 = (0, 0) \<and> lkl_umount_timeout busy_kernel ''/mnt'' 0 25 5 = (- EBUSY, 2)"
proof -
  have l: "umount_limit 25 = 3" by (simp add: umount_limit_def)
  have "busy_rounds busy_kernel ''/mnt'' 0 2 2 = Some 0" "busy_rounds busy_kernel ''/mnt'' 0 3 5 = Some 2"
    "sys_long busy_kernel (SysUmount ''/mnt'' 0) 0 = (0, 0)"
    by (simp_all add: busy_kernel_def sys_long_def numeral_eq_Suc)
  then show ?thesis
    using umount_timeout_attempts [of 25 busy_kernel "''/mnt''" 0 2, THEN conjunct1, rule_format, of 2 0 0 0]
      umount_timeout_attempts [of 25 busy_kernel "''/mnt''" 0 5, THEN conjunct2, rule_format, of 2]
    unfolding l by simp
qed

section \<open>Finding a name in a directory\<close>

text \<open>
  A directory entry with the given name: sixteen bytes of inode and offset, its own length, a type, the
  name with its terminating NUL and padding.
\<close>

definition dirent :: "string \<Rightarrow> u8 list \<Rightarrow> bool" where
  "dirent name e \<longleftrightarrow> 19 \<le> length e \<and> length e < 2 ^ 16 \<and> le_val (take 2 (drop 16 e)) = length e \<and> cstring (drop 19 e) = Some name"

definition chunk :: "(string \<times> u8 list) list \<Rightarrow> bool" where
  "chunk c \<longleftrightarrow> c \<noteq> [] \<and> length (concat (map snd c)) \<le> 1024 \<and> (\<forall>(n, e) \<in> set c. dirent n e)"

text \<open>What \<open>getdents64\<close> delivers: blocks of whole entries, then the end of the directory.\<close>

fun delivers :: "'k kernel \<Rightarrow> int \<Rightarrow> 'k \<Rightarrow> (string \<times> u8 list) list list \<Rightarrow> bool" where
  "delivers sys fd k [] \<longleftrightarrow> (\<exists>k'. sys (SysGetdents64 fd 1024) k = (0, [], k'))"
| "delivers sys fd k (c # cs) \<longleftrightarrow> chunk c \<and>
     (\<exists>k'. sys (SysGetdents64 fd 1024) k = (int (length (concat (map snd c))), concat (map snd c), k') \<and> delivers sys fd k' cs)"

lemma dirent_at:
  assumes "dirent name e" "drop p b = e @ r"
  shows "d_reclen b p = Some (length e)" "d_name b p = Some name"
proof -
  have e: "19 \<le> length e" "le_val (take 2 (drop 16 e)) = length e" "cstring (drop 19 e) = Some name"
    using assms(1) by (simp_all add: dirent_def)
  have l: "p + length e \<le> length b" using arg_cong [OF assms(2), of length] e(1) by (simp; linarith)
  have d: "drop (p + i) b = drop i e @ r" if "i \<le> length e" for i
  proof -
    have "drop (p + i) b = drop i (drop p b)" by (simp add: add.commute)
    then show ?thesis using that by (simp add: assms(2))
  qed
  show "d_reclen b p = Some (length e)" using d [of 16] e l by (simp add: d_reclen_def)
  have "cstring (drop 19 e @ r) = Some name"
    using e(3) by (auto simp: cstring_def takeWhile_append split: if_splits)
  then show "d_name b p = Some name" using d [of 19] e by (simp add: d_name_def)
qed

text \<open>The entries of the buffer that are still to be returned.\<close>

definition at_entries :: "lkl_dir \<Rightarrow> (string \<times> u8 list) list \<Rightarrow> bool" where
  "at_entries dir rest \<longleftrightarrow> length (dir_buf dir) = 1024 \<and> 0 \<le> dir_len dir \<and> (\<forall>(n, e) \<in> set rest. dirent n e) \<and>
     (case dir_pos dir of
        None \<Rightarrow> rest = []
      | Some p \<Rightarrow> (\<exists>rem. drop p (dir_buf dir) = concat (map snd rest) @ rem) \<and>
          int p + int (length (concat (map snd rest))) = dir_len dir)"

lemma return_de_entry:
  assumes "dirent n e" "\<forall>(n, e) \<in> set rest. dirent n e" "length (dir_buf dir) = 1024"
    and "drop p (dir_buf dir) = e @ concat (map snd rest) @ rem"
    and "int p + int (length e) + int (length (concat (map snd rest))) = dir_len dir"
  shows "\<exists>dir'. return_de dir p = Some (Some p, dir') \<and> d_name (dir_buf dir') p = Some n \<and> at_entries dir' rest \<and> dir_fd dir' = dir_fd dir"
proof -
  note d = dirent_at [OF assms(1,4)]
  have "drop (p + length e) (dir_buf dir) = drop (length e) (drop p (dir_buf dir))" by (simp add: add.commute)
  then have "drop (p + length e) (dir_buf dir) = concat (map snd rest) @ rem" by (simp add: assms(4))
  then have "at_entries (dir\<lparr>dir_pos := Some (p + length e)\<rparr>) rest" using assms by (auto simp: at_entries_def)
  with d show ?thesis by (simp add: return_de_def)
qed

lemma readdir_next:
  assumes "at_entries dir ((n, e) # rest)"
  shows "\<exists>p dir'. lkl_readdir sys dir k = Some (Some p, dir', k) \<and> d_name (dir_buf dir') p = Some n \<and>
    at_entries dir' rest \<and> dir_fd dir' = dir_fd dir"
proof -
  from assms obtain p rem where p: "dir_pos dir = Some p" "drop p (dir_buf dir) = e @ concat (map snd rest) @ rem"
    and l: "int p + int (length e) + int (length (concat (map snd rest))) = dir_len dir" "length (dir_buf dir) = 1024"
    and e: "dirent n e" "\<forall>(n, e) \<in> set rest. dirent n e"
    by (auto simp: at_entries_def add.assoc split: option.splits)
  have "19 \<le> length e" using e(1) by (simp add: dirent_def)
  then have "int p < dir_len dir" "0 \<le> dir_len dir" using l(1) by linarith+
  with p(1) return_de_entry [OF e l(2) p(2) l(1)] show ?thesis by (auto simp: lkl_readdir_def)
qed

lemma read_buf_data:
  assumes "sys (SysGetdents64 (dir_fd dir) 1024) k = (int (length b), b, k')" "length b \<le> 1024" "b \<noteq> []" "length (dir_buf dir) = 1024"
  shows "read_buf sys dir k = do {
    (e, dir) \<leftarrow> return_de (dir\<lparr>dir_pos := None, dir_buf := b @ drop (length b) (dir_buf dir), dir_len := int (length b)\<rparr>) 0;
    Some (e, dir, k') }"
proof -
  have "int_of_long (int (length b)) = int (length b)"
    using assms(2) by (simp only: int_of_long_def) (rule sint_word_of_int_small, simp_all)
  with assms show ?thesis by (simp add: read_buf_def Let_def)
qed

lemma readdir_refill:
  assumes "at_entries dir []" "delivers sys (dir_fd dir) k (((n, e) # rest) # cs)"
  shows "\<exists>p dir' k'. lkl_readdir sys dir k = Some (Some p, dir', k') \<and> d_name (dir_buf dir') p = Some n \<and>
    at_entries dir' rest \<and> dir_fd dir' = dir_fd dir \<and> delivers sys (dir_fd dir) k' cs"
proof -
  let ?b = "e @ concat (map snd rest)"
  from assms(2) obtain k' where g: "sys (SysGetdents64 (dir_fd dir) 1024) k = (int (length ?b), ?b, k')"
    and d: "delivers sys (dir_fd dir) k' cs" and c: "length ?b \<le> 1024" "dirent n e" "\<forall>(n, e) \<in> set rest. dirent n e"
    by (auto simp: chunk_def)
  have b: "length (dir_buf dir) = 1024" "0 \<le> dir_len dir" using assms(1) by (simp_all add: at_entries_def)
  have "19 \<le> length e" using c(2) by (simp add: dirent_def)
  then have pos: "?b \<noteq> []" by auto
  let ?dir = "dir\<lparr>dir_pos := None, dir_buf := ?b @ drop (length ?b) (dir_buf dir), dir_len := int (length ?b)\<rparr>"
  obtain dir' where "return_de ?dir 0 = Some (Some 0, dir')" "d_name (dir_buf dir') 0 = Some n" "at_entries dir' rest" "dir_fd dir' = dir_fd dir"
    using return_de_entry [OF c(2,3), of ?dir 0 "drop (length ?b) (dir_buf dir)"] b c(1) by auto
  moreover have "read_buf sys dir k = do { (e, dir) \<leftarrow> return_de ?dir 0; Some (e, dir, k') }"
    using read_buf_data [of sys dir k ?b k'] g c(1) pos b(1) by blast
  moreover have "lkl_readdir sys dir k = read_buf sys dir k"
    using assms(1) by (auto simp: lkl_readdir_def at_entries_def split: option.splits)
  ultimately show ?thesis using d by auto
qed

lemma readdir_end:
  assumes "at_entries dir []" "delivers sys (dir_fd dir) k []"
  shows "\<exists>dir' k'. lkl_readdir sys dir k = Some (None, dir', k') \<and> dir_fd dir' = dir_fd dir"
proof -
  have "lkl_readdir sys dir k = read_buf sys dir k"
    using assms(1) by (auto simp: lkl_readdir_def at_entries_def split: option.splits)
  moreover have "int_of_long 0 = 0" by (simp add: int_of_long_def)
  ultimately show ?thesis using assms(2) by (auto simp: read_buf_def Let_def)
qed

definition prefix_result :: "string \<Rightarrow> nat \<Rightarrow> string list \<Rightarrow> int + string" where
  "prefix_result prefix result_len names =
     (case find (\<lambda>n. startswith n prefix) names of
        None \<Rightarrow> Inl (- ENOENT)
      | Some n \<Rightarrow> if length n + 1 > result_len then Inl (- ENOMEM) else Inr n)"

lemma find_node_first:
  assumes "at_entries dir rest" "delivers sys (dir_fd dir) k cs"
  shows "\<exists>dir' k'. find_node sys prefix result_len dir k =
      Some (prefix_result prefix result_len (map fst (rest @ concat cs)), dir', k') \<and> dir_fd dir' = dir_fd dir"
  using assms
proof (induction "length (rest @ concat cs)" arbitrary: dir k rest cs)
  case 0
  then have "rest = []" "cs = []" by (cases cs; auto simp: chunk_def)+
  with readdir_end 0(2,3) show ?case
    by (subst find_node.simps) (fastforce simp: prefix_result_def)
next
  case (Suc m)
  obtain n e rest1 cs1 where l: "rest @ concat cs = (n, e) # rest1 @ concat cs1"
    and step: "\<exists>p dir' k'. lkl_readdir sys dir k = Some (Some p, dir', k') \<and> d_name (dir_buf dir') p = Some n \<and>
      at_entries dir' rest1 \<and> dir_fd dir' = dir_fd dir \<and> delivers sys (dir_fd dir) k' cs1"
  proof (cases rest)
    case (Cons x xs)
    then show ?thesis using that [of "fst x" "snd x" xs cs] readdir_next [of dir "fst x" "snd x" xs sys k] Suc.prems
      by (auto)
  next
    case Nil
    then obtain n e xs cs' where "cs = ((n, e) # xs) # cs'"
      using Suc(2) Suc.prems(2) by (cases cs; cases "hd cs") (auto simp: chunk_def)
    then show ?thesis using that [of n e xs cs'] readdir_refill [of dir sys k n e xs cs'] Suc.prems Nil by auto
  qed
  then obtain p dir' k' where r: "lkl_readdir sys dir k = Some (Some p, dir', k')" "d_name (dir_buf dir') p = Some n"
    "at_entries dir' rest1" "dir_fd dir' = dir_fd dir" "delivers sys (dir_fd dir') k' cs1" by auto
  have "m = length (rest1 @ concat cs1)" using Suc(2) l by simp
  from Suc(1) [OF this r(3,5)] r l show ?case
    by (subst find_node.simps) (auto simp: prefix_result_def)
qed

text \<open>
  C37: looking a node up by prefix in a directory that opens and whose entries the kernel delivers in
  blocks returns the first delivered name that starts with the prefix, whichever block it is in, an error when
  there is none or when it does not fit the caller's buffer; the search ends, and the last
  call closes the directory.
\<close>

theorem get_node_with_prefix_first:
  assumes "sys_int sys (SysOpen path (LKL_O_RDONLY + LKL_O_DIRECTORY) 0) k = (fd, k1)" "0 \<le> fd"
    and "delivers sys fd k1 cs"
  shows "\<exists>k2. get_node_with_prefix sys True path prefix result_len k =
    Some (prefix_result prefix result_len (map fst (concat cs)), snd (sys_int sys (SysClose fd) k2))"
proof -
  let ?dir = "\<lparr>dir_fd = fd, dir_buf = replicate 1024 0, dir_pos = None, dir_len = 0\<rparr>"
  have "at_entries ?dir []" by (simp add: at_entries_def)
  from find_node_first [OF this, of sys k1 cs prefix result_len] assms(3) obtain dir' k2
    where "find_node sys prefix result_len ?dir k1 = Some (prefix_result prefix result_len (map fst (concat cs)), dir', k2)"
      "dir_fd dir' = fd" by auto
  moreover have "lkl_opendir sys True path k = (Inr ?dir, k1)"
    using assms(1,2) by (simp add: lkl_opendir_def lkl_dir_alloc_def)
  ultimately show ?thesis by (intro exI [of _ k2]) (simp add: get_node_with_prefix_def lkl_closedir_def)
qed

text \<open>A kernel whose directory holds the two nodes of a disk, delivered one by one.\<close>

definition demo_entry :: "string \<Rightarrow> u8 list" where
  "demo_entry name = replicate 16 0 @ [word_of_nat (20 + length name), 0, 4] @ to_bytes name @ [0]"

definition demo_dir :: "nat kernel" where
  "demo_dir s k = (case s of
     SysOpen _ _ _ \<Rightarrow> (3, [], 0)
   | SysGetdents64 _ _ \<Rightarrow>
       if k = 0 then (22, demo_entry ''..'', 1) else if k = 1 then (23, demo_entry ''vda'', 2) else (0, [], 3)
   | _ \<Rightarrow> (0, [], k))"

theorem get_node_with_prefix_first_witness:
  "\<exists>k2. get_node_with_prefix demo_dir True ''/sysfs'' ''vd'' 8 0 = Some (Inr ''vda'', snd (sys_int demo_dir (SysClose 3) k2))"
proof -
  have "delivers demo_dir 3 0 [[(''..'', demo_entry ''..'')], [(''vda'', demo_entry ''vda'')]]"
    by (simp add: demo_dir_def chunk_def dirent_def demo_entry_def to_bytes_def cstring_def le_val_def code_def) (simp add: char_of_def bit_numeral_rec bit_0)
  from get_node_with_prefix_first [OF _ _ this, where k = 0 and path = "''/sysfs''" and prefix = "''vd''" and result_len = 8]
  show ?thesis by (simp add: demo_dir_def sys_int_def sys_long_def int_of_long_def prefix_result_def startswith_def)
qed

end
