(* ===== verification/Kparams.thy ===== *)
theory Kparams
  imports Kstring
begin

text \<open>
  Parsing of the kernel command line, \<open>kernel/params.c\<close>: splitting the line into parameters and
  values and handing each to the parameter it names.

  The code writes NUL characters into the line; here a parameter and its value are the texts that end
  there. \<open>None\<close> as the result of \<open>next_arg\<close> is a read outside of the line.
\<close>

section \<open>Names\<close>

definition dash2underscore :: "char \<Rightarrow> char" where
  "dash2underscore c = (if c = CHR ''-'' then CHR ''_'' else c)"

fun parameqn :: "string \<Rightarrow> string \<Rightarrow> nat \<Rightarrow> bool" where
  "parameqn a b 0 \<longleftrightarrow> True"
| "parameqn a b (Suc n) \<longleftrightarrow>
     dash2underscore (hd0 a) = dash2underscore (hd0 b) \<and> parameqn (drop 1 a) (drop 1 b) n"

definition parameq :: "string \<Rightarrow> string \<Rightarrow> bool" where
  "parameq a b = parameqn a b (length a + 1)"

section \<open>Splitting the line\<close>

text \<open>The loop of \<open>next_arg\<close>: where the argument ends and the position of its first equals sign, 0 if there is none.\<close>

fun arg_scan :: "string \<Rightarrow> nat \<Rightarrow> nat \<Rightarrow> bool \<Rightarrow> nat \<times> nat" where
  "arg_scan [] i eq in_quote = (i, eq)"
| "arg_scan (c # s) i eq in_quote =
     (if c = NUL \<or> isspace c \<and> \<not> in_quote then (i, eq)
      else arg_scan s (Suc i) (if eq = 0 \<and> c = CHR ''='' then i else eq) (if c = CHR 0x22 then \<not> in_quote else in_quote))"

definition next_arg :: "string \<Rightarrow> (string \<times> string option \<times> string) option" where
  "next_arg args =
     (let quoted = (hd0 args = CHR 0x22);
          args = (if quoted then drop 1 args else args);
          (i, eq) = arg_scan args 0 0 quoted;
          val_quoted = (eq \<noteq> 0 \<and> hd0 (drop (eq + 1) args) = CHR 0x22) in
      if quoted \<and> i = 0 then None
      else
        let end = (if (val_quoted \<or> quoted) \<and> args ! (i - 1) = CHR 0x22 then i - 1 else i);
            start = (if val_quoted then eq + 2 else eq + 1);
            param = (if eq = 0 then take end args else take eq args);
            val = (if eq = 0 then None else Some (take (end - start) (drop start args))) in
        Some (param, val, skip_spaces (drop (if hd0 (drop i args) \<noteq> NUL then i + 1 else i) args)))"

section \<open>Parameters\<close>

record 's kernel_param =
  kp_name :: string
  kp_level :: int
  kp_noarg :: bool
  kp_set :: "string option \<Rightarrow> 's \<Rightarrow> int \<times> 's"

type_synonym 's unknown_fn = "string \<Rightarrow> string option \<Rightarrow> 's \<Rightarrow> int \<times> 's"

fun parse_one ::
  "'s kernel_param list \<Rightarrow> int \<Rightarrow> int \<Rightarrow> 's unknown_fn option \<Rightarrow> string \<Rightarrow> string option \<Rightarrow> 's \<Rightarrow> int \<times> 's" where
  "parse_one [] min_level max_level handle_unknown param val s =
     (case handle_unknown of Some f \<Rightarrow> f param val s | None \<Rightarrow> (- ENOENT, s))"
| "parse_one (p # ps) min_level max_level handle_unknown param val s =
     (if parameq param (kp_name p) then
        (if kp_level p < min_level \<or> kp_level p > max_level then (0, s)
         else if val = None \<and> \<not> kp_noarg p then (- EINVAL, s)
         else kp_set p val s)
      else parse_one ps min_level max_level handle_unknown param val s)"

lemma arg_scan_ge: "i \<le> fst (arg_scan s i eq q)"
  by (induction s i eq q rule: arg_scan.induct) (auto intro: Suc_leD)

lemma skip_spaces_length: "length (skip_spaces s) \<le> length s"
  by (simp add: skip_spaces_def length_dropWhile_le)

lemma next_arg_shorter:
  assumes "next_arg args = Some (param, val, rest)" "hd0 args \<noteq> NUL"
  shows "length rest < length args"
proof -
  have l: "0 < length args" using assms(2) by (cases args) auto
  let ?q = "hd0 args = CHR 0x22"
  let ?a = "if ?q then drop 1 args else args"
  obtain i eq where i: "arg_scan ?a 0 0 ?q = (i, eq)" by fastforce
  have "rest = skip_spaces (drop (if hd0 (drop i ?a) \<noteq> NUL then i + 1 else i) ?a)"
    using assms(1) i by (auto simp: next_arg_def Let_def split: if_splits)
  then have r: "length rest \<le> length ?a - (if hd0 (drop i ?a) \<noteq> NUL then i + 1 else i)"
    using skip_spaces_length by (metis length_drop)
  show ?thesis
  proof (cases "?q \<or> i \<noteq> 0 \<or> hd0 (drop i ?a) \<noteq> NUL")
    case True
    moreover obtain k where "length args = Suc k" using l by (cases "length args") auto
    ultimately show ?thesis using r by (cases ?q) (auto split: if_splits)
  next
    case False
    then show ?thesis using assms(2) by auto
  qed
qed

text \<open>
  The result is the pointer \<open>parse_args\<close> returns: null, an error code, or the rest of the line after \<open>--\<close>;
  an earlier error takes precedence over the rest.
\<close>

datatype args_end = Args_Done | Args_Err int | Args_Rest string

function parse_args_loop ::
  "'s kernel_param list \<Rightarrow> int \<Rightarrow> int \<Rightarrow> 's unknown_fn option \<Rightarrow> string \<Rightarrow> args_end \<Rightarrow> 's \<Rightarrow> (args_end \<times> 's) option" where
  "parse_args_loop ps lo hi unknown args err s =
     (if hd0 args = NUL then Some (err, s)
      else case next_arg args of
        None \<Rightarrow> None
      | Some (param, val, rest) \<Rightarrow>
          if val = None \<and> param = ''--'' then Some (if err = Args_Done then Args_Rest rest else err, s)
          else let (ret, s) = parse_one ps lo hi unknown param val s in
            parse_args_loop ps lo hi unknown rest (if ret = 0 then err else Args_Err ret) s)"
  by pat_completeness auto
termination
  by (relation "measure (\<lambda>(ps, lo, hi, unknown, args, err, s). length args)") (auto intro: next_arg_shorter)

declare parse_args_loop.simps [simp del]

definition parse_args ::
  "string \<Rightarrow> 's kernel_param list \<Rightarrow> int \<Rightarrow> int \<Rightarrow> 's unknown_fn option \<Rightarrow> 's \<Rightarrow> (args_end \<times> 's) option" where
  "parse_args args ps lo hi unknown s = parse_args_loop ps lo hi unknown (skip_spaces args) Args_Done s"

section \<open>Plain arguments\<close>

text \<open>Characters that neither end an argument nor quote.\<close>

definition plain :: "char \<Rightarrow> bool" where
  "plain c \<longleftrightarrow> c \<noteq> NUL \<and> \<not> isspace c \<and> c \<noteq> CHR 0x22"

lemma arg_scan_name:
  "\<forall>c \<in> set name. plain c \<and> c \<noteq> CHR ''='' \<Longrightarrow> arg_scan (name @ s) i 0 False = arg_scan s (i + length name) 0 False"
  by (induction name arbitrary: i) (auto simp: plain_def)

lemma arg_scan_value:
  "\<forall>c \<in> set v. plain c \<Longrightarrow> eq \<noteq> 0 \<Longrightarrow> arg_scan (v @ s) i eq False = arg_scan s (i + length v) eq False"
  by (induction v arbitrary: i) (auto simp: plain_def)

definition arg_ends :: "string \<Rightarrow> bool" where
  "arg_ends s \<longleftrightarrow> s = [] \<or> isspace (hd s)"

lemma arg_scan_end: "arg_ends s \<Longrightarrow> arg_scan s i eq False = (i, eq)"
  by (cases s) (auto simp: arg_ends_def)

lemma plain_equals: "plain CHR ''=''"
  by (simp add: plain_def isspace_def code_def)

lemma next_arg_plain:
  assumes "\<forall>c \<in> set name. plain c \<and> c \<noteq> CHR ''=''" "name \<noteq> []" "\<forall>c \<in> set v. plain c" "arg_ends s"
  shows "next_arg (name @ CHR ''='' # v @ s) = Some (name, Some v, skip_spaces s)"
proof -
  let ?a = "name @ CHR ''='' # v @ s" and ?n = "length name"
  have q: "hd0 ?a \<noteq> CHR 0x22" using assms(1,2) by (cases name) (auto simp: plain_def)
  have "arg_scan ?a 0 0 False = arg_scan (v @ s) (Suc ?n) ?n False"
    using assms(2) plain_equals by (subst arg_scan_name [OF assms(1)]) (auto simp: plain_def)
  also have "\<dots> = (Suc ?n + length v, ?n)" using assms arg_scan_value arg_scan_end by simp
  finally have i: "arg_scan ?a 0 0 False = (Suc ?n + length v, ?n)" .
  have vq: "hd0 (v @ s) \<noteq> CHR 0x22" using assms(3,4) by (cases v; cases s) (auto simp: plain_def arg_ends_def isspace_def code_def)
  have "skip_spaces (drop (if hd0 s \<noteq> NUL then 1 else 0) s) = skip_spaces s"
    using assms(4) by (cases s) (auto simp: arg_ends_def skip_spaces_def)
  moreover have "drop (Suc ?n + length v + k) ?a = drop k s" for k by simp
  ultimately show ?thesis using q i vq assms(2) by (simp add: next_arg_def Let_def split: if_splits)
qed

section \<open>Scanning numbers\<close>

lemma scan_literal:
  "\<not> isspace c \<Longrightarrow> c \<noteq> CHR ''%'' \<Longrightarrow> c \<noteq> NUL \<Longrightarrow>
   vsscanf_loop buf (c # f) (c # s) n outs = vsscanf_loop buf f s n outs"
  by (subst vsscanf_loop.simps) simp

lemma scan_mismatch:
  "\<not> isspace c \<Longrightarrow> c \<noteq> CHR ''%'' \<Longrightarrow> c \<noteq> NUL \<Longrightarrow> hd0 s \<noteq> c \<Longrightarrow> vsscanf_loop buf (c # f) s n outs = (n, outs)"
  by (subst vsscanf_loop.simps) auto

lemma scan_percent:
  "scan_conv buf f s = Some (f', s', vs, k) \<Longrightarrow>
   vsscanf_loop buf (CHR ''%'' # f) s n outs = vsscanf_loop buf f' s' (n + k) (outs @ vs)"
  by (subst vsscanf_loop.simps) (simp add: isspace_def code_def)

lemma skip_spaces_digit: "isdigit c \<Longrightarrow> skip_spaces (c # s) = c # s"
  by (auto simp: skip_spaces_def isdigit_def isspace_def)

lemma isdigit_digit_char: "d < 10 \<Longrightarrow> isdigit (digit_char d)"
  by (simp add: isdigit_def code_digit_char)

lemma not_minus_digit: "isdigit c \<Longrightarrow> c \<noteq> CHR ''-'' \<and> c \<noteq> NUL"
  by (auto simp: isdigit_def code_def)

lemma scan_integer_hex:
  assumes "n < 2 ^ 64" "stops 16 s"
  shows "scan_integer 0 True QL (- 1) (''0x'' @ hex_str n @ s) = Some (OutInt (sint (word_of_nat n :: u64)), s)"
proof -
  have "isdigit CHR ''0''" by (simp add: isdigit_def code_def)
  then have "skip_spaces (''0x'' @ hex_str n @ s) = ''0x'' @ hex_str n @ s" using skip_spaces_digit by simp
  then show ?thesis using strtoull_hex [OF assms] \<open>isdigit CHR ''0''\<close>
    by (simp add: scan_integer_def simple_strtoll_def scan_store_def Let_def)
qed

lemma scan_integer_dec:
  assumes "n < 2 ^ 32" "stops 10 s"
  shows "scan_integer 10 False QNone (- 1) (dec_str n @ s) = Some (OutInt (int n), s)"
proof -
  obtain d r where d: "dec_str n = digit_char d # r" "d < 10" using num_str_head [of 10 n] by auto
  then have "isdigit (digit_char d)" using isdigit_digit_char by simp
  then have "skip_spaces (dec_str n @ s) = dec_str n @ s" "isdigit (hd0 (dec_str n @ s))" using d skip_spaces_digit by simp_all
  moreover have "simple_strtoul (dec_str n @ s) 10 = (word_of_nat n, s)"
    using strtoull_dec [of n s] assms by (simp add: simple_strtoul_def)
  moreover have "uint (ucast (word_of_nat n :: u64) :: u32) = int n"
    using assms(1) by (simp add: unsigned_ucast_eq take_bit_int_eq_self take_bit_nat_eq_self unsigned_of_nat)
  ultimately show ?thesis using not_minus_digit [of "hd0 (dec_str n @ s)"]
    by (simp add: scan_integer_def scan_store_def Let_def)
qed

lemma strtoull_dec_0:
  assumes "0 < n" "n < 2 ^ 64" "stops 10 s"
  shows "simple_strtoull (dec_str n @ s) 0 = (word_of_nat n, s)"
proof -
  obtain d r where d: "dec_str n = digit_char d # r" "d < 10" "d \<noteq> 0" using num_str_head [of 10 n] assms(1) by auto
  have "code (digit_char d) \<noteq> code CHR ''0''" using d code_digit_char [of d] by (simp add: code_def)
  then have "digit_char d \<noteq> CHR ''0''" by auto
  then have "parse_integer_fixup_radix (dec_str n @ s) 0 = (dec_str n @ s, 10)"
    using d(1) by (simp add: parse_integer_fixup_radix_def)
  then show ?thesis using parse_integer_num_str [of 10 10 n s] assms by (simp add: simple_strtoull_def)
qed

lemma stops_punct: "stops b (CHR ''@'' # s)" "stops b (CHR '':'' # s)" "stops b []"
  by (simp_all add: stops_def digit_val_def isdigit_def tolower_def code_def)

lemma memparse_dec:
  "0 < n \<Longrightarrow> n < 2 ^ 64 \<Longrightarrow> memparse (dec_str n @ CHR ''@'' # s) = (word_of_nat n, CHR ''@'' # s)"
  by (simp add: memparse_def strtoull_dec_0 stops_punct)

text \<open>What the format of \<open>vm_cmdline_set\<close> reads from an address and an interrupt number.\<close>

lemma scan_device:
  assumes "b < 2 ^ 64" "i < 2 ^ 32"
  defines "str \<equiv> CHR ''@'' # ''0x'' @ hex_str b @ CHR '':'' # dec_str i"
  shows "sscanf str ''@%lli:%u%n:%d%n'' =
    (2, [OutInt (sint (word_of_nat b :: u64)), OutInt (int i), OutInt (int (length str))])"
proof -
  have at: "\<not> isspace CHR ''@''" "\<not> isspace CHR '':''" by (simp_all add: isspace_def code_def)
  obtain d r where d: "dec_str i = digit_char d # r" "d < 10" using num_str_head [of 10 i] by auto
  have n0: "hd0 (dec_str i @ []) \<noteq> NUL" using d not_minus_digit isdigit_digit_char by simp
  have 1: "scan_conv str ''lli:%u%n:%d%n'' (''0x'' @ hex_str b @ CHR '':'' # dec_str i) =
      Some ('':%u%n:%d%n'', CHR '':'' # dec_str i, [OutInt (sint (word_of_nat b :: u64))], 1)"
    using scan_integer_hex [OF assms(1) stops_punct(2), of "dec_str i"]
    by (simp add: scan_conv_def scan_width_def scan_qualifier_def scan_switch_def isdigit_def code_def Let_def)
  have 2: "scan_conv str ''u%n:%d%n'' (dec_str i @ []) = Some (''%n:%d%n'', [], [OutInt (int i)], 1)"
    using scan_integer_dec [OF assms(2) stops_punct(3)] n0
    by (simp add: scan_conv_def scan_width_def scan_qualifier_def scan_switch_def isdigit_def code_def Let_def)
  have 3: "scan_conv str ''n:%d%n'' [] = Some ('':%d%n'', [], [OutInt (int (length str))], 0)"
    by (simp add: scan_conv_def scan_width_def scan_qualifier_def isdigit_def code_def Let_def)
  show ?thesis
    using scan_percent [OF 1, of 0 "[]"] scan_percent [OF 2, of 1 "[OutInt (sint (word_of_nat b :: u64))]"]
      scan_percent [OF 3, of 2 "[OutInt (sint (word_of_nat b :: u64)), OutInt (int i)]"] at
    by (simp add: sscanf_def vsscanf_def scan_literal scan_mismatch str_def)
qed

end
