(* ===== verification/Virtio_Setup.thy ===== *)
theory Virtio_Setup
  imports Virtio_Mmio Virtio_Blk Irq Lkl_Fs Kparams
begin

text \<open>
  Adding and removing devices of the host library: \<open>virtio_dev_setup\<close> and \<open>virtio_dev_cleanup\<close> of
  \<open>tools/lkl/lib/virtio.c\<close>, \<open>lkl_disk_add\<close> and \<open>lkl_disk_remove\<close> of
  \<open>tools/lkl/lib/virtio_blk.c\<close>, and the system call \<open>virtio_mmio_device_add\<close> of \<open>arch/lkl/kernel/syscalls.c\<close>.
  Devices added before the kernel runs are handed to it on its command line, which the kernel parses with
  \<open>parse_args\<close> and \<open>vm_cmdline_set\<close>.

  The results of \<open>mem_alloc\<close> and of the system call are arguments; 0 is the null pointer.
\<close>

section \<open>The host library\<close>

text \<open>
  The state the functions share: the interrupt numbers, the I/O memory table, the text written to
  \<open>lkl_virtio_devs\<close> up to the pointer \<open>devs\<close> and after it, the number of devices in that text, whether
  the kernel runs, and the blocks of memory not freed yet.
\<close>

record 'd vhost =
  vh_irqs :: irq_state
  vh_regions :: "'d bus"
  vh_devs :: string
  vh_tail :: string
  vh_boot_devs :: u32
  vh_running :: bool
  vh_live :: "addr set"

definition vhost_init :: "'d vhost" where
  "vhost_init = \<lparr>vh_irqs = irq_init, vh_regions = iomem_regions_init, vh_devs = [], vh_tail = [], vh_boot_devs = 0,
     vh_running = False, vh_live = {}\<rparr>"

definition dev_param :: "int \<Rightarrow> addr \<Rightarrow> int \<Rightarrow> string" where
  "dev_param sz b i = int_str sz @ ''@0x'' @ hex_str (unat b) @ '':'' @ int_str i"

definition dev_text :: "int \<Rightarrow> addr \<Rightarrow> int \<Rightarrow> string" where
  "dev_text sz b i = '' virtio_mmio.device='' @ dev_param sz b i"

definition zero_queue :: virtio_queue where
  "zero_queue = \<lparr>num_max = 0, num = 0, ready = 0, max_merge_len = 0, q_desc = 0, q_avail = 0, q_used = 0,
     last_avail_idx = 0, last_used_idx_signaled = 0\<rparr>"

definition virtio_set_queue_max_merge_len :: "virtio_dev \<Rightarrow> nat \<Rightarrow> int \<Rightarrow> virtio_dev option" where
  "virtio_set_queue_max_merge_len dev q len = do {
     vq \<leftarrow> aget (queue dev) q;
     Some (dev\<lparr>queue := (queue dev)[q := vq\<lparr>max_merge_len := word_of_int len\<rparr>]\<rparr>)
   }"

text \<open>\<open>a\<close> is the address of the device, \<open>qmem\<close> the memory for its queues, \<open>add_ret\<close> the result of the system call.\<close>

definition virtio_dev_setup ::
  "addr \<Rightarrow> int \<Rightarrow> addr \<Rightarrow> virtio_dev \<Rightarrow> nat \<Rightarrow> u32 \<Rightarrow> 'd vhost \<Rightarrow> (int \<times> virtio_dev \<times> 'd vhost) option" where
  "virtio_dev_setup qmem add_ret a dev queues nmax h =
     (let (i, irqs) = lkl_get_free_irq ''virtio'' (vh_irqs h);
          dev = dev\<lparr>irq := i\<rparr>; h = h\<lparr>vh_irqs := irqs\<rparr> in
      if i < 0 then Some (i, dev, h)
      else
        let dev = dev\<lparr>device_features := device_features dev OR push_bit VIRTIO_F_VERSION_1 1 OR push_bit VIRTIO_RING_F_EVENT_IDX 1\<rparr> in
        if qmem = 0 then Some (- ENOMEM, dev\<lparr>queue := []\<rparr>, h)
        else
          let h = h\<lparr>vh_live := insert qmem (vh_live h)\<rparr>;
              dev = dev\<lparr>queue := replicate queues (zero_queue\<lparr>num_max := nmax\<rparr>)\<rparr>;
              mmio_size = VIRTIO_MMIO_CONFIG + config_len dev;
              (b, rs) = register_iomem (vh_regions h) a mmio_size virtio_ops;
              dev = dev\<lparr>base := b\<rparr>; h = h\<lparr>vh_regions := rs\<rparr> in
          if b = 0 then Some (- ENOMEM, dev, h\<lparr>vh_live := vh_live h - {qmem}\<rparr>)
          else if \<not> vh_running h then
            let avail = 4096 - length (vh_devs h); text = dev_text mmio_size b i in
            if length text \<ge> avail then do {
              irqs \<leftarrow> lkl_put_irq i ''virtio'' (vh_irqs h);
              Some (- ENOMEM, dev, h\<lparr>vh_irqs := irqs, vh_regions := unregister_iomem rs b, vh_live := vh_live h - {qmem},
                vh_tail := take (avail - 1) text\<rparr>)
            }
            else Some (0, dev\<lparr>virtio_mmio_id := vh_boot_devs h\<rparr>,
              h\<lparr>vh_devs := vh_devs h @ text, vh_tail := [], vh_boot_devs := vh_boot_devs h + 1\<rparr>)
          else if add_ret < 0 then Some (- 1, dev, h)
          else Some (0, dev\<lparr>virtio_mmio_id := vh_boot_devs h + word_of_int add_ret\<rparr>, h))"

section \<open>Removing a device\<close>

definition unbind_name :: "u32 \<Rightarrow> u32 \<Rightarrow> string" where
  "unbind_name n boot =
     (if n \<ge> boot then ''virtio-mmio.'' @ int_str (sint (n - boot)) @ ''.auto''
      else ''virtio-mmio.'' @ int_str (sint n))"

text \<open>The part that asks the kernel to let go of the device: 0 or the error the function returns.\<close>

definition dev_unbind :: "'k kernel \<Rightarrow> u32 \<Rightarrow> u32 \<Rightarrow> 'k \<Rightarrow> int \<times> 'k" where
  "dev_unbind sys n boot k =
     (let (mount_ret, k) = lkl_mount_fs sys ''sysfs'' k in
      if mount_ret < 0 then (mount_ret, k)
      else let devname = unbind_name n boot in
        if length devname \<ge> 100 then (- ENOMEM, k)
        else
          let (fd, k) = sys_long sys (SysOpen ''/sysfs/bus/platform/drivers/virtio-mmio/unbind'' LKL_O_WRONLY 0) k in
          if fd < 0 then (fd, k)
          else
            let (ret, k) = sys_long sys (SysWrite fd devname) k in
            if ret < 0 then (ret, k)
            else
              let (ret, k) = sys_long sys (SysClose fd) k in
              if ret < 0 then (ret, k)
              else if mount_ret = 0 then
                (let (ret, k) = sys_long sys (SysUmount ''/sysfs'' 0) k in (if ret < 0 then ret else 0, k))
              else (0, k))"

definition virtio_dev_cleanup :: "'k kernel \<Rightarrow> addr \<Rightarrow> virtio_dev \<Rightarrow> 'd vhost \<Rightarrow> 'k \<Rightarrow> (int \<times> 'd vhost \<times> 'k) option" where
  "virtio_dev_cleanup sys qmem dev h k =
     (let (ret, k) = (if vh_running h then dev_unbind sys (virtio_mmio_id dev) (vh_boot_devs h) k else (0, k)) in
      if ret < 0 then Some (int_of_long ret, h, k)
      else do {
        irqs \<leftarrow> lkl_put_irq (irq dev) ''virtio'' (vh_irqs h);
        Some (0, h\<lparr>vh_irqs := irqs, vh_regions := unregister_iomem (vh_regions h) (base dev), vh_live := vh_live h - {qmem}\<rparr>, k)
      })"

section \<open>Disks\<close>

text \<open>
  \<open>lkl_disk_add\<close> allocates the device at \<open>dmem\<close>; what the fields it does not set hold there is \<open>junk\<close>. The
  configuration is \<open>struct virtio_blk_config\<close>, 36 bytes that start with the capacity.
\<close>

definition lkl_disk_add ::
  "addr \<Rightarrow> addr \<Rightarrow> int \<Rightarrow> virtio_dev \<Rightarrow> 'd lkl_dev_blk_ops \<Rightarrow> 'd \<Rightarrow> 'd vhost \<Rightarrow> (int \<times> virtio_dev \<times> 'd vhost) option" where
  "lkl_disk_add dmem qmem add_ret junk ops disk h =
     (if dmem = 0 then Some (- ENOMEM, junk, h)
      else
        let h = h\<lparr>vh_live := insert dmem (vh_live h)\<rparr>;
            dev = junk\<lparr>device_id := 2, vendor_id := 0, device_features := 0, config_gen := 0, config_len := 36\<rparr>;
            (ret, capacity) = get_capacity ops disk in
        if ret \<noteq> 0 then Some (- ENOMEM, dev, h\<lparr>vh_live := vh_live h - {dmem}\<rparr>)
        else
          let dev = dev\<lparr>config_data := le_bytes 8 (unat (capacity div 512)) @ drop 8 (config_data dev)\<rparr> in do {
            (ret, dev, h) \<leftarrow> virtio_dev_setup qmem add_ret dmem dev 1 32 h;
            if ret \<noteq> 0 then Some (ret, dev, h\<lparr>vh_live := vh_live h - {dmem}\<rparr>)
            else Some (sint (virtio_mmio_id dev), dev, h)
          })"

definition lkl_disk_remove ::
  "'k kernel \<Rightarrow> addr \<Rightarrow> addr \<Rightarrow> virtio_dev \<Rightarrow> 'd vhost \<Rightarrow> 'k \<Rightarrow> (int \<times> 'd vhost \<times> 'k) option" where
  "lkl_disk_remove sys dmem qmem dev h k =
     (if dmem = 0 then Some (- EINVAL, h, k)
      else do {
        (ret, h, k) \<leftarrow> virtio_dev_cleanup sys qmem dev h k;
        if ret < 0 then Some (ret, h, k)
        else Some (0, h\<lparr>vh_live := vh_live h - {dmem}\<rparr>, k)
      })"

text \<open>
  The system call: \<open>alloc\<close>, \<open>res_ret\<close> and \<open>add_ret\<close> are the results of the platform bus, \<open>n\<close> the
  number it gives the device. The error message of a failed allocation dereferences the null pointer.
\<close>

definition virtio_mmio_device_add ::
  "bool \<Rightarrow> int \<Rightarrow> int \<Rightarrow> int \<Rightarrow> u64 \<Rightarrow> u64 \<Rightarrow> u32 \<Rightarrow> (int \<times> cmdline_device option) option" where
  "virtio_mmio_device_add alloc res_ret add_ret n b sz i =
     (if \<not> alloc then None
      else if res_ret \<noteq> 0 then Some (res_ret, None)
      else if add_ret < 0 then Some (add_ret, None)
      else Some (n, Some \<lparr>cd_start = b, cd_end = b + sz - 1, cd_irq = ucast i, cd_id = n\<rparr>))"

section \<open>The boot command line\<close>

text \<open>
  \<open>text\<close> is what \<open>vsnprintf\<close> makes of the caller's format. Its result is the length of the whole text, so a text
  longer than the buffer lets \<open>strncpy\<close> write outside of it.
\<close>

definition COMMAND_LINE_SIZE :: nat where [simp]: "COMMAND_LINE_SIZE = 4096"

definition boot_command_line :: "string \<Rightarrow> string \<Rightarrow> string option" where
  "boot_command_line text virtio_devices =
     (let ret = length text in
      if ret > COMMAND_LINE_SIZE then None
      else Some (take (if ret = COMMAND_LINE_SIZE then ret - 1 else ret) text @ take (COMMAND_LINE_SIZE - ret) virtio_devices))"

text \<open>The module parameter \<open>virtio_mmio.device\<close>, of the level of the device initcalls.\<close>

definition device_param :: "cmdline_state kernel_param" where
  "device_param = \<lparr>kp_name = ''virtio_mmio.device'', kp_level = 6, kp_noarg = False,
     kp_set = (\<lambda>val s. case val of Some v \<Rightarrow> vm_cmdline_set 0 0 v s | None \<Rightarrow> (- EINVAL, s))\<rparr>"

definition cmdline_init :: cmdline_state where
  "cmdline_init = \<lparr>cl_parent_registered = False, cl_id = 0, cl_devices = []\<rparr>"

section \<open>Setting up devices\<close>

lemma virtio_dev_setup_boot:
  assumes "virtio_dev_setup qmem add_ret a dev queues nmax h = Some (0, dev', h')" "\<not> vh_running h"
  obtains i irqs b rs where
    "lkl_get_free_irq ''virtio'' (vh_irqs h) = (i, irqs)" "0 \<le> i" "qmem \<noteq> 0"
    "register_iomem (vh_regions h) a (VIRTIO_MMIO_CONFIG + config_len dev) virtio_ops = (b, rs)" "b \<noteq> 0"
    "length (vh_devs h) + length (dev_text (VIRTIO_MMIO_CONFIG + config_len dev) b i) < 4096"
    "irq dev' = i" "base dev' = b" "config_len dev' = config_len dev" "virtio_mmio_id dev' = vh_boot_devs h"
    "h' = h\<lparr>vh_irqs := irqs, vh_live := insert qmem (vh_live h), vh_regions := rs,
       vh_devs := vh_devs h @ dev_text (VIRTIO_MMIO_CONFIG + config_len dev) b i, vh_tail := [], vh_boot_devs := vh_boot_devs h + 1\<rparr>"
  using assms
  by (auto simp: virtio_dev_setup_def Let_def split: prod.splits if_splits bind_splits)

section \<open>What the kernel reads\<close>

lemma plain_digit: "isdigit c \<Longrightarrow> plain c"
  by (auto simp: plain_def isdigit_def isspace_def code_def)

lemma plain_digit_char: "d < 16 \<Longrightarrow> plain (digit_char d)"
  using code_digit_char [of d] by (auto simp: plain_def isspace_def code_def split: if_splits)

lemma plain_num_str:
  assumes "2 \<le> b" "b \<le> 16"
  shows "\<forall>c \<in> set (num_str b n). plain c"
proof (induction n rule: num_str_induct [OF assms(1)])
  case (1 n)
  then show ?case using assms plain_digit_char [of n] by (simp add: num_str.simps [of b n])
next
  case (2 n)
  have "n mod b < 16" using assms mod_less_divisor [of b n] by linarith
  then show ?case using 2 assms plain_digit_char [of "n mod b"] by (auto simp: num_str.simps [of b n])
qed

lemma plain_dev_param: "0 \<le> sz \<Longrightarrow> 0 \<le> i \<Longrightarrow> \<forall>c \<in> set (dev_param sz b i). plain c"
  using plain_num_str [of 10] plain_num_str [of 16]
  by (auto simp: dev_param_def int_str_def) (auto simp: plain_def isspace_def code_def)

lemma vm_cmdline_set_dev_param:
  assumes "0 < sz" "sz < 2 ^ 24" "0 \<le> i" "i < 2 ^ 12" "0 \<le> cl_id s" "cl_id s < 2 ^ 12"
  shows "vm_cmdline_set 0 0 (dev_param sz b i) s =
    (0, s\<lparr>cl_parent_registered := True, cl_id := cl_id s + 1,
       cl_devices := cl_devices s @ [\<lparr>cd_start = b, cd_end = b + word_of_int sz - 1, cd_irq = word_of_int i, cd_id = cl_id s\<rparr>]\<rparr>)"
proof -
  let ?str = "CHR ''@'' # ''0x'' @ hex_str (unat b) @ CHR '':'' # dec_str (nat i)"
  have m: "memparse (dev_param sz b i) = (word_of_int sz, ?str)"
    using memparse_dec [of "nat sz"] assms(1-3) by (simp add: dev_param_def int_str_def)
  have b: "unat b < 2 ^ 64" using unsigned_less [of b] by simp
  have "sscanf ?str ''@%lli:%u%n:%d%n'' = (2, [OutInt (sint b), OutInt i, OutInt (int (length ?str))])"
    using scan_device [of "unat b" "nat i"] assms(3,4) b by simp
  moreover have "sint (word_of_int (cl_id s + 1) :: u32) = cl_id s + 1"
    using assms(5,6) by (intro sint_word_of_int_small) simp_all
  ultimately show ?thesis using m by (simp add: vm_cmdline_set_def scan_id_def scan_consumed_def)
qed

text \<open>The device the kernel should make of one the host has set up.\<close>

definition boot_device :: "virtio_dev \<Rightarrow> cmdline_device" where
  "boot_device d = \<lparr>cd_start = base d, cd_end = base d + word_of_int (VIRTIO_MMIO_CONFIG + config_len d) - 1,
     cd_irq = word_of_int (irq d), cd_id = uint (virtio_mmio_id d)\<rparr>"

abbreviation text_of :: "virtio_dev \<Rightarrow> string" where
  "text_of d \<equiv> dev_text (VIRTIO_MMIO_CONFIG + config_len d) (base d) (irq d)"

definition dev_bounds :: "virtio_dev \<Rightarrow> bool" where
  "dev_bounds d \<longleftrightarrow> 0 \<le> config_len d \<and> VIRTIO_MMIO_CONFIG + config_len d < 2 ^ 24 \<and> 0 \<le> irq d \<and> irq d < 2 ^ 12"

lemma parse_one_find:
  "find (\<lambda>p. parameq param (kp_name p)) ps = Some p \<Longrightarrow>
   parse_one ps lo hi unknown param val s = parse_one [p] lo hi unknown param val s"
  by (induction ps) (auto split: if_splits)

lemma device_name_plain: "\<forall>c \<in> set ''virtio_mmio.device''. plain c \<and> c \<noteq> CHR ''=''"
  by (simp add: plain_def isspace_def code_def)

lemma arg_ends_texts: "arg_ends (concat (map text_of ds))"
  by (cases ds) (auto simp: arg_ends_def dev_text_def isspace_def code_def)

lemma skip_spaces_text: "skip_spaces (dev_text sz b i @ s) = ''virtio_mmio.device'' @ CHR ''='' # dev_param sz b i @ s"
  by (simp add: dev_text_def skip_spaces_def isspace_def code_def)

lemma parse_device:
  fixes s :: cmdline_state
  assumes "find (\<lambda>p. parameq ''virtio_mmio.device'' (kp_name p)) ps = Some device_param"
    and "dev_bounds d" "0 \<le> cl_id s" "cl_id s < 2 ^ 12" "cl_id s = uint (virtio_mmio_id d)"
  shows "parse_one ps 6 6 unknown ''virtio_mmio.device'' (Some (dev_param (VIRTIO_MMIO_CONFIG + config_len d) (base d) (irq d))) s =
    (0, s\<lparr>cl_parent_registered := True, cl_id := cl_id s + 1, cl_devices := cl_devices s @ [boot_device d]\<rparr>)"
proof -
  have "parameq ''virtio_mmio.device'' (kp_name device_param)" using assms(1) by (auto simp: find_Some_iff)
  then show ?thesis
    using vm_cmdline_set_dev_param [of "VIRTIO_MMIO_CONFIG + config_len d" "irq d" s "base d"] assms(2-5)
    by (simp add: parse_one_find [OF assms(1)] device_param_def dev_bounds_def boot_device_def)
qed

lemma parse_texts:
  fixes s :: cmdline_state
  assumes "find (\<lambda>p. parameq ''virtio_mmio.device'' (kp_name p)) ps = Some device_param"
  shows "\<forall>d \<in> set ds. dev_bounds d \<Longrightarrow> 0 \<le> cl_id s \<Longrightarrow> cl_id s + int (length ds) < 2 ^ 12 \<Longrightarrow>
    \<forall>k < length ds. uint (virtio_mmio_id (ds ! k)) = cl_id s + int k \<Longrightarrow>
    \<exists>s'. parse_args_loop ps 6 6 unknown (skip_spaces (concat (map text_of ds))) Args_Done s = Some (Args_Done, s') \<and>
      cl_devices s' = cl_devices s @ map boot_device ds"
proof (induction ds arbitrary: s)
  case Nil
  then show ?case by (simp add: skip_spaces_def parse_args_loop.simps)
next
  case (Cons d ds)
  let ?v = "dev_param (VIRTIO_MMIO_CONFIG + config_len d) (base d) (irq d)" and ?r = "concat (map text_of ds)"
  let ?s = "s\<lparr>cl_parent_registered := True, cl_id := cl_id s + 1, cl_devices := cl_devices s @ [boot_device d]\<rparr>"
  let ?line = "''virtio_mmio.device'' @ CHR ''='' # ?v @ ?r"
  have v: "\<forall>c \<in> set ?v. plain c" using plain_dev_param [of "VIRTIO_MMIO_CONFIG + config_len d" "irq d"] Cons.prems(1) by (simp add: dev_bounds_def)
  have n: "next_arg ?line = Some (''virtio_mmio.device'', Some ?v, skip_spaces ?r)"
    using next_arg_plain [OF device_name_plain list.distinct(2) v arg_ends_texts] .
  have "uint (virtio_mmio_id d) = cl_id s" using Cons.prems(4) [rule_format, of 0] by simp
  then have p: "parse_one ps 6 6 unknown ''virtio_mmio.device'' (Some ?v) s = (0, ?s)"
    by (intro parse_device [OF assms]) (use Cons.prems(1-3) in simp_all)
  have "uint (virtio_mmio_id (ds ! k)) = cl_id ?s + int k" if "k < length ds" for k
    using Cons.prems(4) [rule_format, of "Suc k"] that by simp
  then obtain s' where s':
    "parse_args_loop ps 6 6 unknown (skip_spaces ?r) Args_Done ?s = Some (Args_Done, s')" "cl_devices s' = cl_devices ?s @ map boot_device ds"
    using Cons.IH [of ?s] Cons.prems(1-3) by auto
  have "hd0 ?line \<noteq> NUL" by simp
  then have "parse_args_loop ps 6 6 unknown ?line Args_Done s = Some (Args_Done, s')"
    using s'(1) by (simp only: parse_args_loop.simps [of _ _ _ _ ?line] n) (simp add: p)
  then show ?case using s'(2) skip_spaces_text by auto
qed

section \<open>Devices of the boot line\<close>

text \<open>
  The states of the host before the kernel runs, with the devices it has set up: any number of calls of
  \<open>virtio_dev_setup\<close>, for any devices, failing or not.
\<close>

inductive booted :: "'d vhost \<Rightarrow> virtio_dev list \<Rightarrow> bool" where
  booted_start: "booted vhost_init []"
| booted_setup: "booted h ds \<Longrightarrow> 0 \<le> config_len dev \<Longrightarrow>
     virtio_dev_setup qmem add_ret a dev queues nmax h = Some (0, dev', h') \<Longrightarrow> booted h' (ds @ [dev'])"
| booted_failed: "booted h ds \<Longrightarrow> virtio_dev_setup qmem add_ret a dev queues nmax h = Some (ret, dev', h') \<Longrightarrow>
     ret \<noteq> 0 \<Longrightarrow> booted h' ds"

definition boot_inv :: "'d vhost \<Rightarrow> virtio_dev list \<Rightarrow> bool" where
  "boot_inv h ds \<longleftrightarrow> \<not> vh_running h \<and> vh_devs h = concat (map text_of ds) \<and> length (concat (map text_of ds)) < 4096 \<and>
     vh_boot_devs h = word_of_nat (length ds) \<and> (\<forall>d \<in> set ds. dev_bounds d) \<and>
     (\<forall>k < length ds. uint (virtio_mmio_id (ds ! k)) = int k)"

lemma text_length: "20 \<le> length (dev_text sz b i)"
  by (simp add: dev_text_def)

lemma texts_length: "20 * length ds \<le> length (concat (map text_of ds))"
proof (induction ds)
  case (Cons d ds)
  then show ?case using text_length [of "VIRTIO_MMIO_CONFIG + config_len d" "base d" "irq d"] by simp
qed simp

lemma boot_inv_failed:
  assumes "boot_inv h ds" "virtio_dev_setup qmem add_ret a dev queues nmax h = Some (ret, dev', h')" "ret \<noteq> 0"
  shows "boot_inv h' ds"
proof -
  have "\<not> vh_running h" using assms(1) by (simp add: boot_inv_def)
  with assms(2,3) have "vh_running h' = vh_running h \<and> vh_devs h' = vh_devs h \<and> vh_boot_devs h' = vh_boot_devs h"
    by (auto simp: virtio_dev_setup_def Let_def split: prod.splits if_splits bind_splits)
  with assms(1) show ?thesis by (simp add: boot_inv_def)
qed

lemma register_iomem_size: "register_iomem rs a sz ops = (b, rs') \<Longrightarrow> b \<noteq> 0 \<Longrightarrow> sz < 2 ^ 24"
  by (auto simp: register_iomem_def split: if_splits)

lemma boot_inv_setup:
  assumes "boot_inv h ds" "0 \<le> config_len dev"
    and "virtio_dev_setup qmem add_ret a dev queues nmax h = Some (0, dev', h')"
  shows "boot_inv h' (ds @ [dev'])"
proof -
  have r: "\<not> vh_running h" using assms(1) by (simp add: boot_inv_def)
  show ?thesis
  proof (rule virtio_dev_setup_boot [OF assms(3) r], goal_cases)
    case (1 i irqs b rs)
    have "i < 2 ^ 12" using 1(1) by (rule lkl_get_free_irq_cases) simp_all
    then have d: "dev_bounds dev'" using 1 assms(2) register_iomem_size [OF 1(4,5)] by (simp add: dev_bounds_def)
    have l: "length ds < 4096" using assms(1) texts_length [of ds] by (simp add: boot_inv_def)
    then have "uint (word_of_nat (length ds) :: u32) = int (length ds)"
      by (simp add: unsigned_of_nat take_bit_nat_eq_self)
    then have "uint (virtio_mmio_id dev') = int (length ds)" using 1(10) assms(1) by (simp add: boot_inv_def)
    then show ?thesis using 1 d assms(1) by (auto simp: boot_inv_def nth_append less_Suc_eq)
  qed
qed

lemma booted_inv: "booted h ds \<Longrightarrow> boot_inv h ds"
  by (induction rule: booted.induct) (auto simp: boot_inv_def [of _ "[]"] vhost_init_def intro: boot_inv_failed boot_inv_setup)

text \<open>
  C8: The devices the host sets up before it starts the kernel are the devices the kernel finds. Whatever the calls of
  \<open>virtio_dev_setup\<close> were, the command line that \<open>lkl_start_kernel\<close> builds for an empty format makes
  \<open>parse_args\<close>, with \<open>next_arg\<close>, \<open>memparse\<close> and \<open>sscanf\<close>, register exactly the devices that were set up,
  in order, each at the address and interrupt the host serves it on and under the id the host remembers.
\<close>

theorem boot_devices_agree:
  assumes "booted h ds" "vh_tail h = []"
    and "find (\<lambda>p. parameq ''virtio_mmio.device'' (kp_name p)) ps = Some device_param"
  shows "\<exists>line s. boot_command_line [] (vh_devs h @ vh_tail h) = Some line \<and>
    parse_args line ps 6 6 unknown cmdline_init = Some (Args_Done, s) \<and> cl_devices s = map boot_device ds"
proof -
  have inv: "boot_inv h ds" using booted_inv [OF assms(1)] .
  then have "boot_command_line [] (vh_devs h @ vh_tail h) = Some (concat (map text_of ds))"
    using assms(2) by (simp add: boot_command_line_def boot_inv_def)
  moreover have "length ds < 2 ^ 12" using inv texts_length [of ds] by (simp add: boot_inv_def)
  ultimately show ?thesis using parse_texts [OF assms(3), of ds cmdline_init unknown] inv
    by (auto simp: parse_args_def boot_inv_def cmdline_init_def)
qed

definition demo_dev :: virtio_dev where
  "demo_dev = \<lparr>device_id = 2, vendor_id = 0, device_features = 0, device_features_sel = 0, driver_features = 0,
     driver_features_sel = 0, queue_sel = 0, queue = [], queue_notify = 0, int_status = 0, status = 0, config_gen = 0,
     irq = 0, config_data = replicate 36 0, config_len = 36, base = 0, virtio_mmio_id = 0\<rparr>"

lemma first_irq: "lkl_get_free_irq u irq_init = (1, irq_init\<lparr>irqs_user := (irqs_user irq_init)[1 := Some u]\<rparr>)"
  by (simp add: lkl_get_free_irq_def irq_init_def find_free_irq.simps)

lemma first_region:
  "sz < 2 ^ 24 \<Longrightarrow> fst (register_iomem iomem_regions_init a sz ops) = IOMEM_INDEX_TO_ADDR 1"
proof -
  have "free_region (iomem_regions_init :: 'a iomem_regions) 1 = 1"
    by (rule free_region_eq) (simp_all add: iomem_regions_init_def)
  then show "sz < 2 ^ 24 \<Longrightarrow> ?thesis" by (simp add: register_iomem_def)
qed

lemma demo_text: "length (dev_text 292 (IOMEM_INDEX_TO_ADDR 1) 1) < 4096"
  by (simp add: dev_text_def dev_param_def int_str_def IOMEM_INDEX_TO_ADDR_def num_str.simps)

lemma demo_setup:
  "\<exists>dev' h'. virtio_dev_setup 0x1000 0 0x2000 demo_dev 1 32 (vhost_init :: nat vhost) = Some (0, dev', h') \<and> vh_tail h' = []"
proof -
  let ?r = "register_iomem (iomem_regions_init :: nat bus) 0x2000 292 virtio_ops"
  have b: "fst ?r = IOMEM_INDEX_TO_ADDR 1" by (rule first_region) simp
  have "IOMEM_INDEX_TO_ADDR 1 \<noteq> 0" by (simp add: IOMEM_INDEX_TO_ADDR_def)
  then show ?thesis
    using b demo_text by (cases ?r) (simp add: virtio_dev_setup_def vhost_init_def demo_dev_def first_irq Let_def)
qed

theorem boot_devices_agree_witness:
  "\<exists>(h :: nat vhost) ds line s. ds \<noteq> [] \<and> booted h ds \<and> boot_command_line [] (vh_devs h @ vh_tail h) = Some line \<and>
     parse_args line [device_param] 6 6 None cmdline_init = Some (Args_Done, s) \<and> cl_devices s = map boot_device ds"
proof -
  from demo_setup obtain dev' and h' :: "nat vhost" where
    s: "virtio_dev_setup 0x1000 0 0x2000 demo_dev 1 32 vhost_init = Some (0, dev', h')" and t: "vh_tail h' = []" by blast
  have "booted h' ([] @ [dev'])" by (rule booted_setup [OF booted_start _ s]) (simp add: demo_dev_def)
  moreover have "find (\<lambda>p. parameq ''virtio_mmio.device'' (kp_name p)) [device_param] = Some device_param"
    by (simp add: device_param_def parameq_def dash2underscore_def)
  ultimately show ?thesis using boot_devices_agree [of h' "[] @ [dev']" "[device_param]" None] t by fastforce
qed

section \<open>Adding and removing a disk\<close>

lemma virtio_dev_setup_done:
  assumes "virtio_dev_setup qmem add_ret a dev queues nmax h = Some (0, dev', h')"
  obtains i irqs b rs where
    "lkl_get_free_irq ''virtio'' (vh_irqs h) = (i, irqs)" "0 \<le> i" "qmem \<noteq> 0"
    "register_iomem (vh_regions h) a (VIRTIO_MMIO_CONFIG + config_len dev) virtio_ops = (b, rs)" "b \<noteq> 0"
    "irq dev' = i" "base dev' = b" "vh_irqs h' = irqs" "vh_regions h' = rs" "vh_live h' = insert qmem (vh_live h)"
    "vh_running h' = vh_running h"
  using assms
  by (auto simp: virtio_dev_setup_def Let_def split: prod.splits if_splits bind_splits)

lemma lkl_disk_add_done:
  assumes "lkl_disk_add dmem qmem add_ret junk ops disk h = Some (ret, dev, h')" "0 \<le> ret"
  obtains dev0 where "dmem \<noteq> 0" "virtio_dev_setup qmem add_ret dmem dev0 1 32 (h\<lparr>vh_live := insert dmem (vh_live h)\<rparr>) = Some (0, dev, h')"
proof -
  have neg: "r \<le> 0" if "virtio_dev_setup qmem add_ret a d q n g = Some (r, d', g')" for a d q n r d' and g g' :: "'a vhost"
    using that by (auto simp: virtio_dev_setup_def Let_def split: prod.splits if_splits bind_splits)
  show thesis
    using assms that by (auto simp: lkl_disk_add_def Let_def split: prod.splits if_splits bind_splits dest: neg)
qed

text \<open>
  C9: Removing a disk gives back everything that adding it took. If \<open>lkl_disk_add\<close> succeeds and, when the kernel
  runs, the kernel unbinds the device, then \<open>lkl_disk_remove\<close> returns 0 and leaves the interrupt numbers, the
  addresses that answer, and the allocated memory as they were before the disk was added.
\<close>

theorem disk_add_remove:
  assumes "irq_wf (vh_irqs h)" "iomem_wf (vh_regions h)" "iomem_room (vh_regions h)"
    and "dmem \<notin> vh_live h" "qmem \<notin> vh_live h"
    and "lkl_disk_add dmem qmem add_ret junk ops disk h = Some (ret, dev, h')" "0 \<le> ret"
    and "vh_running h \<Longrightarrow> fst (dev_unbind sys (virtio_mmio_id dev) (vh_boot_devs h') k) = 0"
  shows "\<exists>h2 k2. lkl_disk_remove sys dmem qmem dev h' k = Some (0, h2, k2) \<and>
    irq_holder (vh_irqs h2) = irq_holder (vh_irqs h) \<and> iomem_target (vh_regions h2) = iomem_target (vh_regions h) \<and>
    vh_live h2 = vh_live h"
proof -
  from assms(6,7) obtain dev0 where d: "dmem \<noteq> 0"
    and s: "virtio_dev_setup qmem add_ret dmem dev0 1 32 (h\<lparr>vh_live := insert dmem (vh_live h)\<rparr>) = Some (0, dev, h')"
    by (rule lkl_disk_add_done)
  from s show ?thesis
  proof (rule virtio_dev_setup_done, goal_cases)
    case (1 i irqs b rs)
    have get: "lkl_get_free_irq ''virtio'' (vh_irqs h) = (i, irqs)" using 1(1) by simp
    obtain irqs' where put: "lkl_put_irq i ''virtio'' irqs = Some irqs'" "irq_holder irqs' = irq_holder (vh_irqs h)"
      using irqs.put_undoes_get [OF assms(1) get 1(2)] by blast
    have "iomem_target (unregister_iomem rs b) = iomem_target (vh_regions h)"
      using unregister_registered [OF assms(2,3)] 1(4,5) by simp
    then show ?thesis using put 1 assms(4,5,8) d
      by (cases "dev_unbind sys (virtio_mmio_id dev) (vh_boot_devs h') k")
        (auto simp: lkl_disk_remove_def virtio_dev_cleanup_def)
  qed
qed

definition demo_ops :: "nat lkl_dev_blk_ops" where
  "demo_ops = \<lparr>get_capacity = (\<lambda>d. (0, 1024)), request = (\<lambda>r w. None)\<rparr>"

lemma demo_disk_add:
  "\<exists>dev h'. lkl_disk_add 0x2000 0x1000 0 demo_dev demo_ops 0 (vhost_init :: nat vhost) = Some (0, dev, h')"
proof -
  let ?r = "register_iomem (iomem_regions_init :: nat bus) 0x2000 292 virtio_ops"
  have b: "fst ?r = IOMEM_INDEX_TO_ADDR 1" by (rule first_region) simp
  have "IOMEM_INDEX_TO_ADDR 1 \<noteq> 0" by (simp add: IOMEM_INDEX_TO_ADDR_def)
  then show ?thesis
    using b demo_text by (cases ?r)
      (simp add: lkl_disk_add_def virtio_dev_setup_def vhost_init_def demo_dev_def demo_ops_def first_irq Let_def)
qed

theorem disk_add_remove_witness:
  "\<exists>dev h' h2 k2. lkl_disk_add 0x2000 0x1000 0 demo_dev demo_ops 0 (vhost_init :: nat vhost) = Some (0, dev, h') \<and>
     lkl_disk_remove (\<lambda>call k. (0, [], k)) 0x2000 0x1000 dev h' () = Some (0, h2, k2) \<and> vh_live h2 = {}"
proof -
  obtain dev and h' :: "nat vhost" where
    a: "lkl_disk_add 0x2000 0x1000 0 demo_dev demo_ops 0 vhost_init = Some (0, dev, h')" using demo_disk_add by blast
  have "irq_wf (vh_irqs (vhost_init :: nat vhost))" "iomem_wf (vh_regions (vhost_init :: nat vhost))"
    "iomem_room (vh_regions (vhost_init :: nat vhost))"
    by (simp_all add: vhost_init_def irq_wf_init iomem_wf_init iomem_room_init)
  from disk_add_remove [OF this _ _ a, of "\<lambda>call k. (0, [], k)" "()"] a show ?thesis
    by (auto simp: vhost_init_def)
qed

text \<open>
  C40: When the running kernel refuses the device, \<open>lkl_disk_add\<close> frees the device and returns -1, but
  \<open>virtio_dev_setup\<close> has released nothing: the region still routes every access to the freed device, the interrupt
  number stays reserved, and the memory of the queues is never freed.
\<close>

theorem disk_add_refused_dangles:
  assumes "irq_wf (vh_irqs h)" "iomem_wf (vh_regions h)" "iomem_room (vh_regions h)" "vh_running h" "add_ret < 0"
    and "dmem \<noteq> 0" "qmem \<noteq> 0" "qmem \<noteq> dmem" "get_capacity ops disk = (0, cap)"
    and "lkl_get_free_irq ''virtio'' (vh_irqs h) = (i, irqs)" "0 \<le> i"
  shows "\<exists>dev h'. lkl_disk_add dmem qmem add_ret junk ops disk h = Some (- 1, dev, h') \<and> dmem \<notin> vh_live h' \<and>
    (\<forall>off \<in> {0..<292}. iomem_target (vh_regions h') (base dev + word_of_int off) = Some (virtio_ops, dmem, 292, off)) \<and>
    irq_holder (vh_irqs h') i = Some ''virtio'' \<and> qmem \<in> vh_live h'"
proof -
  obtain b rs where r: "register_iomem (vh_regions h) dmem 292 virtio_ops = (b, rs)" by fastforce
  have b: "b \<noteq> 0" using iomem.reg_ok [OF assms(2,3), of 292 dmem virtio_ops] r by simp
  have t: "iomem_target rs (b + word_of_int off) = Some (virtio_ops, dmem, 292, off)" if "0 \<le> off" "off < 292" for off
    using iomem.reg_target [OF assms(2,3) r b that(1)] that(2) by simp
  have "irq_holder irqs i = Some ''virtio''" using irqs.get_holds [OF assms(1,10,11)] by simp
  then show ?thesis using assms(4-11) r b t
    by (simp add: lkl_disk_add_def virtio_dev_setup_def Let_def)
qed

theorem disk_add_refused_dangles_witness:
  "\<exists>dev h'. lkl_disk_add 0x2000 0x1000 (- 12) demo_dev demo_ops 0 ((vhost_init :: nat vhost)\<lparr>vh_running := True\<rparr>) =
       Some (- 1, dev, h') \<and> 0x2000 \<notin> vh_live h' \<and>
     (\<forall>off \<in> {0..<292}. iomem_target (vh_regions h') (base dev + word_of_int off) = Some (virtio_ops, 0x2000, 292, off)) \<and>
     irq_holder (vh_irqs h') 1 = Some ''virtio'' \<and> 0x1000 \<in> vh_live h'"
  by (rule disk_add_refused_dangles [where cap = 1024])
    (simp_all add: vhost_init_def irq_wf_init iomem_wf_init iomem_room_init demo_ops_def first_irq)

end
