(* ===== verification/Node_Binding.thy ===== *)
theory Node_Binding
  imports Virtio_Setup "HOL-Library.Signed_Division" "HOL-Library.Log_Nat"
begin

text \<open>
  The operations of the node binding, \<open>src/disk.cc\<close> and \<open>src/node_lkl.cc\<close>, with the JavaScript next to
  them (\<open>lib/disk.js\<close>, \<open>lib/readdir.js\<close>): disks whose requests JavaScript serves, mounting, the arguments of system
  calls, and the conversions of directory entries, file attributes and times. The threads they run on are in
  \<open>Node_Loop\<close>.
\<close>

section \<open>Numbers of JavaScript\<close>

text \<open>
  An integer converted to a \<open>double\<close>: rounded to 53 significant bits, to the nearest and, between two, to the even one.
\<close>

definition to_double :: "int \<Rightarrow> int" where
  "to_double x =
     (let n = nat (abs x); u = 2 ^ (floorlog 2 n - 53); q = n div u; r = n mod u;
          q = (if 2 * r > u \<or> 2 * r = u \<and> odd q then q + 1 else q)
      in sgn x * int (q * u))"

definition castUint32 :: "u64 \<Rightarrow> int" where
  "castUint32 x = uint (ucast x :: u32)"

definition castInt32 :: "u64 \<Rightarrow> int" where
  "castInt32 x = sint (ucast x :: u32)"

text \<open>The first argument of a callback: \<open>null\<close>, a number, or an \<open>Error\<close>, which as a number is not one and reads as 0.\<close>

datatype js_err = JsNull | JsNumber int | JsError

fun IntegerValue :: "js_err \<Rightarrow> int" where
  "IntegerValue JsNull = 0"
| "IntegerValue (JsNumber i) = i"
| "IntegerValue JsError = 0"

section \<open>Disks of JavaScript\<close>

text \<open>The disk object the user passes, a parameter: it reads and writes a buffer of the process at an offset.\<close>

record 'd js_disk =
  jd_read :: "addr \<Rightarrow> u64 \<Rightarrow> int \<Rightarrow> bytes \<times> 'd \<Rightarrow> js_err \<times> bytes \<times> 'd"
  jd_write :: "addr \<Rightarrow> u64 \<Rightarrow> int \<Rightarrow> bytes \<times> 'd \<Rightarrow> js_err \<times> bytes \<times> 'd"
  jd_flush :: "'d \<Rightarrow> js_err \<times> 'd"
  jd_getCapacity :: "'d \<Rightarrow> js_err \<times> int"

text \<open>
  \<open>DiskWrapper.request\<close>. A request of another type never calls back and a request without a buffer throws: both have no
  result.
\<close>

definition DiskWrapper_request ::
  "'d js_disk \<Rightarrow> u32 \<Rightarrow> int \<Rightarrow> iovec list \<Rightarrow> bytes \<times> 'd \<Rightarrow> (js_err \<times> bytes \<times> 'd) option" where
  "DiskWrapper_request jd ty offset iovecs s =
     (if ty = LKL_DEV_BLK_TYPE_READ then
        (case iovecs of [] \<Rightarrow> None | v # _ \<Rightarrow> Some (jd_read jd (iov_base v) (iov_len v) offset s))
      else if ty = LKL_DEV_BLK_TYPE_WRITE then
        (case iovecs of [] \<Rightarrow> None | v # _ \<Rightarrow> Some (jd_write jd (iov_base v) (iov_len v) offset s))
      else if ty = LKL_DEV_BLK_TYPE_FLUSH \<or> ty = LKL_DEV_BLK_TYPE_FLUSH_OUT then
        (let (e, d) = jd_flush jd (snd s) in Some (e, fst s, d))
      else None)"

definition get_capacity_done :: "js_err \<Rightarrow> int \<Rightarrow> int \<times> u64" where
  "get_capacity_done e v =
     (if e = JsNull then (0, word_of_int v) else (sint (word_of_int (IntegerValue e) :: u32), 0))"

definition request_done :: "js_err \<Rightarrow> int" where
  "request_done e = (if e = JsNull then 0 else sint (word_of_int (IntegerValue e) :: u32))"

text \<open>\<open>js_get_capacity_entry\<close> and \<open>js_request_entry\<close>: the call on the default loop and the wait for its callback.\<close>

definition js_get_capacity_entry :: "'d js_disk \<Rightarrow> 'd \<Rightarrow> int \<times> u64" where
  "js_get_capacity_entry jd d = (let (e, v) = jd_getCapacity jd d in get_capacity_done e v)"

definition js_request_entry :: "'d js_disk \<Rightarrow> lkl_blk_req \<Rightarrow> bytes \<times> 'd \<Rightarrow> (int \<times> bytes \<times> 'd) option" where
  "js_request_entry jd req s = do {
     (e, s) \<leftarrow> DiskWrapper_request jd (br_type req) (to_double (uint (br_sector req * 512))) (br_buf req) s;
     Some (request_done e, s)
   }"

definition lkl_js_disk_ops :: "'d js_disk \<Rightarrow> 'd lkl_dev_blk_ops" where
  "lkl_js_disk_ops jd = \<lparr>get_capacity = js_get_capacity_entry jd, request = js_request_entry jd\<rparr>"

section \<open>Disks and mounts\<close>

text \<open>
  \<open>disks\<close> holds the disks by their number: the pointer to the device, the memory of its queues, and the device. The
  pointer of a disk whose device could not be allocated is what the uninitialised structure held.
\<close>

type_synonym disks = "u32 \<Rightarrow> (addr \<times> addr \<times> virtio_dev) option"

definition do_disk_add ::
  "addr \<Rightarrow> addr \<Rightarrow> addr \<Rightarrow> int \<Rightarrow> virtio_dev \<Rightarrow> 'd js_disk \<Rightarrow> 'd \<Rightarrow> disks \<times> 'd vhost \<Rightarrow> (int \<times> disks \<times> 'd vhost) option" where
  "do_disk_add stale dmem qmem add_ret junk jd disk s = do {
     (disk_id, dev, h) \<leftarrow> lkl_disk_add dmem qmem add_ret junk (lkl_js_disk_ops jd) disk (snd s);
     Some (disk_id, (fst s)(word_of_int disk_id \<mapsto> (if dmem = 0 then stale else dmem, qmem, dev)), h)
   }"

definition do_disk_remove ::
  "'k kernel \<Rightarrow> virtio_dev \<Rightarrow> u32 \<Rightarrow> disks \<times> 'd vhost \<Rightarrow> 'k \<Rightarrow> (int \<times> (disks \<times> 'd vhost) \<times> 'k) option" where
  "do_disk_remove sys junk disk_id s k = do {
     let (p, qmem, dev) = (case fst s disk_id of Some x \<Rightarrow> x | None \<Rightarrow> (0, 0, junk));
     (ret, h, k) \<leftarrow> lkl_disk_remove sys p qmem dev (snd s) k;
     Some (ret, ((fst s)(disk_id := None), h), k)
   }"

text \<open>
  \<open>mount\<close>: \<open>sizeof\<close> is that of the pointer, so that seven characters of the name are kept. \<open>Inl\<close> is the error code
  handed to the callback.
\<close>

definition mount_fs_type :: "string \<Rightarrow> string" where
  "mount_fs_type fs_type = take 7 fs_type"

definition do_mount ::
  "'k kernel \<Rightarrow> bool \<Rightarrow> u32 \<Rightarrow> u32 \<Rightarrow> bool \<Rightarrow> string \<Rightarrow> u32 \<Rightarrow> 'k \<Rightarrow> ((int + string) \<times> 'k) option" where
  "do_mount sys mem_ok num_boot disk_id readonly fs_type part k =
     lkl_mount_dev sys mem_ok num_boot disk_id part (mount_fs_type fs_type) (if readonly then 1 else 0) None 32 k"

definition do_umount :: "'k kernel \<Rightarrow> bool \<Rightarrow> u32 \<Rightarrow> u32 \<Rightarrow> u32 \<Rightarrow> 'k \<Rightarrow> (int \<times> 'k) option" where
  "do_umount sys mem_ok num_boot disk_id part k = do {
     let k = snd (sys_long sys SysSync k);
     (ret, k) \<leftarrow> lkl_umount_dev sys mem_ok num_boot disk_id part 0 1000 k;
     Some (int_of_long ret, k)
   }"

section \<open>System calls\<close>

text \<open>
  An argument of a system call: the data of a buffer, a string copied to new memory \<open>p\<close> of \<open>LKL_PATH_MAX\<close> bytes, or a
  number. A longer string fails the assertion, and one of exactly that length is copied with its end outside.
\<close>

datatype js_arg = ArgBuffer addr | ArgString string | ArgNumber int

fun syscall_param :: "addr \<Rightarrow> js_arg \<Rightarrow> (int \<times> (addr \<times> string) option) option" where
  "syscall_param p (ArgBuffer a) = Some (sint a, None)"
| "syscall_param p (ArgString s) =
     (if length s > 4096 then None else if length s + 1 > 4096 then None else Some (sint p, Some (p, s)))"
| "syscall_param p (ArgNumber i) = Some (i, None)"

text \<open>The callback of a system call: \<open>ErrnoException(-ret)\<close> or the result.\<close>

definition syscall_callback :: "int \<Rightarrow> int + int" where
  "syscall_callback ret = (if ret < 0 then Inl (- ret) else Inr ret)"

section \<open>Directories\<close>

text \<open>
  The names of the entries in the bytes that \<open>getdents64\<close> wrote. An entry that runs past them has no result, and a
  length of 0 would repeat the entry for ever.
\<close>

partial_function (option) parse_dirents :: "u8 list \<Rightarrow> nat \<Rightarrow> string list \<Rightarrow> string list option" where
  "parse_dirents b bpos result =
     (if bpos < length b then do {
        name \<leftarrow> d_name b bpos;
        reclen \<leftarrow> d_reclen b bpos;
        parse_dirents b (bpos + reclen) (if name \<noteq> ''.'' \<and> name \<noteq> ''..'' then result @ [take 255 name] else result)
      }
      else Some result)"

definition parseDirent64 :: "u8 list \<Rightarrow> string list option" where
  "parseDirent64 b = parse_dirents b 0 []"

partial_function (option) listdir :: "'k kernel \<Rightarrow> int \<Rightarrow> string list \<Rightarrow> 'k \<Rightarrow> ((int + string list) \<times> 'k) option" where
  "listdir sys fd result k =
     (let (r, data, k) = sys (SysGetdents64 fd 1024) k in
      case syscall_callback (int_of_long r) of
        Inl err \<Rightarrow> Some (Inl err, k)
      | Inr nread \<Rightarrow>
          if nread > 0 then do {
            names \<leftarrow> parseDirent64 (take (nat nread) data);
            listdir sys fd (result @ names) k
          }
          else Some (Inr result, k))"

text \<open>\<open>decode\<close> is the conversion of a name from its encoding, absent for \<open>buffer\<close>.\<close>

definition decodeArray :: "(string \<Rightarrow> string) option \<Rightarrow> string list \<Rightarrow> int + string list" where
  "decodeArray encoding arr = (case encoding of
     None \<Rightarrow> Inr arr
   | Some decode \<Rightarrow> if \<exists>s \<in> set arr. decode s = [] then Inl EINVAL else Inr (map decode arr))"

definition readdir :: "'k kernel \<Rightarrow> string \<Rightarrow> (string \<Rightarrow> string) option \<Rightarrow> 'k \<Rightarrow> ((int + string list) \<times> 'k) option" where
  "readdir sys path encoding k =
     (let (fd, k) = sys_int sys (SysOpen path (LKL_O_RDONLY + LKL_O_DIRECTORY) 0) k in
      case syscall_callback fd of
        Inl err \<Rightarrow> Some (Inl err, k)
      | Inr fd \<Rightarrow> do {
          (r, k) \<leftarrow> listdir sys fd [] k;
          let (c, k) = sys_int sys (SysClose fd) k;
          case (r, syscall_callback c) of
            (Inl err, _) \<Rightarrow> Some (Inl err, k)
          | (Inr names, Inl err) \<Rightarrow> Some (Inl err, k)
          | (Inr names, Inr _) \<Rightarrow> Some (decodeArray encoding names, k)
        })"

section \<open>Attributes and times\<close>

definition field64 :: "u8 list \<Rightarrow> nat \<Rightarrow> u64" where
  "field64 b i = word_of_nat (le_val (take 8 (drop i b)))"

definition field32 :: "u8 list \<Rightarrow> nat \<Rightarrow> u32" where
  "field32 b i = word_of_nat (le_val (take 4 (drop i b)))"

text \<open>All operands are integers and so are the results, each rounded to a \<open>double\<close>; the division truncates.\<close>

definition timespecToMilliseconds :: "u64 \<Rightarrow> u64 \<Rightarrow> int" where
  "timespecToMilliseconds seconds nanoseconds =
     to_double (to_double (to_double (sint seconds) * 1000) + to_double (sint nanoseconds sdiv 1000000))"

record js_stats =
  st_dev :: int
  st_mode :: int
  st_nlink :: int
  st_uid :: int
  st_gid :: int
  st_rdev :: int
  st_blksize :: int
  st_ino :: int
  st_size :: int
  st_blocks :: int
  st_atim_msec :: int
  st_mtim_msec :: int
  st_ctim_msec :: int
  st_birthtim_msec :: int

text \<open>\<open>struct stat\<close> of the generic layout, 128 bytes; unsigned fields are widened with zeros and signed ones with the sign.\<close>

definition parseLklStat :: "u8 list \<Rightarrow> js_stats option" where
  "parseLklStat b =
     (if length b < 128 then None
      else
        let ctim_msec = timespecToMilliseconds (field64 b 104) (field64 b 112) in
        Some \<lparr>st_dev = castInt32 (field64 b 0), st_mode = castInt32 (ucast (field32 b 16)),
          st_nlink = castInt32 (ucast (field32 b 20)), st_uid = castUint32 (ucast (field32 b 24)),
          st_gid = castUint32 (ucast (field32 b 28)), st_rdev = castInt32 (field64 b 32),
          st_blksize = castInt32 (scast (field32 b 56)), st_ino = castUint32 (field64 b 8),
          st_size = castUint32 (field64 b 48), st_blocks = castUint32 (field64 b 64),
          st_atim_msec = timespecToMilliseconds (field64 b 72) (field64 b 80),
          st_mtim_msec = timespecToMilliseconds (field64 b 88) (field64 b 96),
          st_ctim_msec = ctim_msec, st_birthtim_msec = ctim_msec\<rparr>)"

definition millisecondsToTimespec :: "int \<Rightarrow> u64 \<times> u64" where
  "millisecondsToTimespec milliseconds =
     (word_of_int (milliseconds sdiv 1000), word_of_int ((milliseconds smod 1000) * 1000000))"

section \<open>Properties of the conversions\<close>

lemma to_double_small: "abs x < 2 ^ 53 \<Longrightarrow> to_double x = x"
proof -
  assume "abs x < 2 ^ 53"
  then have "floorlog 2 (nat (abs x)) \<le> 53" by (intro floorlog_leI) simp_all
  then show ?thesis by (simp add: to_double_def Let_def abs_mult_sgn mult.commute [of "sgn x"])
qed

text \<open>Times that JavaScript sets come back: the millisecond survives the split into seconds and nanoseconds.\<close>

lemma milliseconds_roundtrip:
  assumes "abs ms < 2 ^ 52" "millisecondsToTimespec ms = (s, n)"
  shows "timespecToMilliseconds s n = ms"
proof -
  let ?q = "ms sdiv 1000" and ?r = "ms smod 1000"
  have q: "ms = ?q * 1000 + ?r" by (simp only: sdiv_mult_smod_eq)
  have "abs ?r = abs (sgn ms) * (abs ms mod 1000)" by (simp add: smod_int_alt_def abs_mult)
  then have r: "abs ?r < 1000" by (cases "ms = 0") simp_all
  have "abs ms < 4503599627370496" using assms(1) by simp
  then have "abs (?q * 1000) < 9007199254740992" "abs ?q < 4503599627370496" using q r by arith+
  then have b: "abs (?q * 1000) < 2 ^ 53" "abs ?q < 2 ^ 52" by simp_all
  have s: "sint s = ?q" using assms b by (auto simp: millisecondsToTimespec_def intro!: sint_word_of_int_small)
  have n: "n = word_of_int (?r * 1000000)" using assms(2) unfolding millisecondsToTimespec_def by (simp only: prod.inject)
  have "- 1000000000 < ?r * 1000000" "?r * 1000000 < 1000000000" using r by arith+
  then have m: "sint n = ?r * 1000000" unfolding n by (intro sint_word_of_int_small) simp_all
  have "?r * 1000000 sdiv 1000000 = ?r" by (simp add: signed_divide_int_def sgn_mult abs_mult mult_sgn_abs)
  then show ?thesis using s m b r q assms(1) by (simp add: timespecToMilliseconds_def to_double_small)
qed

text \<open>The names of a directory that are listed: all but the two links.\<close>

definition listed :: "string list \<Rightarrow> string list" where
  "listed names = filter (\<lambda>n. n \<noteq> ''.'' \<and> n \<noteq> ''..'') names"

lemma parse_dirents_entries:
  "drop bpos b = concat (map snd es) \<Longrightarrow> bpos \<le> length b \<Longrightarrow> \<forall>(n, e) \<in> set es. dirent n e \<and> length n \<le> 255 \<Longrightarrow>
   parse_dirents b bpos result = Some (result @ listed (map fst es))"
proof (induction es arbitrary: bpos result)
  case Nil
  then show ?case by (subst parse_dirents.simps) (simp add: listed_def)
next
  case (Cons x es)
  obtain n e where x: "x = (n, e)" by fastforce
  have d: "dirent n e" "length n \<le> 255" using Cons.prems(3) x by simp_all
  have at: "drop bpos b = e @ concat (map snd es)" using Cons.prems(1) x by simp
  have e: "19 \<le> length e" using d(1) by (simp add: dirent_def)
  have l: "bpos + length e \<le> length b" using arg_cong [OF at, of length] Cons.prems(2) by simp
  have "drop (bpos + length e) b = concat (map snd es)" using arg_cong [OF at, of "drop (length e)"] by (simp add: add.commute)
  then show ?case using Cons.IH [of "bpos + length e"] Cons.prems(3) x l e d(2) dirent_at [OF d(1) at]
    by (subst parse_dirents.simps) (simp add: listed_def)
qed

lemma listdir_names:
  "delivers sys fd k cs \<Longrightarrow> \<forall>(n, e) \<in> set (concat cs). length n \<le> 255 \<Longrightarrow>
   \<exists>k'. listdir sys fd result k = Some (Inr (result @ listed (map fst (concat cs))), k')"
proof (induction cs arbitrary: result k)
  case Nil
  then show ?case by (subst listdir.simps) (auto simp: syscall_callback_def int_of_long_def listed_def)
next
  case (Cons c cs)
  let ?b = "concat (map snd c)"
  from Cons.prems(1) obtain k' where c: "chunk c" and s: "sys (SysGetdents64 fd 1024) k = (int (length ?b), ?b, k')"
    and d: "delivers sys fd k' cs" by auto
  have l: "length ?b \<le> 1024" "\<forall>(n, e) \<in> set c. dirent n e \<and> length n \<le> 255" using c Cons.prems(2) by (auto simp: chunk_def)
  have "0 < length ?b" using c by (cases c) (auto simp: chunk_def dirent_def)
  moreover have "int_of_long (int (length ?b)) = int (length ?b)" using l(1) unfolding int_of_long_def by (intro sint_word_of_int_small) simp_all
  moreover have "parseDirent64 ?b = Some (listed (map fst c))"
    using parse_dirents_entries [of 0 ?b c "[]"] l(2) by (simp add: parseDirent64_def)
  moreover obtain k2 where "listdir sys fd (result @ listed (map fst c)) k' = Some (Inr (result @ listed (map fst c) @ listed (map fst (concat cs))), k2)"
    using Cons.IH [OF d, of "result @ listed (map fst c)"] Cons.prems(2) by auto
  ultimately show ?case using s by (subst listdir.simps) (auto simp: syscall_callback_def listed_def)
qed

text \<open>
  C18: \<open>readdir\<close> returns every name of the directory but the two links, once and in the order in which the kernel
  delivers them, across as many blocks as the kernel needs, decoded as asked; the listing ends, and the directory is
  closed. The names are those the kernel allows, of at most 255 bytes.
\<close>

theorem readdir_names:
  assumes "sys_int sys (SysOpen path (LKL_O_RDONLY + LKL_O_DIRECTORY) 0) k = (fd, k1)" "0 \<le> fd"
    and "delivers sys fd k1 cs" "\<forall>(n, e) \<in> set (concat cs). length n \<le> 255"
    and "\<forall>k. 0 \<le> fst (sys_int sys (SysClose fd) k)"
  shows "\<exists>k2. readdir sys path encoding k =
    Some (decodeArray encoding (filter (\<lambda>n. n \<noteq> ''.'' \<and> n \<noteq> ''..'') (map fst (concat cs))), snd (sys_int sys (SysClose fd) k2))"
proof -
  obtain k2 where l: "listdir sys fd [] k1 = Some (Inr (listed (map fst (concat cs))), k2)"
    using listdir_names [OF assms(3,4), of "[]"] by auto
  obtain c k3 where c: "sys_int sys (SysClose fd) k2 = (c, k3)" by fastforce
  then have "0 \<le> c" using assms(5) by (metis fst_conv)
  then show ?thesis using assms(1,2) l c
    by (intro exI [of _ k2]) (simp add: readdir_def syscall_callback_def listed_def)
qed

theorem readdir_names_witness:
  "\<exists>k2. readdir demo_dir ''/sysfs'' None 0 = Some (Inr [''vda''], snd (sys_int demo_dir (SysClose 3) k2))"
proof -
  have "delivers demo_dir 3 0 [[(''..'', demo_entry ''..'')], [(''vda'', demo_entry ''vda'')]]"
    by (simp add: demo_dir_def chunk_def dirent_def demo_entry_def to_bytes_def cstring_def le_val_def code_def) (simp add: char_of_def bit_numeral_rec bit_0)
  from readdir_names [OF _ _ this, where k = 0 and path = "''/sysfs''" and encoding = None]
  show ?thesis by (simp add: demo_dir_def sys_int_def sys_long_def int_of_long_def decodeArray_def)
qed

section \<open>Errors of disks\<close>









end
