(* ===== verification/Crc32.thy ===== *)
theory Crc32
  imports LKL_Prelude
begin

text \<open>
  The checksums of the file systems, \<open>lib/crc32.c\<close>: the variant of a 64-bit little-endian machine, which takes eight
  bytes at a time through tables (slicing by 8), with the tables of \<open>lib/gen_crc32table.c\<close>, and the function that
  appends zeros in logarithmic time. Both are shown equal to the bitwise variant of the same file, for every polynomial.
\<close>

unbundle bit_operations_syntax

section \<open>Bit by bit\<close>

definition crc_bit :: "u32 \<Rightarrow> u32 \<Rightarrow> u32" where
  "crc_bit polynomial crc = drop_bit 1 crc XOR (if crc AND 1 \<noteq> 0 then polynomial else 0)"

fun crc32_le_bitwise :: "u32 \<Rightarrow> u32 \<Rightarrow> u8 list \<Rightarrow> u32" where
  "crc32_le_bitwise polynomial crc [] = crc"
| "crc32_le_bitwise polynomial crc (p # ps) = crc32_le_bitwise polynomial ((crc_bit polynomial ^^ 8) (crc XOR ucast p)) ps"

section \<open>Tables\<close>

text \<open>The loops of \<open>crc32init_le_generic\<close>: over \<open>j\<close> and over \<open>i\<close> for the first row.\<close>

function init_fill :: "nat \<Rightarrow> nat \<Rightarrow> u32 \<Rightarrow> u32 list \<Rightarrow> u32 list" where
  "init_fill i j crc tab = (if j < 256 \<and> 0 < i then init_fill i (j + 2 * i) crc (tab[i + j := crc XOR tab ! j]) else tab)"
  by pat_completeness auto
termination
  by (relation "measure (\<lambda>(i, j, crc, tab). 256 - j)") auto

function init_row :: "u32 \<Rightarrow> nat \<Rightarrow> u32 \<Rightarrow> u32 list \<Rightarrow> u32 list" where
  "init_row polynomial i crc tab =
     (if i = 0 then tab
      else let crc = crc_bit polynomial crc in init_row polynomial (i div 2) crc (init_fill i 0 crc tab))"
  by pat_completeness auto
termination
  by (relation "measure (\<lambda>(p, i, crc, tab). i)") auto

declare init_fill.simps [simp del] init_row.simps [simp del]

definition crc32_row :: "u32 \<Rightarrow> u32 list" where
  "crc32_row polynomial = init_row polynomial 128 1 (replicate 256 0)"

definition next_row :: "u32 list \<Rightarrow> u32 \<Rightarrow> u32" where
  "next_row tab0 crc = tab0 ! unat (crc AND 0xff) XOR drop_bit 8 crc"

text \<open>The entry \<open>tab[j][i]\<close>.\<close>

definition crc32_tab :: "u32 \<Rightarrow> nat \<Rightarrow> u32 \<Rightarrow> u32" where
  "crc32_tab polynomial j i = (next_row (crc32_row polynomial) ^^ j) (crc32_row polynomial ! unat i)"

section \<open>Eight bytes at a time\<close>

type_synonym crc_tab = "nat \<Rightarrow> u32 \<Rightarrow> u32"

definition do_crc :: "crc_tab \<Rightarrow> u8 \<Rightarrow> u32 \<Rightarrow> u32" where
  "do_crc t x crc = t 0 ((crc XOR ucast x) AND 255) XOR drop_bit 8 crc"

definition do_crc4 :: "crc_tab \<Rightarrow> u32 \<Rightarrow> u32" where
  "do_crc4 t q = t 3 (q AND 255) XOR t 2 (drop_bit 8 q AND 255) XOR t 1 (drop_bit 16 q AND 255) XOR t 0 (drop_bit 24 q AND 255)"

definition do_crc8 :: "crc_tab \<Rightarrow> u32 \<Rightarrow> u32" where
  "do_crc8 t q = t 7 (q AND 255) XOR t 6 (drop_bit 8 q AND 255) XOR t 5 (drop_bit 16 q AND 255) XOR t 4 (drop_bit 24 q AND 255)"

text \<open>A little-endian load of four bytes.\<close>

definition load32 :: "u8 \<Rightarrow> u8 \<Rightarrow> u8 \<Rightarrow> u8 \<Rightarrow> u32" where
  "load32 a b c d = ucast a OR push_bit 8 (ucast b) OR push_bit 16 (ucast c) OR push_bit 24 (ucast d)"

text \<open>The bytes up to an aligned address, the blocks of eight, and the last bytes.\<close>

fun crc_align :: "crc_tab \<Rightarrow> addr \<Rightarrow> u8 list \<Rightarrow> u32 \<Rightarrow> u8 list \<times> u32" where
  "crc_align t buf [] crc = ([], crc)"
| "crc_align t buf (x # xs) crc = (if buf AND 3 \<noteq> 0 then crc_align t (buf + 1) xs (do_crc t x crc) else (x # xs, crc))"

fun crc_blocks :: "crc_tab \<Rightarrow> u8 list \<Rightarrow> u32 \<Rightarrow> u8 list \<times> u32" where
  "crc_blocks t (a # b # c # d # e # f # g # h # xs) crc =
     (let q = crc XOR load32 a b c d;
          crc = do_crc8 t q;
          q = load32 e f g h
      in crc_blocks t xs (crc XOR do_crc4 t q))"
| "crc_blocks t xs crc = (xs, crc)"

definition crc32_body :: "u32 \<Rightarrow> addr \<Rightarrow> u8 list \<Rightarrow> crc_tab \<Rightarrow> u32" where
  "crc32_body crc buf xs t =
     (let (xs, crc) = crc_align t buf xs crc;
          (xs, crc) = crc_blocks t xs crc
      in fold (do_crc t) xs crc)"

definition CRCPOLY_LE :: u32 where "CRCPOLY_LE = 0xedb88320"
definition CRC32C_POLY_LE :: u32 where "CRC32C_POLY_LE = 0x82F63B78"

definition crc32_le_generic :: "u32 \<Rightarrow> addr \<Rightarrow> u8 list \<Rightarrow> crc_tab \<Rightarrow> u32" where
  "crc32_le_generic crc p xs t = crc32_body crc p xs t"

definition crc32_le :: "u32 \<Rightarrow> addr \<Rightarrow> u8 list \<Rightarrow> u32" where
  "crc32_le crc p xs = crc32_le_generic crc p xs (crc32_tab CRCPOLY_LE)"

definition crc32c_le :: "u32 \<Rightarrow> addr \<Rightarrow> u8 list \<Rightarrow> u32" where
  "crc32c_le crc p xs = crc32_le_generic crc p xs (crc32_tab CRC32C_POLY_LE)"

section \<open>Appending zeros\<close>

definition gf2_step :: "u32 \<Rightarrow> u32 \<Rightarrow> u32 \<times> u32 \<Rightarrow> u32 \<times> u32" where
  "gf2_step y modulus = (\<lambda>(x, product).
     let product = drop_bit 1 product XOR (if product AND 1 \<noteq> 0 then modulus else 0);
         x = drop_bit 1 x
     in (x, product XOR (if x AND 1 \<noteq> 0 then y else 0)))"

definition gf2_multiply :: "u32 \<Rightarrow> u32 \<Rightarrow> u32 \<Rightarrow> u32" where
  "gf2_multiply x y modulus = snd ((gf2_step y modulus ^^ 31) (x, if x AND 1 \<noteq> 0 then y else 0))"

function shift_loop :: "u32 \<Rightarrow> u32 \<Rightarrow> u32 \<Rightarrow> nat \<Rightarrow> u32" where
  "shift_loop polynomial pw crc len =
     (let crc = (if odd len then gf2_multiply crc pw polynomial else crc);
          len = len div 2
      in if len = 0 then crc else shift_loop polynomial (gf2_multiply pw pw polynomial) crc len)"
  by pat_completeness auto
termination
  by (relation "measure (\<lambda>(p, pw, crc, len). len)") auto

declare shift_loop.simps [simp del]

definition crc32_generic_shift :: "u32 \<Rightarrow> nat \<Rightarrow> u32 \<Rightarrow> u32" where
  "crc32_generic_shift crc len polynomial =
     (let crc = (crc_bit polynomial ^^ (8 * (len mod 4))) crc;
          len = len div 4
      in if len = 0 then crc else shift_loop polynomial polynomial crc len)"

section \<open>Linearity\<close>

lemma and_1_odd: "(x AND 1 \<noteq> 0) = odd (x :: u32)"
  by (simp add: and_one_eq odd_iff_mod_2_eq_one)

lemma crc_bit_xor: "crc_bit p (x XOR y) = crc_bit p x XOR crc_bit p y"
  by (cases "odd x"; cases "odd y") (simp_all add: crc_bit_def and_1_odd drop_bit_xor even_xor_iff xor.assoc xor.commute xor.left_commute)

lemma crc_bit_0 [simp]: "crc_bit p 0 = 0"
  by (simp add: crc_bit_def)

lemma crc_bits_xor: "(crc_bit p ^^ n) (x XOR y) = (crc_bit p ^^ n) x XOR (crc_bit p ^^ n) y"
  by (induction n) (simp_all add: crc_bit_xor)

lemma crc_bits_0 [simp]: "(crc_bit p ^^ n) 0 = 0"
  by (induction n) simp_all

lemma crc_bit_even: "even x \<Longrightarrow> crc_bit p x = drop_bit 1 x"
  by (simp add: crc_bit_def and_1_odd)

text \<open>Bits that are shifted out only at the end are shifted plainly before.\<close>

lemma crc_bits_push: "k \<le> n \<Longrightarrow> (crc_bit p ^^ k) (push_bit n x) = drop_bit k (push_bit n (x :: u32))"
proof (induction k)
  case (Suc k)
  then have "even (drop_bit k (push_bit n x))" by (simp add: even_drop_bit_iff_not_bit bit_push_bit_iff)
  with Suc show ?case by (simp add: crc_bit_even drop_bit_drop_bit)
qed simp

section \<open>A byte\<close>

lemma and_255: "x AND 255 = take_bit 8 (x :: u32)"
  using and_pow2_minus_1 [of x 8] by simp

lemma split_byte: "take_bit 8 x XOR push_bit 8 (drop_bit 8 x) = (x :: u32)"
  by (rule bit_word_eqI) (auto simp: bit_simps)

lemma drop_push_byte: "drop_bit 8 (push_bit 8 (drop_bit 8 x)) = drop_bit 8 (x :: u32)"
  by (rule bit_word_eqI) (auto simp: bit_simps dest: bit_imp_le_length)

abbreviation crc_byte :: "u32 \<Rightarrow> u32 \<Rightarrow> u32" where "crc_byte p \<equiv> crc_bit p ^^ 8"

lemma crc_byte_split: "crc_byte p x = crc_byte p (take_bit 8 x) XOR drop_bit 8 x"
proof -
  have "crc_byte p x = crc_byte p (take_bit 8 x) XOR crc_byte p (push_bit 8 (drop_bit 8 x))"
    by (subst split_byte [symmetric, of x]) (rule crc_bits_xor)
  also have "crc_byte p (push_bit 8 (drop_bit 8 x)) = drop_bit 8 x"
    by (subst crc_bits_push) (simp_all only: drop_push_byte order_refl)
  finally show ?thesis .
qed

section \<open>The first row\<close>

lemma init_fill_length [simp]: "length (init_fill i j crc tab) = length tab"
  by (induction i j crc tab rule: init_fill.induct) (subst init_fill.simps, simp)

lemma init_fill_nth:
  assumes "0 < i" "2 * i dvd 256" "2 * i dvd j" "length tab = 256" "m < 256"
  shows "init_fill i j crc tab ! m = (if j \<le> m \<and> m mod (2 * i) = i then crc XOR tab ! (m - i) else tab ! m)"
  using assms
proof (induction i j crc tab rule: init_fill.induct)
  case (1 i j crc tab)
  show ?case
  proof (cases "j < 256")
    case True
    let ?tab = "tab[i + j := crc XOR tab ! j]"
    obtain a b where ab: "j = 2 * i * a" "256 = 2 * i * b" using 1(3,4) by (elim dvdE)
    then have "a < b" using True by (metis mult_less_cancel1)
    then have le: "j + 2 * i \<le> 256" using ab mult_le_mono2 [of "a + 1" b "2 * i"] by (simp only: distrib_left mult_1_right)
    have jm: "(i + j) mod (2 * i) = i" using ab(1) 1(2) by simp
    have "init_fill i j crc tab ! m = init_fill i (j + 2 * i) crc ?tab ! m" using True 1(2) by (subst init_fill.simps) simp
    also have "\<dots> = (if j + 2 * i \<le> m \<and> m mod (2 * i) = i then crc XOR ?tab ! (m - i) else ?tab ! m)"
      using 1(1) 1(2-6) True by simp
    also have "\<dots> = (if j \<le> m \<and> m mod (2 * i) = i then crc XOR tab ! (m - i) else tab ! m)"
    proof (cases "m = i + j")
      case m: True
      then show ?thesis using jm 1(2,5,6) by simp
    next
      case m: False
      have "m - i \<noteq> i + j" if "j + 2 * i \<le> m" "m mod (2 * i) = i"
      proof
        assume "m - i = i + j"
        then have "m = 2 * i * (a + 1)" using that(1) ab(1) by simp
        then have "m mod (2 * i) = 0" by (simp only: mod_mult_self1_is_0)
        then show False using that(2) 1(2) by simp
      qed
      moreover have "m mod (2 * i) \<noteq> i" if "j \<le> m" "m < j + 2 * i"
      proof -
        have r: "m - j < 2 * i" "j + (m - j) = m" using that by linarith+
        have "(2 * i * a + (m - j)) mod (2 * i) = m - j" using r(1) by simp
        then have "m mod (2 * i) = m - j" using r(2) ab(1) by simp
        then show ?thesis using m that(1) by linarith
      qed
      ultimately show ?thesis using m by auto
    qed
    finally show ?thesis .
  next
    case False
    then show ?thesis using 1(6) by (subst init_fill.simps) simp
  qed
qed

text \<open>The entry of a power of two, and the sum of the entries of disjoint bits.\<close>

lemma crc_byte_pow2:
  assumes "e \<le> 8"
  shows "crc_byte p (2 ^ e) = (crc_bit p ^^ (8 - e)) 1"
proof -
  have "(crc_bit p ^^ e) (push_bit e 1) = drop_bit e (push_bit e (1 :: u32))" by (rule crc_bits_push) simp
  also have "\<dots> = 1" using assms by (intro bit_word_eqI) (auto simp: bit_simps)
  finally have "(crc_bit p ^^ e) (2 ^ e) = 1" by simp
  moreover have "crc_byte p (2 ^ e) = (crc_bit p ^^ (8 - e)) ((crc_bit p ^^ e) (2 ^ e))"
    using assms by (simp add: funpow_add [symmetric, THEN fun_cong, simplified])
  ultimately show ?thesis by simp
qed

lemma add_pow2_xor:
  assumes "2 ^ Suc e dvd a"
  shows "(of_nat (a + 2 ^ e) :: u32) = of_nat a XOR 2 ^ e"
proof -
  have "\<not> bit a e" using assms by (auto simp: bit_iff_odd elim!: dvdE)
  then have "(of_nat a :: u32) AND 2 ^ e = 0"
    by (intro bit_word_eqI) (auto simp: bit_simps bit_exp_iff)
  then show ?thesis by (simp add: disjunctive_add_eq_xor)
qed

lemma init_fill_row:
  assumes "e \<le> 7" "length tab = 256" "m < 256" "2 ^ e dvd m"
    and "\<forall>m < 256. 2 ^ Suc e dvd m \<longrightarrow> tab ! m = crc_byte p (of_nat m)"
  shows "init_fill (2 ^ e) 0 (crc_byte p (2 ^ e)) tab ! m = crc_byte p (of_nat m)"
proof -
  have d: "2 * 2 ^ e dvd (256 :: nat)" using le_imp_power_dvd [of "Suc e" 8 "2 :: nat"] assms(1) by simp
  have n: "init_fill (2 ^ e) 0 (crc_byte p (2 ^ e)) tab ! m =
      (if m mod (2 * 2 ^ e) = 2 ^ e then crc_byte p (2 ^ e) XOR tab ! (m - 2 ^ e) else tab ! m)"
    using init_fill_nth [of "2 ^ e" 0 tab m] d assms(2,3) by simp
  show ?thesis
  proof (cases "m mod (2 * 2 ^ e) = 2 ^ e")
    case True
    then have le: "2 ^ e \<le> m" by (metis mod_less_eq_dividend)
    have dvd: "2 ^ Suc e dvd m - 2 ^ e" using True by (metis dvd_minus_mod power_Suc)
    have "crc_byte p (of_nat m) = crc_byte p (of_nat (m - 2 ^ e) XOR 2 ^ e)"
      using add_pow2_xor [OF dvd] le by simp
    then show ?thesis using n True assms(3,5) dvd by (simp add: crc_bits_xor xor.commute)
  next
    case False
    have "2 ^ Suc e dvd m"
    proof -
      obtain k where k: "m = 2 ^ e * k" using assms(4) by (elim dvdE)
      have "even k"
      proof (rule ccontr)
        assume "odd k"
        then obtain l where "k = 2 * l + 1" by (elim oddE)
        then have "m = 2 ^ e + 2 * 2 ^ e * l" using k by (simp add: algebra_simps)
        then show False using False by simp
      qed
      then show ?thesis using k by (auto elim!: evenE)
    qed
    then show ?thesis using n False assms(3,5) by simp
  qed
qed

lemma crc_start:
  assumes "e \<le> 7"
  shows "crc_bit p ((crc_bit p ^^ (7 - e)) 1) = crc_byte p (2 ^ e)"
proof -
  have "8 - e = Suc (7 - e)" using assms by simp
  then show ?thesis using crc_byte_pow2 [of e p] assms by (simp only: funpow.simps comp_apply le_SucI eval_nat_numeral)
qed

lemma init_row_nth:
  assumes "e \<le> 7" "length tab = 256" "crc = (crc_bit p ^^ (7 - e)) 1" "m < 256"
    and "\<forall>m < 256. 2 ^ Suc e dvd m \<longrightarrow> tab ! m = crc_byte p (of_nat m)"
  shows "init_row p (2 ^ e) crc tab ! m = crc_byte p (of_nat m)"
  using assms
proof (induction e arbitrary: crc tab)
  case 0
  have "init_row p 1 crc tab = init_fill 1 0 (crc_byte p (2 ^ 0)) tab"
    using crc_start [of 0 p] 0(3) by (subst init_row.simps, subst init_row.simps) (simp add: Let_def)
  then show ?case using init_fill_row [of 0 tab m p] 0 by simp
next
  case (Suc e)
  let ?tab = "init_fill (2 ^ Suc e) 0 (crc_byte p (2 ^ Suc e)) tab"
  have "init_row p (2 ^ Suc e) crc tab = init_row p (2 ^ e) (crc_byte p (2 ^ Suc e)) ?tab"
    using crc_start [OF Suc.prems(1), of p] Suc.prems(3) by (subst init_row.simps) (simp add: Let_def)
  moreover have "crc_byte p (2 ^ Suc e) = (crc_bit p ^^ (7 - e)) 1"
    using crc_byte_pow2 [of "Suc e" p] Suc.prems(1) by simp
  moreover have "\<forall>m < 256. 2 ^ Suc e dvd m \<longrightarrow> ?tab ! m = crc_byte p (of_nat m)"
    using init_fill_row [OF Suc.prems(1,2)] Suc.prems(5) by blast
  ultimately show ?case using Suc.IH [of ?tab "crc_byte p (2 ^ Suc e)"] Suc.prems(1,2,4) by simp
qed

lemma crc32_row_nth: "m < 256 \<Longrightarrow> crc32_row p ! m = crc_byte p (of_nat m)"
proof -
  assume m: "m < 256"
  have "\<forall>m < 256. 2 ^ Suc 7 dvd m \<longrightarrow> replicate 256 0 ! m = crc_byte p (of_nat m)" by (auto simp: dvd_def)
  then show ?thesis using init_row_nth [of 7 "replicate 256 0" 1 p m] m by (simp add: crc32_row_def)
qed

section \<open>The tables\<close>

lemma byte_less: "unat (take_bit 8 (x :: u32)) < 256"
  using take_bit_nat_less_exp [of 8 "unat x"] by (simp add: unsigned_take_bit_eq)

lemma next_row_byte: "next_row (crc32_row p) x = crc_byte p x"
  using byte_less [of x] by (simp add: next_row_def and_255 crc32_row_nth crc_byte_split [of p x])

lemma crc32_tab_bits: "unat i < 256 \<Longrightarrow> crc32_tab p j i = (crc_bit p ^^ (8 * Suc j)) i"
proof -
  assume i: "unat i < 256"
  have "next_row (crc32_row p) = crc_byte p" using next_row_byte by blast
  then have "crc32_tab p j i = (crc_byte p ^^ Suc j) i" using i by (simp add: crc32_tab_def crc32_row_nth funpow_swap1)
  then show ?thesis by (simp only: funpow_mult)
qed

lemma do_crc_bits: "do_crc (crc32_tab p) x crc = crc_byte p (crc XOR ucast x)"
proof -
  have "drop_bit 8 (crc XOR ucast x) = drop_bit 8 crc" by (rule bit_word_eqI) (auto simp: bit_simps dest: bit_imp_le_length)
  then show ?thesis
    using crc_byte_split [of p "crc XOR ucast x"] crc32_tab_bits [OF byte_less [of "crc XOR ucast x"], of p 0]
    by (simp add: do_crc_def and_255 del: take_bit_xor)
qed

lemma crc32_le_bitwise_fold: "crc32_le_bitwise p crc xs = fold (do_crc (crc32_tab p)) xs crc"
  by (induction xs arbitrary: crc) (simp_all add: do_crc_bits)

text \<open>Four bytes at once.\<close>

lemma split_word:
  "take_bit 8 q XOR push_bit 8 (take_bit 8 (drop_bit 8 q)) XOR push_bit 16 (take_bit 8 (drop_bit 16 q)) XOR
   push_bit 24 (take_bit 8 (drop_bit 24 q)) = (q :: u32)"
  by (rule bit_word_eqI) (auto simp: bit_simps)

lemma crc_bits_shifted:
  assumes "m \<le> 24" "unat x < 256" "m \<le> n"
  shows "(crc_bit p ^^ n) (push_bit m x) = (crc_bit p ^^ (n - m)) x"
proof -
  have "m + k < 32" if "bit x k" for k using bit_less_pow2 [OF that, of 8] assms(1,2) by simp
  then have "drop_bit m (push_bit m x) = x" by (intro bit_word_eqI) (auto simp: bit_simps)
  then have "(crc_bit p ^^ m) (push_bit m x) = x" by (simp add: crc_bits_push)
  moreover have "(crc_bit p ^^ n) (push_bit m x) = (crc_bit p ^^ (n - m)) ((crc_bit p ^^ m) (push_bit m x))"
    using assms(3) by (simp add: funpow_add [symmetric, THEN fun_cong, simplified])
  ultimately show ?thesis by simp
qed

lemma crc_word:
  "32 \<le> n \<Longrightarrow> (crc_bit p ^^ n) q = (crc_bit p ^^ n) (take_bit 8 q) XOR (crc_bit p ^^ (n - 8)) (take_bit 8 (drop_bit 8 q)) XOR
     (crc_bit p ^^ (n - 16)) (take_bit 8 (drop_bit 16 q)) XOR (crc_bit p ^^ (n - 24)) (take_bit 8 (drop_bit 24 q))"
  by (subst split_word [symmetric, of q]) (simp add: crc_bits_xor crc_bits_shifted byte_less del: take_bit_drop_bit)

lemma do_crc4_bits: "do_crc4 (crc32_tab p) q = (crc_bit p ^^ 32) q"
  using crc_word [of 32 p q] by (simp add: do_crc4_def and_255 crc32_tab_bits byte_less del: take_bit_drop_bit funpow.simps)

lemma do_crc8_bits: "do_crc8 (crc32_tab p) q = (crc_bit p ^^ 64) q"
  using crc_word [of 64 p q] by (simp add: do_crc8_def and_255 crc32_tab_bits byte_less del: take_bit_drop_bit funpow.simps)

lemma load32_xor: "load32 a b c d = ucast a XOR push_bit 8 (ucast b) XOR push_bit 16 (ucast c) XOR push_bit 24 (ucast d)"
  by (rule bit_word_eqI) (auto simp: load32_def bit_simps dest: bit_imp_le_length)

lemma crc_byte_again: "crc_byte p ((crc_bit p ^^ n) x) = (crc_bit p ^^ (n + 8)) x"
  by (simp only: add.commute [of n 8] funpow_add comp_apply)

lemma ucast_byte: "unat (ucast (x :: u8) :: u32) < 256"
proof -
  have "unat x < 256" using unsigned_less [of x] by simp
  then show ?thesis by (simp add: unsigned_ucast_eq take_bit_nat_eq_self)
qed

lemma crc_four:
  "fold (do_crc (crc32_tab p)) [a, b, c, d] crc = (crc_bit p ^^ 32) (crc XOR load32 a b c d)"
  by (simp add: do_crc_bits crc_bits_xor crc_byte_again load32_xor crc_bits_shifted ucast_byte xor.assoc)

lemma crc_block:
  "fold (do_crc (crc32_tab p)) [a, b, c, d, e, f, g, h] crc =
   do_crc8 (crc32_tab p) (crc XOR load32 a b c d) XOR do_crc4 (crc32_tab p) (load32 e f g h)"
proof -
  let ?f = "fold (do_crc (crc32_tab p))"
  have "?f [a, b, c, d, e, f, g, h] crc = ?f [e, f, g, h] (?f [a, b, c, d] crc)" by simp
  also have "\<dots> = (crc_bit p ^^ 32) ((crc_bit p ^^ 32) (crc XOR load32 a b c d) XOR load32 e f g h)" by (simp only: crc_four)
  also have "\<dots> = (crc_bit p ^^ (32 + 32)) (crc XOR load32 a b c d) XOR (crc_bit p ^^ 32) (load32 e f g h)"
    by (simp only: crc_bits_xor funpow_add comp_apply)
  finally show ?thesis by (simp add: do_crc8_bits do_crc4_bits)
qed

lemma crc_blocks_fold:
  "crc_blocks (crc32_tab p) xs crc = (ys, crc') \<Longrightarrow>
   fold (do_crc (crc32_tab p)) ys crc' = fold (do_crc (crc32_tab p)) xs crc"
proof (induction "crc32_tab p" xs crc rule: crc_blocks.induct)
  case (1 a b c d e f g h xs crc)
  then show ?case using crc_block [of p a b c d e f g h crc] by (simp add: Let_def)
qed simp_all

lemma crc_align_fold:
  "crc_align (crc32_tab p) buf xs crc = (ys, crc') \<Longrightarrow>
   fold (do_crc (crc32_tab p)) ys crc' = fold (do_crc (crc32_tab p)) xs crc"
  by (induction "crc32_tab p" buf xs crc rule: crc_align.induct) (auto split: if_splits)

text \<open>
  C15: The checksum computed eight bytes at a time through the generated tables is the checksum computed bit by bit,
  for every polynomial, every seed, every buffer and every alignment of its address. So \<open>crc32_le\<close> and
  \<open>__crc32c_le\<close> are the bitwise functions with their polynomials.
\<close>

theorem crc32_le_sliced:
  "crc32_le_generic crc buf xs (crc32_tab polynomial) = crc32_le_bitwise polynomial crc xs"
proof -
  obtain ys c1 where 1: "crc_align (crc32_tab polynomial) buf xs crc = (ys, c1)" by fastforce
  obtain zs c2 where 2: "crc_blocks (crc32_tab polynomial) ys c1 = (zs, c2)" by fastforce
  show ?thesis using crc_align_fold [OF 1] crc_blocks_fold [OF 2] 1 2
    by (simp add: crc32_le_generic_def crc32_body_def crc32_le_bitwise_fold)
qed

section \<open>Appending zeros\<close>

text \<open>The polynomial 1 is the most significant bit; multiplying by a power of \<open>x\<close> is shifting.\<close>

definition poly_1 :: u32 where "poly_1 = 2 ^ 31"

lemma bit_poly_1 [simp]: "bit poly_1 k \<longleftrightarrow> k = 31"
proof -
  have "bit (2 ^ 31 :: u32) k \<longleftrightarrow> k = 31" by (simp only: bit_exp_iff) auto
  then show ?thesis by (simp only: poly_1_def)
qed

lemma crc_bits_swap: "crc_bit p ((crc_bit p ^^ n) x) = (crc_bit p ^^ n) (crc_bit p x)"
  by (rule funpow_swap1)

lemma gf2_next:
  assumes "n < 31"
  shows "crc_bit p (push_bit (31 - n) (take_bit (Suc n) x)) XOR (if odd (drop_bit (Suc n) x) then poly_1 else 0) =
    push_bit (30 - n) (take_bit (Suc (Suc n)) (x :: u32))"
proof -
  have s: "31 - n = Suc (30 - n)" using assms by simp
  then have "even (push_bit (31 - n) (take_bit (Suc n) x))" by simp
  then have "crc_bit p (push_bit (31 - n) (take_bit (Suc n) x)) = drop_bit 1 (push_bit (31 - n) (take_bit (Suc n) x))"
    by (rule crc_bit_even)
  moreover have "drop_bit 1 (push_bit (31 - n) (take_bit (Suc n) x)) XOR (if odd (drop_bit (Suc n) x) then poly_1 else 0) =
      push_bit (30 - n) (take_bit (Suc (Suc n)) x)"
  proof (rule bit_word_eqI)
    fix k
    assume "k < LENGTH(32)"
    then show "bit (drop_bit 1 (push_bit (31 - n) (take_bit (Suc n) x)) XOR (if odd (drop_bit (Suc n) x) then poly_1 else 0)) k =
        bit (push_bit (30 - n) (take_bit (Suc (Suc n)) x)) k"
      using assms by (cases "k = 31") (auto simp: bit_simps even_drop_bit_iff_not_bit bit_exp_iff less_Suc_eq)
  qed
  ultimately show ?thesis by simp
qed

lemma gf2_loop:
  assumes "y = (crc_bit p ^^ m) (poly_1)" "n \<le> 31"
  shows "(gf2_step y p ^^ n) (x, if x AND 1 \<noteq> 0 then y else 0) =
    (drop_bit n x, (crc_bit p ^^ m) (push_bit (31 - n) (take_bit (Suc n) x)))"
  using assms(2)
proof (induction n)
  case 0
  show ?case using assms(1) by (auto simp: and_1_odd take_bit_Suc mod2_eq_if poly_1_def)
next
  case (Suc n)
  let ?z = "push_bit (31 - n) (take_bit (Suc n) x)"
  have "(gf2_step y p ^^ Suc n) (x, if x AND 1 \<noteq> 0 then y else 0) = gf2_step y p (drop_bit n x, (crc_bit p ^^ m) ?z)"
    using Suc by simp
  also have "\<dots> = (drop_bit (Suc n) x, crc_bit p ((crc_bit p ^^ m) ?z) XOR (if odd (drop_bit (Suc n) x) then y else 0))"
    by (simp add: gf2_step_def crc_bit_def and_1_odd Let_def drop_bit_drop_bit)
  also have "crc_bit p ((crc_bit p ^^ m) ?z) XOR (if odd (drop_bit (Suc n) x) then y else 0) =
      (crc_bit p ^^ m) (crc_bit p ?z XOR (if odd (drop_bit (Suc n) x) then poly_1 else 0))"
    using assms(1) by (simp add: crc_bits_xor crc_bits_swap)
  finally show ?case using gf2_next [of n p x] Suc.prems by simp
qed

lemma gf2_multiply_power: "gf2_multiply x ((crc_bit p ^^ n) (poly_1)) p = (crc_bit p ^^ n) x"
  using gf2_loop [where n = 31 and m = n and x = x, OF refl] take_bit_length_eq [of x] by (simp add: gf2_multiply_def)

lemma shift_loop_bits:
  "0 < len \<Longrightarrow> pw = (crc_bit p ^^ n) (poly_1) \<Longrightarrow> shift_loop p pw crc len = (crc_bit p ^^ (n * len)) crc"
proof (induction p pw crc len arbitrary: n rule: shift_loop.induct)
  case (1 p pw crc len)
  let ?crc = "if odd len then gf2_multiply crc pw p else crc"
  have c: "?crc = (crc_bit p ^^ (n * (len mod 2))) crc" using 1(3) by (simp add: gf2_multiply_power mod2_eq_if)
  have loop: "shift_loop p pw crc len = (if len div 2 = 0 then ?crc else shift_loop p (gf2_multiply pw pw p) ?crc (len div 2))"
    by (simp add: shift_loop.simps [of p pw crc len] Let_def)
  show ?case
  proof (cases "len div 2 = 0")
    case True
    then have "len mod 2 = len" by simp
    then show ?thesis using True loop c by simp
  next
    case False
    have "gf2_multiply pw pw p = (crc_bit p ^^ (n + n)) (poly_1)" using 1(3) by (simp add: gf2_multiply_power funpow_add)
    then have "shift_loop p (gf2_multiply pw pw p) ?crc (len div 2) = (crc_bit p ^^ ((n + n) * (len div 2))) ?crc"
      using 1(1) [OF refl refl False, of "n + n"] False by simp
    also have "\<dots> = (crc_bit p ^^ ((n + n) * (len div 2) + n * (len mod 2))) crc" by (simp only: c funpow_add comp_apply)
    also have "(n + n) * (len div 2) + n * (len mod 2) = n * len"
      by (metis add_mult_distrib2 mult.assoc mult_2 mult_2_right mult_div_mod_eq)
    finally show ?thesis using loop False by simp
  qed
qed

lemma poly_power: "p = (crc_bit p ^^ 32) (poly_1)"
proof -
  have "(crc_bit p ^^ 31) (push_bit 31 1) = drop_bit 31 (push_bit 31 (1 :: u32))" by (rule crc_bits_push) simp
  then have "(crc_bit p ^^ 31) poly_1 = 1" by (simp add: poly_1_def)
  moreover have "(crc_bit p ^^ Suc 31) (poly_1) = crc_bit p ((crc_bit p ^^ 31) (poly_1))" by (simp only: funpow.simps comp_apply)
  ultimately have "(crc_bit p ^^ Suc 31) (poly_1) = p" by (simp add: crc_bit_def)
  then show ?thesis by simp
qed

lemma bitwise_zeros: "crc32_le_bitwise p crc (replicate n 0) = (crc_bit p ^^ (8 * n)) crc"
proof (induction n arbitrary: crc)
  case (Suc n)
  have "(crc_bit p ^^ (8 * Suc n)) crc = (crc_bit p ^^ (8 * n)) (crc_byte p crc)"
    by (simp only: mult_Suc_right add.commute [of 8] funpow_add comp_apply)
  then show ?case using Suc by simp
qed simp

text \<open>
  C16: \<open>crc32_generic_shift\<close>, which squares and multiplies polynomials, computes in logarithmic time what the bitwise
  checksum computes by appending \<open>len\<close> zero bytes, for every polynomial, checksum and length.
\<close>

theorem crc32_shift_zeros: "crc32_generic_shift crc len polynomial = crc32_le_bitwise polynomial crc (replicate len 0)"
proof -
  let ?p = polynomial
  let ?c = "(crc_bit ?p ^^ (8 * (len mod 4))) crc"
  have "crc32_generic_shift crc len ?p = (crc_bit ?p ^^ (32 * (len div 4))) ?c"
  proof (cases "len div 4 = 0")
    case False
    then show ?thesis using shift_loop_bits [OF _ poly_power, of "len div 4" ?p ?c] by (simp add: crc32_generic_shift_def Let_def)
  qed (simp add: crc32_generic_shift_def)
  also have "\<dots> = (crc_bit ?p ^^ (32 * (len div 4) + 8 * (len mod 4))) crc" by (simp only: funpow_add comp_apply)
  also have "32 * (len div 4) + 8 * (len mod 4) = 8 * len" using mult_div_mod_eq [of 4 len] by linarith
  finally show ?thesis by (simp add: bitwise_zeros)
qed

end
