(* ===== verification/Spec2Isabelle.thy ===== *)
theory Spec2Isabelle
  imports Cpu_Spec Virtio_Link Virtio_Type Node_Loop Node_Binding Crc32
begin

text \<open>
  Verification of the Linux Kernel Library as node-lkl uses it.
\<close>

end
